(* ===== verification/Prelude.thy ===== *)
theory Prelude
  imports Main "HOL-Library.Word"
begin

text \<open>
  Shared vocabulary of the development: the status values the code returns, the loop
  combinators its early-returning loops translate to, the 64-bit integer range, and the
  generic list facts used by several components.
\<close>

section \<open>Status values\<close>

text \<open>
  An \<open>absl::StatusOr<T>\<close> is a value of \<open>error + 'a\<close>. Every early return of an error in the
  source is a branch that yields \<open>Inl\<close>; the constructor is the status code and the string
  identifies the return statement (the fixed part of its message). A failing \<open>CHECK\<close>, which
  terminates the process, is \<open>CheckFailed\<close>.
\<close>

datatype error =
    CheckFailed string
  | InvalidArgument string
  | InternalError string
  | Unimplemented string
  | ResourceExhausted string
  | FailedPrecondition string

type_synonym 'a status_or = "error + 'a"

definition bindE :: "'a status_or \<Rightarrow> ('a \<Rightarrow> 'b status_or) \<Rightarrow> 'b status_or" where
  "bindE m f = (case m of Inl e \<Rightarrow> Inl e | Inr x \<Rightarrow> f x)"

fun for_each :: "('a \<Rightarrow> unit status_or) \<Rightarrow> 'a list \<Rightarrow> unit status_or" where
  "for_each f [] = Inr ()"
| "for_each f (x # xs) = bindE (f x) (\<lambda>_. for_each f xs)"

fun foldE :: "('s \<Rightarrow> 'a \<Rightarrow> 's status_or) \<Rightarrow> 's \<Rightarrow> 'a list \<Rightarrow> 's status_or" where
  "foldE f s [] = Inr s"
| "foldE f s (x # xs) = bindE (f s x) (\<lambda>s'. foldE f s' xs)"

fun mapE :: "('a \<Rightarrow> 'b status_or) \<Rightarrow> 'a list \<Rightarrow> 'b list status_or" where
  "mapE f [] = Inr []"
| "mapE f (x # xs) = bindE (f x) (\<lambda>y. bindE (mapE f xs) (\<lambda>ys. Inr (y # ys)))"

text \<open>Short-circuiting \<open>absl::c_all_of\<close> and \<open>absl::c_any_of\<close> over a predicate that may fail.\<close>

fun all_ofE :: "('a \<Rightarrow> bool status_or) \<Rightarrow> 'a list \<Rightarrow> bool status_or" where
  "all_ofE f [] = Inr True"
| "all_ofE f (x # xs) = bindE (f x) (\<lambda>b. if b then all_ofE f xs else Inr False)"

fun any_ofE :: "('a \<Rightarrow> bool status_or) \<Rightarrow> 'a list \<Rightarrow> bool status_or" where
  "any_ofE f [] = Inr False"
| "any_ofE f (x # xs) = bindE (f x) (\<lambda>b. if b then Inr True else any_ofE f xs)"

text \<open>An indexed read \<open>xs[i]\<close> of a container whose bounds the library checks.\<close>

definition at_index :: "'a list \<Rightarrow> int \<Rightarrow> 'a status_or" where
  "at_index xs i = (if 0 \<le> i \<and> i < int (length xs) then Inr (xs ! nat i)
                    else Inl (CheckFailed ''index out of range''))"

text \<open>Recursion through the elements of two lists at once.\<close>

lemma size_zip_fst [termination_simp]: "(a, b) \<in> set (zip xs ys) \<Longrightarrow> f a < Suc (Suc (size_list f xs))"
  by (drule set_zip_leftD, drule size_list_estimation' [where f = f, OF _ order_refl]) simp

named_theorems status_simps \<open>normal forms of the status combinators\<close>

lemma bindE_Inl [simp]: "bindE (Inl e) f = Inl e"
  by (simp add: bindE_def)

lemma bindE_Inr [simp]: "bindE (Inr x) f = f x"
  by (simp add: bindE_def)

lemma bindE_eq_Inr [status_simps]:
  "bindE m f = Inr y \<longleftrightarrow> (\<exists>x. m = Inr x \<and> f x = Inr y)"
  by (cases m) simp_all

lemma bindE_assoc: "bindE (bindE m f) g = bindE m (\<lambda>x. bindE (f x) g)"
  by (cases m) simp_all

lemma bindE_cong [cong, fundef_cong]:
  "m = m' \<Longrightarrow> (\<And>x. m' = Inr x \<Longrightarrow> f x = f' x) \<Longrightarrow> bindE m f = bindE m' f'"
  by (cases m') simp_all

lemma if_Inl_eq_Inr [status_simps]:
  "(if c then Inl e else m) = Inr y \<longleftrightarrow> \<not> c \<and> m = Inr y"
  by simp

lemma for_each_eq_Inr [status_simps]:
  "for_each f xs = Inr u \<longleftrightarrow> (\<forall>x\<in>set xs. f x = Inr ())"
  by (induction xs) (auto simp: bindE_eq_Inr)

lemma for_each_Inl_ex: "for_each f xs = Inl e \<Longrightarrow> \<exists>x\<in>set xs. f x = Inl e"
  by (induction xs) (auto simp: bindE_def split: sum.splits)

lemma for_each_cong [fundef_cong]:
  "xs = ys \<Longrightarrow> (\<And>x. x \<in> set ys \<Longrightarrow> f x = g x) \<Longrightarrow> for_each f xs = for_each g ys"
  by (induction xs arbitrary: ys) auto

lemma mapE_cong [fundef_cong]:
  "xs = ys \<Longrightarrow> (\<And>x. x \<in> set ys \<Longrightarrow> f x = g x) \<Longrightarrow> mapE f xs = mapE g ys"
  by (induction xs arbitrary: ys) auto

lemma mapE_eq_Inr [status_simps]:
  "mapE f xs = Inr ys \<longleftrightarrow> list_all2 (\<lambda>x y. f x = Inr y) xs ys"
  by (induction xs arbitrary: ys) (auto simp: bindE_eq_Inr list_all2_Cons1)

lemma mapE_all_Inr: "(\<And>x. x \<in> set xs \<Longrightarrow> f x = Inr (g x)) \<Longrightarrow> mapE f xs = Inr (map g xs)"
  by (induction xs) auto

lemma all_ofE_cong [fundef_cong]:
  "xs = ys \<Longrightarrow> (\<And>x. x \<in> set ys \<Longrightarrow> f x = g x) \<Longrightarrow> all_ofE f xs = all_ofE g ys"
  by (induction xs arbitrary: ys) (auto cong: if_cong)

lemma any_ofE_cong [fundef_cong]:
  "xs = ys \<Longrightarrow> (\<And>x. x \<in> set ys \<Longrightarrow> f x = g x) \<Longrightarrow> any_ofE f xs = any_ofE g ys"
  by (induction xs arbitrary: ys) (auto cong: if_cong)

lemma all_ofE_Inr: "(\<And>x. x \<in> set xs \<Longrightarrow> f x = Inr (g x)) \<Longrightarrow> all_ofE f xs = Inr (list_all g xs)"
  by (induction xs) auto

lemma any_ofE_Inr: "(\<And>x. x \<in> set xs \<Longrightarrow> f x = Inr (g x)) \<Longrightarrow> any_ofE f xs = Inr (list_ex g xs)"
  by (induction xs) auto

lemma foldE_invariant:
  "foldE f s xs = Inr s' \<Longrightarrow> P s \<Longrightarrow>
   (\<And>s x s''. x \<in> set xs \<Longrightarrow> P s \<Longrightarrow> f s x = Inr s'' \<Longrightarrow> P s'') \<Longrightarrow> P s'"
proof (induction xs arbitrary: s)
  case (Cons x xs)
  then obtain s1 where "f s x = Inr s1" and "foldE f s1 xs = Inr s'"
    by (auto simp: bindE_eq_Inr)
  with Cons show ?case by (metis list.set_intros)
qed simp

lemma foldE_prefix:
  assumes "foldE f s xs = Inr s'" "P [] s"
    "\<And>ys x s s''. x \<in> set xs \<Longrightarrow> P ys s \<Longrightarrow> f s x = Inr s'' \<Longrightarrow> P (ys @ [x]) s''"
  shows "P xs s'"
proof -
  have "foldE f s zs = Inr s' \<Longrightarrow> P ys s \<Longrightarrow> set zs \<subseteq> set xs \<Longrightarrow> P (ys @ zs) s'" for ys zs s
  proof (induction zs arbitrary: ys s)
    case (Cons z zs)
    then obtain s1 where s1: "f s z = Inr s1" "foldE f s1 zs = Inr s'" by (auto simp: bindE_eq_Inr)
    have "P (ys @ [z]) s1" using assms(3) [of z ys s s1] Cons.prems s1 by simp
    from Cons.IH [OF s1(2) this] Cons.prems show ?case by simp
  qed simp
  from this [of s xs "[]"] assms(1,2) show ?thesis by simp
qed

lemma foldE_all: "foldE f s xs = Inr s' \<Longrightarrow> x \<in> set xs \<Longrightarrow> \<exists>a b. f a x = Inr b"
  by (induction xs arbitrary: s) (auto simp: bindE_eq_Inr)

section \<open>64-bit integers\<close>

text \<open>
  \<open>int64_t\<close> values are HOL integers; \<open>in_int64\<close> is the representable range and \<open>wrap64\<close> the
  two's complement reduction, used where the code relies on the wrapped value.
\<close>

definition kint64max :: int where "kint64max = 2 ^ 63 - 1"
definition kint64min :: int where "kint64min = - (2 ^ 63)"

definition in_int64 :: "int \<Rightarrow> bool" where
  "in_int64 x \<longleftrightarrow> kint64min \<le> x \<and> x \<le> kint64max"

definition wrap64 :: "int \<Rightarrow> int" where
  "wrap64 x = (x + 2 ^ 63) mod 2 ^ 64 - 2 ^ 63"

lemma wrap64_id [simp]: "in_int64 x \<Longrightarrow> wrap64 x = x"
  by (simp add: in_int64_def wrap64_def kint64max_def kint64min_def)

lemma in_int64_wrap64 [simp]: "in_int64 (wrap64 x)"
  using pos_mod_bound [of "2 ^ 64" "x + 2 ^ 63"] pos_mod_sign [of "2 ^ 64" "x + 2 ^ 63"]
  by (simp add: in_int64_def wrap64_def kint64max_def kint64min_def)

lemma sint_eq_wrap64: "sint (word_of_int x :: 64 word) = wrap64 x"
  by (simp add: wrap64_def signed_take_bit_eq_take_bit_shift take_bit_eq_mod sint_uint
      uint_word_of_int mod_add_left_eq)

lemma le_div_iff_int: "0 < c \<Longrightarrow> m \<le> x div c \<longleftrightarrow> m * c \<le> x" for c m x :: int
proof
  assume c: "0 < c" and "m \<le> x div c"
  then have "m * c \<le> x div c * c" by (simp add: mult_right_mono)
  also have "\<dots> \<le> x" using c by (simp add: minus_mod_eq_div_mult [symmetric])
  finally show "m * c \<le> x" .
next
  assume "0 < c" "m * c \<le> x"
  then show "m \<le> x div c" using zdiv_mono1 [of "m * c" x c] by simp
qed

section \<open>Lists\<close>

lemma prod_list_nonneg: "(\<forall>x\<in>set xs. 0 \<le> x) \<Longrightarrow> 0 \<le> prod_list (xs :: int list)"
  by (induction xs) auto

lemma prod_list_pos: "(\<forall>x\<in>set xs. 0 < x) \<Longrightarrow> 0 < prod_list (xs :: int list)"
  by (induction xs) auto

lemma nth_map_upt [simp]: "i < n \<Longrightarrow> map f [0..<n] ! i = f i"
  by simp

end
