(* ===== verification/OverflowUtil.thy ===== *)
theory OverflowUtil
  imports Prelude
begin

text \<open>
  The checked 64-bit arithmetic of \<open>xla/overflow_util.h\<close>. Both routines have two bodies,
  selected by \<open>ABSL_HAVE_BUILTIN\<close>: one over the compiler's overflow builtins, and a portable
  one over unsigned words. The theory models both and shows that they agree.
\<close>

unbundle bit_operations_syntax

section \<open>Operations\<close>

text \<open>
  The builtin body: \<open>__builtin_mul_overflow\<close> stores the wrapped product and reports whether
  the exact product is out of range.
\<close>

definition OverflowSafeMultiply :: "64 word \<Rightarrow> 64 word \<Rightarrow> 64 word \<times> bool" where
  "OverflowSafeMultiply x y =
     (let result = x * y;
          bad = (\<not> in_int64 (sint x * sint y));
          bad = (bad \<or> sint x < 0);
          bad = (bad \<or> sint y < 0)
      in (result, bad))"

text \<open>The portable body: \<open>uint64_t\<close> product, and a division to detect overflow.\<close>

definition OverflowSafeMultiply_portable :: "64 word \<Rightarrow> 64 word \<Rightarrow> 64 word \<times> bool" where
  "OverflowSafeMultiply_portable x y =
     (let ux = x; uy = y; uxy = ux * uy;
          result = uxy;
          bad = (sint result < 0);
          bad = (if drop_bit 32 (ux OR uy) \<noteq> 0
                 then (if sint x < 0 \<or> sint y < 0 then True
                       else if ux \<noteq> 0 \<and> uxy div ux \<noteq> uy then True
                       else bad)
                 else bad)
      in (result, bad))"

text \<open>\<open>OverflowSafeAdd\<close> at \<open>T = int64_t\<close>, both bodies.\<close>

definition OverflowSafeAdd :: "64 word \<Rightarrow> 64 word \<Rightarrow> 64 word option" where
  "OverflowSafeAdd x y = (if \<not> in_int64 (sint x + sint y) then None else Some (x + y))"

definition OverflowSafeAdd_portable :: "64 word \<Rightarrow> 64 word \<Rightarrow> 64 word option" where
  "OverflowSafeAdd_portable x y =
     (let usum = x + y; sum = usum
      in if (0 \<le> sint x) = (0 \<le> sint y) \<and> (0 \<le> sint sum) \<noteq> (0 \<le> sint x)
         then None else Some sum)"

section \<open>Signed readings of 64-bit words\<close>

lemma sint64_range: "- (2 ^ 63) \<le> sint (x :: 64 word)" "sint (x :: 64 word) < 2 ^ 63"
  using sint_range_size [of x] by (simp_all add: word_size)

lemma in_int64_sint [simp]: "in_int64 (sint (x :: 64 word))"
  using sint64_range [of x] by (simp add: in_int64_def kint64max_def kint64min_def)

lemma sint64_cases: "sint (x :: 64 word) = (if uint x < 2 ^ 63 then uint x else uint x - 2 ^ 64)"
proof -
  have "sint x = (uint x + 2 ^ 63) mod 2 ^ 64 - 2 ^ 63"
    using sint_eq_wrap64 [of "uint x"] by (simp add: wrap64_def)
  moreover have "0 \<le> uint x" "uint x < 2 ^ 64"
    using uint_lt2p [of x] by simp_all
  moreover have "(uint x + 2 ^ 63) mod 2 ^ 64 = uint x + 2 ^ 63 - 2 ^ 64" if "2 ^ 63 \<le> uint x"
    using that \<open>uint x < 2 ^ 64\<close> mod_add_self2 [of "uint x + 2 ^ 63 - 2 ^ 64" "2 ^ 64 :: int"]
    by (simp add: add.commute)
  ultimately show ?thesis by simp
qed

lemma sint64_nonneg: "0 \<le> sint (x :: 64 word) \<Longrightarrow> sint x = uint x"
  using uint_lt2p [of x] by (simp add: sint64_cases split: if_splits)

lemma sint64_neg_iff: "sint (x :: 64 word) < 0 \<longleftrightarrow> 2 ^ 63 \<le> uint x"
  using uint_lt2p [of x] by (simp add: sint64_cases)

lemma sint_mult64: "sint (x * y :: 64 word) = wrap64 (sint x * sint y)"
  using sint_eq_wrap64 [of "sint x * sint y"] by simp

lemma sint_add64: "sint (x + y :: 64 word) = wrap64 (sint x + sint y)"
  using sint_eq_wrap64 [of "sint x + sint y"] by simp

section \<open>Multiplication\<close>

lemma high_half_zero_iff:
  "drop_bit 32 (x OR y) = 0 \<longleftrightarrow> uint (x :: 64 word) < 2 ^ 32 \<and> uint y < 2 ^ 32"
proof -
  have half: "drop_bit 32 z = 0 \<longleftrightarrow> uint z < 2 ^ 32" for z :: "64 word"
  proof -
    have "drop_bit 32 z = 0 \<longleftrightarrow> uint z div 2 ^ 32 = 0"
      by (simp add: word_uint_eq_iff drop_bit_eq_div uint_div)
    also have "\<dots> \<longleftrightarrow> uint z < 2 ^ 32"
      using uint_ge_0 [of z] by (auto simp: zdiv_eq_0_iff)
    finally show ?thesis .
  qed
  have "drop_bit 32 (x OR y) = 0 \<longleftrightarrow> drop_bit 32 x = 0 \<and> drop_bit 32 y = 0"
    by (simp add: drop_bit_or or_eq_0_iff)
  then show ?thesis by (simp add: half)
qed

text \<open>For non-negative operands the unsigned product overflows exactly when the division test says so.\<close>

lemma uint_mult_div_test:
  assumes "(x :: 64 word) \<noteq> 0"
  shows "(x * y) div x = y \<longleftrightarrow> uint x * uint y < 2 ^ 64"
proof
  assume "uint x * uint y < 2 ^ 64"
  then have "uint (x * y) = uint x * uint y" by (simp add: uint_word_ariths)
  then show "(x * y) div x = y"
    using assms by (simp add: word_uint_eq_iff uint_div)
next
  assume a: "(x * y) div x = y"
  have pos: "0 < uint x" using assms uint_ge_0 [of x] by (simp add: uint_0_iff order_less_le)
  have "uint x * uint y = uint x * (uint (x * y) div uint x)"
    using a by (metis uint_div)
  also have "\<dots> \<le> uint (x * y)"
    using pos_mod_sign [OF pos, of "uint (x * y)"] minus_mod_eq_mult_div [of "uint (x * y)" "uint x"]
    by linarith
  also have "\<dots> < 2 ^ 64" using uint_lt2p [of "x * y"] by simp
  finally show "uint x * uint y < 2 ^ 64" .
qed

lemma nonneg_product_in_int64:
  assumes "0 \<le> sint (x :: 64 word)" "0 \<le> sint (y :: 64 word)"
  shows "in_int64 (sint x * sint y) \<longleftrightarrow> uint x * uint y < 2 ^ 63"
proof -
  have "sint x = uint x" "sint y = uint y" using assms by (auto intro: sint64_nonneg)
  moreover have "0 \<le> uint x * uint y" by simp
  moreover have "in_int64 p \<longleftrightarrow> p < 2 ^ 63" if "0 \<le> p" for p
    using that by (auto simp: in_int64_def kint64max_def kint64min_def)
  ultimately show ?thesis by metis
qed

text \<open>
  C29. \<open>OverflowSafeMultiply\<close>: the portable body returns the same product and the same overflow
  flag as the builtin one for every pair of operands, negative ones included.
\<close>

theorem OverflowSafeMultiply_bodies_agree:
  "OverflowSafeMultiply_portable x y = OverflowSafeMultiply x y"
proof (cases "sint x < 0 \<or> sint y < 0")
  case True
  then have "2 ^ 32 \<le> uint x \<or> 2 ^ 32 \<le> uint y" by (auto simp: sint64_neg_iff)
  then have "drop_bit 32 (x OR y) \<noteq> 0" by (metis high_half_zero_iff not_less)
  with True show ?thesis
    by (auto simp: OverflowSafeMultiply_portable_def OverflowSafeMultiply_def Let_def)
next
  case False
  then have range: "\<not> in_int64 (sint x * sint y) \<longleftrightarrow> 2 ^ 63 \<le> uint x * uint y"
    by (simp add: nonneg_product_in_int64 not_less)
  have small: "uint (x * y) = uint x * uint y" if "uint x * uint y < 2 ^ 64"
    using that by (simp add: uint_word_ariths)
  have bad: "(x \<noteq> 0 \<and> (x * y) div x \<noteq> y) \<or> sint (x * y) < 0 \<longleftrightarrow> 2 ^ 63 \<le> uint x * uint y"
    using small uint_mult_div_test [of x y] by (cases "x = 0") (auto simp: sint64_neg_iff)
  have "sint (x * y) < 0 \<longleftrightarrow> 2 ^ 63 \<le> uint x * uint y" if "drop_bit 32 (x OR y) = 0"
  proof -
    have "uint x < 2 ^ 32" "uint y < 2 ^ 32" using that high_half_zero_iff by blast+
    then have "uint x * uint y < 2 ^ 32 * 2 ^ 32"
      by (intro mult_strict_mono) auto
    then show ?thesis using small by (simp add: sint64_neg_iff)
  qed
  with False bad range show ?thesis
    by (auto simp: OverflowSafeMultiply_portable_def OverflowSafeMultiply_def Let_def)
qed

lemma OverflowSafeMultiply_exact:
  "\<not> snd (OverflowSafeMultiply x y) \<longleftrightarrow> 0 \<le> sint x \<and> 0 \<le> sint y \<and> in_int64 (sint x * sint y)"
  "\<not> snd (OverflowSafeMultiply x y) \<Longrightarrow> sint (fst (OverflowSafeMultiply x y)) = sint x * sint y"
  by (auto simp: OverflowSafeMultiply_def Let_def sint_mult64)

section \<open>Addition\<close>

text \<open>
  \<open>OverflowSafeAdd\<close>: the portable sign test agrees with the overflow builtin on every input.
\<close>

lemma OverflowSafeAdd_bodies_agree:
  "OverflowSafeAdd_portable x y = OverflowSafeAdd x y"
proof -
  define a b where "a = sint x" and "b = sint y"
  have ab: "- (2 ^ 63) \<le> a" "a < 2 ^ 63" "- (2 ^ 63) \<le> b" "b < 2 ^ 63"
    using sint64_range [of x] sint64_range [of y] by (simp_all add: a_def b_def)
  have sum: "sint (x + y) = wrap64 (a + b)" by (simp add: sint_add64 a_def b_def)
  have wrap: "wrap64 (a + b) =
      (if a + b < - (2 ^ 63) then a + b + 2 ^ 64 else if a + b < 2 ^ 63 then a + b else a + b - 2 ^ 64)"
  proof -
    have "(a + b + 2 ^ 63) mod 2 ^ 64 = a + b + 2 ^ 63 + 2 ^ 64" if "a + b < - (2 ^ 63)"
      using that ab mod_add_self2 [of "a + b + 2 ^ 63" "2 ^ 64 :: int"]
      by (simp add: mod_pos_pos_trivial algebra_simps)
    moreover have "(a + b + 2 ^ 63) mod 2 ^ 64 = a + b + 2 ^ 63 - 2 ^ 64" if "2 ^ 63 \<le> a + b"
      using that ab mod_add_self2 [of "a + b + 2 ^ 63 - 2 ^ 64" "2 ^ 64 :: int"]
      by (simp add: mod_pos_pos_trivial algebra_simps)
    ultimately show ?thesis by (simp add: wrap64_def)
  qed
  have "((0 \<le> a) = (0 \<le> b) \<and> (0 \<le> wrap64 (a + b)) \<noteq> (0 \<le> a)) \<longleftrightarrow> \<not> in_int64 (a + b)"
    unfolding wrap in_int64_def kint64max_def kint64min_def using ab by auto
  then show ?thesis
    by (simp add: OverflowSafeAdd_portable_def OverflowSafeAdd_def Let_def sum a_def b_def)
qed

lemma OverflowSafeAdd_Some: "OverflowSafeAdd x y = Some z \<Longrightarrow> sint z = sint x + sint y"
  by (auto simp: OverflowSafeAdd_def sint_add64 split: if_splits)

section \<open>On integers in range\<close>

text \<open>\<open>OverflowSafeMultiply\<close> with its operands and result read as signed integers.\<close>

definition OverflowSafeMultiply_int :: "int \<Rightarrow> int \<Rightarrow> int \<times> bool" where
  "OverflowSafeMultiply_int x y =
     (case OverflowSafeMultiply (word_of_int x) (word_of_int y) of (r, bad) \<Rightarrow> (sint r, bad))"

lemma sint_word_of_int64: "in_int64 x \<Longrightarrow> sint (word_of_int x :: 64 word) = x"
  by (simp add: sint_eq_wrap64 wrap64_id)

lemma OverflowSafeMultiply_int_ok:
  assumes "in_int64 x" "in_int64 y"
  shows "\<not> snd (OverflowSafeMultiply_int x y) \<longleftrightarrow> 0 \<le> x \<and> 0 \<le> y \<and> in_int64 (x * y)"
    "\<not> snd (OverflowSafeMultiply_int x y) \<Longrightarrow> fst (OverflowSafeMultiply_int x y) = x * y"
    "in_int64 (fst (OverflowSafeMultiply_int x y))"
  using OverflowSafeMultiply_exact [of "word_of_int x" "word_of_int y"] assms
  by (auto simp: OverflowSafeMultiply_int_def sint_word_of_int64 split: prod.splits)

end
