(* ===== verification/Permutation.thy ===== *)
theory Permutation
  imports Prelude "HOL-Library.Multiset"
begin

text \<open>
  \<open>xla/permutation_util.h\<close> and \<open>xla/permutation_util.cc\<close>: permutations of
  \<open>0 .. n - 1\<close> as vectors of \<open>int64_t\<close>. \<open>CHECK\<close> failures are \<open>CheckFailed\<close>.
\<close>

section \<open>Operations\<close>

text \<open>The loop of \<open>IsPermutation\<close> carries the vector \<open>seen\<close>.\<close>

fun IsPermutation_loop :: "nat \<Rightarrow> bool list \<Rightarrow> int list \<Rightarrow> bool" where
  "IsPermutation_loop n seen [] = True"
| "IsPermutation_loop n seen (p # ps) =
     (if p < 0 \<or> p \<ge> int n \<or> seen ! nat p then False
      else IsPermutation_loop n (seen[nat p := True]) ps)"

definition IsPermutation :: "int list \<Rightarrow> bool" where
  "IsPermutation permutation =
     IsPermutation_loop (length permutation) (replicate (length permutation) False) permutation"

definition Permute :: "'a list \<Rightarrow> int list \<Rightarrow> 'a list status_or" where
  "Permute input permutation =
     (if length permutation \<noteq> length input then Inl (CheckFailed ''permutation.size() == data.size()'')
      else if \<not> IsPermutation permutation then Inl (CheckFailed ''IsPermutation(permutation)'')
      else Inr (map (\<lambda>p. input ! nat p) permutation))"

text \<open>
  The scatter loop \<open>output[permutation[i]] = input[i]\<close>; the output vector starts with the
  value-initialised element \<open>d\<close>.
\<close>

fun scatter_loop :: "'a list \<Rightarrow> (int \<times> 'a) list \<Rightarrow> 'a list" where
  "scatter_loop output [] = output"
| "scatter_loop output ((p, v) # rest) = scatter_loop (output[nat p := v]) rest"

definition PermuteInverse :: "'a \<Rightarrow> 'a list \<Rightarrow> int list \<Rightarrow> 'a list status_or" where
  "PermuteInverse d input permutation =
     (if length permutation \<noteq> length input then Inl (CheckFailed ''permutation.size() == input.size()'')
      else if \<not> IsPermutation permutation then Inl (CheckFailed ''IsPermutation(permutation)'')
      else Inr (scatter_loop (replicate (length input) d) (zip permutation input)))"

text \<open>\<open>InversePermutation\<close>; its precondition is only a \<open>DCHECK\<close>.\<close>

definition InversePermutation :: "int list \<Rightarrow> int list" where
  "InversePermutation input_permutation =
     scatter_loop (replicate (length input_permutation) 0)
       (zip input_permutation (map int [0..<length input_permutation]))"

definition ComposePermutations :: "int list \<Rightarrow> int list \<Rightarrow> int list status_or" where
  "ComposePermutations p1 p2 =
     (if length p1 \<noteq> length p2 then Inl (CheckFailed ''p1.size() == p2.size()'')
      else Inr (map (\<lambda>i. p1 ! nat (p2 ! i)) [0..<length p1]))"

fun IsIdentityPermutation_from :: "int \<Rightarrow> int list \<Rightarrow> bool" where
  "IsIdentityPermutation_from i [] = True"
| "IsIdentityPermutation_from i (p # ps) =
     (if p \<noteq> i then False else IsIdentityPermutation_from (i + 1) ps)"

definition IsIdentityPermutation :: "int list \<Rightarrow> bool" where
  "IsIdentityPermutation permutation = IsIdentityPermutation_from 0 permutation"

text \<open>\<open>std::rotate(begin + first, begin + middle, begin + last)\<close> on a vector.\<close>

definition rotate_range :: "nat \<Rightarrow> nat \<Rightarrow> nat \<Rightarrow> 'a list \<Rightarrow> 'a list" where
  "rotate_range first middle stop xs =
     take first xs @ take (stop - middle) (drop middle xs)
       @ take (middle - first) (drop first xs) @ drop stop xs"

definition MoveSingleElement :: "'a list \<Rightarrow> nat \<Rightarrow> nat \<Rightarrow> 'a list" where
  "MoveSingleElement permutation from to =
     (if from < to then rotate_range from (from + 1) (to + 1) permutation
      else if from > to then rotate_range to from (from + 1) permutation
      else permutation)"

section \<open>What a permutation is\<close>

lemma IsPermutation_loop_iff:
  "length seen = n \<Longrightarrow>
   IsPermutation_loop n seen ps \<longleftrightarrow>
     distinct ps \<and> (\<forall>p\<in>set ps. 0 \<le> p \<and> p < int n \<and> \<not> seen ! nat p)"
proof (induction n seen ps rule: IsPermutation_loop.induct)
  case (2 n seen p ps)
  show ?case
  proof (cases "p < 0 \<or> p \<ge> int n \<or> seen ! nat p")
    case True
    then show ?thesis by auto
  next
    case False
    then have p: "0 \<le> p" "p < int n" "\<not> seen ! nat p" by auto
    have nth: "q \<noteq> p \<Longrightarrow> 0 \<le> q \<Longrightarrow> seen[nat p := True] ! nat q = seen ! nat q" for q
      using p by (simp add: nth_list_update_neq nat_eq_iff)
    have self: "seen[nat p := True] ! nat p"
      using p "2.prems" by (simp add: nat_less_iff)
    have "IsPermutation_loop n seen (p # ps) \<longleftrightarrow>
        distinct ps \<and> (\<forall>q\<in>set ps. 0 \<le> q \<and> q < int n \<and> \<not> seen[nat p := True] ! nat q)"
      using False "2.IH" "2.prems" by simp
    also have "\<dots> \<longleftrightarrow> distinct (p # ps) \<and> (\<forall>q\<in>set ps. 0 \<le> q \<and> q < int n \<and> \<not> seen ! nat q)"
      using nth self by (metis distinct.simps(2))
    finally show ?thesis using p by auto
  qed
qed simp

lemma IsPermutation_iff:
  "IsPermutation ps \<longleftrightarrow> distinct ps \<and> (\<forall>p\<in>set ps. 0 \<le> p \<and> p < int (length ps))"
  by (auto simp: IsPermutation_def IsPermutation_loop_iff)

lemma IsPermutation_set: "IsPermutation ps \<Longrightarrow> set ps = {0..<int (length ps)}"
proof -
  assume a: "IsPermutation ps"
  then have "set ps \<subseteq> {0..<int (length ps)}" and "card (set ps) = length ps"
    by (auto simp: IsPermutation_iff distinct_card)
  then show ?thesis by (intro card_subset_eq) auto
qed

lemma set_map_int_upt [simp]: "set (map int [0..<n]) = {0..<int n}"
  using image_int_atLeastLessThan [of 0 n] by simp

lemma IsPermutation_mset:
  "IsPermutation ps \<longleftrightarrow> mset ps = mset (map int [0..<length ps])"
proof
  assume a: "IsPermutation ps"
  have "set ps = set (map int [0..<length ps])"
    unfolding set_map_int_upt by (rule IsPermutation_set [OF a])
  moreover have "distinct ps" using a by (simp add: IsPermutation_iff)
  moreover have "distinct (map int [0..<length ps])" by (simp add: distinct_map)
  ultimately show "mset ps = mset (map int [0..<length ps])"
    using set_eq_iff_mset_eq_distinct by blast
next
  assume a: "mset ps = mset (map int [0..<length ps])"
  then have "set ps = {0..<int (length ps)}"
    using mset_eq_setD set_map_int_upt by blast
  moreover have "distinct ps"
    using mset_eq_imp_distinct_iff [OF a] by (simp add: distinct_map)
  ultimately show "IsPermutation ps" by (auto simp: IsPermutation_iff)
qed

section \<open>Scattering and gathering\<close>

lemma length_scatter_loop [simp]: "length (scatter_loop out pvs) = length out"
  by (induction out pvs rule: scatter_loop.induct) simp_all

lemma scatter_loop_unchanged:
  "(\<And>p v. (p, v) \<in> set pvs \<Longrightarrow> nat p \<noteq> j) \<Longrightarrow> scatter_loop out pvs ! j = out ! j"
proof (induction out pvs rule: scatter_loop.induct)
  case (2 out p v rest)
  have "scatter_loop (out[nat p := v]) rest ! j = out[nat p := v] ! j"
    by (rule "2.IH") (use "2.prems" in auto)
  moreover have "nat p \<noteq> j" using "2.prems" by auto
  ultimately show ?case by simp
qed simp

lemma scatter_loop_nth:
  "distinct (map fst pvs) \<Longrightarrow> \<forall>(p, v)\<in>set pvs. 0 \<le> p \<and> nat p < length out \<Longrightarrow>
   (p, v) \<in> set pvs \<Longrightarrow> scatter_loop out pvs ! nat p = v"
proof (induction out pvs rule: scatter_loop.induct)
  case (2 out q w rest)
  show ?case
  proof (cases "(p, v) = (q, w)")
    case True
    have "nat p' \<noteq> nat q" if "(p', v') \<in> set rest" for p' v'
    proof -
      have "p' \<noteq> q" using that "2.prems"(1) by (force simp: image_iff)
      moreover have "0 \<le> p'" "0 \<le> q" using that "2.prems"(2) by auto
      ultimately show ?thesis by simp
    qed
    then have "scatter_loop (out[nat q := w]) rest ! nat q = out[nat q := w] ! nat q"
      by (intro scatter_loop_unchanged) auto
    with True "2.prems" show ?thesis by auto
  next
    case False
    with "2.prems" "2.IH" show ?thesis by auto
  qed
qed simp

lemma InversePermutation_nth:
  assumes "IsPermutation p" "i < length p"
  shows "InversePermutation p ! nat (p ! i) = int i"
proof -
  have "(p ! i, int i) \<in> set (zip p (map int [0..<length p]))"
    using assms(2) by (auto simp: set_zip intro!: exI [of _ i])
  moreover have "\<forall>(q, v)\<in>set (zip p (map int [0..<length p])). 0 \<le> q \<and> nat q < length p"
    using assms(1) by (auto simp: IsPermutation_iff nat_less_iff dest: set_zip_leftD)
  moreover have "distinct p" using assms(1) by (simp add: IsPermutation_iff)
  ultimately show ?thesis
    unfolding InversePermutation_def by (intro scatter_loop_nth) simp_all
qed

lemma length_InversePermutation [simp]: "length (InversePermutation p) = length p"
  by (simp add: InversePermutation_def)

lemma IsPermutation_index:
  assumes "IsPermutation p" "j < length p"
  obtains i where "i < length p" "p ! i = int j"
proof -
  have "int j \<in> set p" using assms IsPermutation_set by fastforce
  then show ?thesis using that by (auto simp: in_set_conv_nth)
qed

lemma IsPermutation_nth:
  assumes "IsPermutation p" "i < length p"
  shows "0 \<le> p ! i" "p ! i < int (length p)" "nat (p ! i) < length p"
  using assms nth_mem [OF assms(2)] by (auto simp: IsPermutation_iff nat_less_iff)

text \<open>The inverse at position \<open>j\<close> is the index at which the permutation holds \<open>j\<close>.\<close>

lemma nth_InversePermutation:
  assumes "IsPermutation p" "j < length p"
  shows "0 \<le> InversePermutation p ! j \<and> nat (InversePermutation p ! j) < length p \<and>
    p ! nat (InversePermutation p ! j) = int j"
proof -
  from assms obtain i where i: "i < length p" "p ! i = int j" by (rule IsPermutation_index)
  with InversePermutation_nth [OF assms(1) i(1)] show ?thesis by simp
qed

lemma IsPermutation_InversePermutation:
  assumes p: "IsPermutation p"
  shows "IsPermutation (InversePermutation p)"
proof -
  let ?q = "InversePermutation p"
  have "distinct ?q"
    unfolding distinct_conv_nth using nth_InversePermutation [OF p] by (metis length_InversePermutation of_nat_eq_iff)
  moreover have "0 \<le> x \<and> x < int (length p)" if "x \<in> set ?q" for x
    using that nth_InversePermutation [OF p] by (metis in_set_conv_nth length_InversePermutation nat_less_iff)
  ultimately show ?thesis by (simp add: IsPermutation_iff)
qed

section \<open>Properties\<close>



text \<open>
  C28. \<open>PermuteInverse\<close> undoes \<open>Permute\<close> and \<open>Permute\<close> undoes \<open>PermuteInverse\<close>, for any
  element type and any permutation of the right size.
\<close>

theorem Permute_PermuteInverse_roundtrip:
  assumes "IsPermutation p" "length p = length xs"
  shows "bindE (Permute xs p) (\<lambda>ys. PermuteInverse d ys p) = Inr xs \<and>
    bindE (PermuteInverse d xs p) (\<lambda>ys. Permute ys p) = Inr xs"
proof -
  have scatter: "scatter_loop (replicate (length ys) d) (zip p ys) ! nat (p ! i) = ys ! i"
    if "length ys = length p" "i < length p" for ys i
  proof -
    have "(p ! i, ys ! i) \<in> set (zip p ys)" using that by (auto simp: set_zip)
    moreover have "\<forall>(q, v)\<in>set (zip p ys). 0 \<le> q \<and> nat q < length ys"
      using assms(1) that(1) by (auto simp: IsPermutation_iff nat_less_iff dest: set_zip_leftD)
    moreover have "distinct p" using assms(1) by (simp add: IsPermutation_iff)
    ultimately show ?thesis using that by (intro scatter_loop_nth) simp_all
  qed
  have "scatter_loop (replicate (length p) d) (zip p (map (\<lambda>q. xs ! nat q) p)) = xs"
  proof (rule nth_equalityI)
    fix j assume "j < length (scatter_loop (replicate (length p) d) (zip p (map (\<lambda>q. xs ! nat q) p)))"
    then have "j < length p" by simp
    then obtain i where "i < length p" "p ! i = int j" by (rule IsPermutation_index [OF assms(1)])
    with scatter [of "map (\<lambda>q. xs ! nat q) p" i]
    show "scatter_loop (replicate (length p) d) (zip p (map (\<lambda>q. xs ! nat q) p)) ! j = xs ! j"
      by simp
  qed (simp add: assms)
  moreover have "map (\<lambda>q. scatter_loop (replicate (length xs) d) (zip p xs) ! nat q) p = xs"
    using scatter [of xs] assms(2) by (intro nth_equalityI) simp_all
  ultimately show ?thesis using assms by (simp add: Permute_def PermuteInverse_def)
qed

theorem Permute_PermuteInverse_roundtrip_witness:
  "bindE (Permute ''abc'' [2, 0, 1]) (\<lambda>ys. PermuteInverse CHR ''z'' ys [2, 0, 1]) = Inr ''abc''"
proof -
  have "IsPermutation [2, 0, 1]" by (simp add: IsPermutation_def)
  then show ?thesis
    using Permute_PermuteInverse_roundtrip [of "[2, 0, 1]" "''abc''" "CHR ''z''"] by simp
qed

lemma IsIdentityPermutation_from_iff:
  "IsIdentityPermutation_from i ps \<longleftrightarrow> ps = map (\<lambda>k. i + int k) [0..<length ps]"
proof (induction ps arbitrary: i)
  case (Cons p ps)
  have "map (\<lambda>k. i + int k) [0..<length (p # ps)] = i # map (\<lambda>k. (i + 1) + int k) [0..<length ps]"
    by (simp add: upt_conv_Cons map_Suc_upt [symmetric] del: upt_Suc)
  then show ?case using Cons [of "i + 1"] by simp
qed simp

lemma IsIdentityPermutation_iff: "IsIdentityPermutation ps \<longleftrightarrow> ps = map int [0..<length ps]"
  by (simp add: IsIdentityPermutation_def IsIdentityPermutation_from_iff)

lemma mset_rotate_range:
  assumes "first \<le> middle" "middle \<le> stop"
  shows "mset (rotate_range first middle stop xs) = mset xs"
proof -
  have 1: "mset xs = mset (take first xs) + mset (drop first xs)"
    by (metis append_take_drop_id mset_append)
  have 2: "mset (drop first xs) = mset (take (middle - first) (drop first xs)) + mset (drop middle xs)"
    using assms append_take_drop_id [of "middle - first" "drop first xs"]
    by (metis drop_drop le_add_diff_inverse2 mset_append)
  have 3: "mset (drop middle xs) = mset (take (stop - middle) (drop middle xs)) + mset (drop stop xs)"
    using assms append_take_drop_id [of "stop - middle" "drop middle xs"]
    by (metis drop_drop le_add_diff_inverse2 mset_append)
  show ?thesis unfolding rotate_range_def mset_append 1 2 3 by (simp add: ac_simps)
qed

lemma take_one_drop: "k < length xs \<Longrightarrow> take (Suc 0) (drop k xs) = [xs ! k]"
  by (metis Cons_nth_drop_Suc take0 take_Suc_Cons)

text \<open>
  \<open>MoveSingleElement\<close> only rearranges the vector: the element at \<open>from\<close> ends at \<open>to\<close>, the
  elements between move by one place, and all others stay.
\<close>

lemma MoveSingleElement_correct:
  assumes "from < length xs" "to < length xs"
  shows "mset (MoveSingleElement xs from to) = mset xs \<and>
    (\<forall>i < length xs. MoveSingleElement xs from to ! i =
       (if i = to then xs ! from
        else if from \<le> i \<and> i < to then xs ! (i + 1)
        else if to < i \<and> i \<le> from then xs ! (i - 1) else xs ! i))"
proof (intro conjI allI impI)
  show "mset (MoveSingleElement xs from to) = mset xs"
    by (simp add: MoveSingleElement_def mset_rotate_range)
  fix i assume "i < length xs"
  with assms show "MoveSingleElement xs from to ! i =
       (if i = to then xs ! from
        else if from \<le> i \<and> i < to then xs ! (i + 1)
        else if to < i \<and> i \<le> from then xs ! (i - 1) else xs ! i)"
    by (auto simp: MoveSingleElement_def rotate_range_def nth_append take_one_drop nth_Cons'
        Suc_diff_le)
qed

lemma MoveSingleElement_correct_witness:
  "mset (MoveSingleElement ''abcd'' 0 2) = mset ''abcd'' \<and> MoveSingleElement ''abcd'' 0 2 ! 2 = CHR ''a''"
  using MoveSingleElement_correct [of 0 "''abcd''" 2] by simp

end
