(* ===== verification/PrimitiveUtil.thy ===== *)
theory PrimitiveUtil
  imports Prelude
begin

text \<open>
  The element types of \<open>xla/xla_data.proto\<close> and their classification, widths, names and
  precision order from \<open>xla/primitive_util.h\<close> and \<open>xla/primitive_util.cc\<close>.
\<close>

section \<open>Data\<close>

datatype PrimitiveType =
    PRIMITIVE_TYPE_INVALID | PRED
  | S1 | S2 | S4 | S8 | S16 | S32 | S64
  | U1 | U2 | U4 | U8 | U16 | U32 | U64
  | F16 | F32 | BF16 | F64
  | F8E5M2 | F8E4M3 | F8E4M3FN | F8E4M3B11FNUZ | F8E3M4 | F8E5M2FNUZ | F8E4M3FNUZ
  | F4E2M1FN | F8E8M0FNU | F6E3M2FN | F6E2M3FN
  | C64 | C128
  | TUPLE | OPAQUE_TYPE | TOKEN | BUFFER

text \<open>
  The floating-point types are native types of the compiler and of the external package
  ml_dtypes. What the code reads of them (\<open>sizeof\<close>, \<open>kBits\<close>, \<open>std::numeric_limits\<close>) is a
  parameter of the model.
\<close>

record native_limits =
  sizeof_bytes :: "PrimitiveType \<Rightarrow> int"
  kBits :: "PrimitiveType \<Rightarrow> int"
  digits :: "PrimitiveType \<Rightarrow> int"
  min_exponent :: "PrimitiveType \<Rightarrow> int"
  max_exponent :: "PrimitiveType \<Rightarrow> int"
  has_infinity :: "PrimitiveType \<Rightarrow> bool"
  has_quiet_NaN :: "PrimitiveType \<Rightarrow> bool"
  is_iec559 :: "PrimitiveType \<Rightarrow> bool"

section \<open>Classification\<close>

definition IsMXType :: "PrimitiveType \<Rightarrow> bool" where
  "IsMXType t \<longleftrightarrow> t = F4E2M1FN \<or> t = F8E8M0FNU"

definition IsF6Type :: "PrimitiveType \<Rightarrow> bool" where
  "IsF6Type t \<longleftrightarrow> t = F6E3M2FN \<or> t = F6E2M3FN"

definition IsF8Type :: "PrimitiveType \<Rightarrow> bool" where
  "IsF8Type t \<longleftrightarrow> t = F8E5M2 \<or> t = F8E4M3 \<or> t = F8E4M3FN \<or> t = F8E4M3B11FNUZ
     \<or> t = F8E5M2FNUZ \<or> t = F8E4M3FNUZ \<or> t = F8E3M4 \<or> t = F8E8M0FNU"

definition IsFloatingPointType :: "PrimitiveType \<Rightarrow> bool" where
  "IsFloatingPointType t \<longleftrightarrow> t = F16 \<or> t = F32 \<or> t = F64 \<or> t = BF16
     \<or> IsF8Type t \<or> IsF6Type t \<or> IsMXType t"

definition IsComplexType :: "PrimitiveType \<Rightarrow> bool" where
  "IsComplexType t \<longleftrightarrow> t = C64 \<or> t = C128"

definition IsSignedIntegralType :: "PrimitiveType \<Rightarrow> bool" where
  "IsSignedIntegralType t \<longleftrightarrow> t = S1 \<or> t = S2 \<or> t = S4 \<or> t = S8 \<or> t = S16 \<or> t = S32 \<or> t = S64"

definition IsUnsignedIntegralType :: "PrimitiveType \<Rightarrow> bool" where
  "IsUnsignedIntegralType t \<longleftrightarrow> t = U1 \<or> t = U2 \<or> t = U4 \<or> t = U8 \<or> t = U16 \<or> t = U32 \<or> t = U64"

definition IsIntegralType :: "PrimitiveType \<Rightarrow> bool" where
  "IsIntegralType t \<longleftrightarrow> IsUnsignedIntegralType t \<or> IsSignedIntegralType t"

definition Is8BitIntegralType :: "PrimitiveType \<Rightarrow> bool" where
  "Is8BitIntegralType t \<longleftrightarrow> t = S8 \<or> t = U8"

definition IsArrayType :: "PrimitiveType \<Rightarrow> bool" where
  "IsArrayType t \<longleftrightarrow> t = PRED \<or> IsIntegralType t \<or> IsFloatingPointType t \<or> IsComplexType t"

lemmas primitive_class_defs =
  IsMXType_def IsF6Type_def IsF8Type_def IsFloatingPointType_def IsComplexType_def
  IsSignedIntegralType_def IsUnsignedIntegralType_def IsIntegralType_def Is8BitIntegralType_def
  IsArrayType_def

section \<open>Widths\<close>

text \<open>\<open>std::numeric_limits<NativeT>::digits\<close>, plus the sign bit, of the integral native types.\<close>

fun integral_bits :: "PrimitiveType \<Rightarrow> int" where
  "integral_bits S1 = 1" | "integral_bits U1 = 1"
| "integral_bits S2 = 2" | "integral_bits U2 = 2"
| "integral_bits S4 = 4" | "integral_bits U4 = 4"
| "integral_bits S8 = 8" | "integral_bits U8 = 8"
| "integral_bits S16 = 16" | "integral_bits U16 = 16"
| "integral_bits S32 = 32" | "integral_bits U32 = 32"
| "integral_bits S64 = 64" | "integral_bits U64 = 64"
| "integral_bits _ = 0"

definition PrimitiveTypeBitWidth :: "native_limits \<Rightarrow> PrimitiveType \<Rightarrow> int" where
  "PrimitiveTypeBitWidth L t =
     (if IsArrayType t then
        (if IsIntegralType t then integral_bits t
         else if t = PRED then 1
         else if IsMXType t then kBits L t
         else if IsFloatingPointType t then sizeof_bytes L t * 8
         else sizeof_bytes L t * 8)
      else 0)"

definition BitWidth :: "native_limits \<Rightarrow> PrimitiveType \<Rightarrow> int status_or" where
  "BitWidth L t = (if IsArrayType t then Inr (PrimitiveTypeBitWidth L t)
                   else Inl (CheckFailed ''Unhandled primitive type''))"

definition StorageBitWidth :: "native_limits \<Rightarrow> PrimitiveType \<Rightarrow> int status_or" where
  "StorageBitWidth L t = (if t = PRED then Inr 8 else BitWidth L t)"

definition ByteWidth :: "native_limits \<Rightarrow> PrimitiveType \<Rightarrow> int status_or" where
  "ByteWidth L t = (if IsArrayType t then Inr ((PrimitiveTypeBitWidth L t + 7) div 8)
                    else Inl (CheckFailed ''Unhandled primitive type''))"

definition UnsignedIntegralTypeForBitWidth :: "int \<Rightarrow> PrimitiveType" where
  "UnsignedIntegralTypeForBitWidth w =
     (if w = 1 then U1 else if w = 2 then U2 else if w = 4 then U4 else if w = 8 then U8
      else if w = 16 then U16 else if w = 32 then U32 else if w = 64 then U64
      else PRIMITIVE_TYPE_INVALID)"

definition SignedIntegralTypeForBitWidth :: "int \<Rightarrow> PrimitiveType" where
  "SignedIntegralTypeForBitWidth w =
     (if w = 1 then S1 else if w = 2 then S2 else if w = 4 then S4 else if w = 8 then S8
      else if w = 16 then S16 else if w = 32 then S32 else if w = 64 then S64
      else PRIMITIVE_TYPE_INVALID)"

definition IsSubByteNonPredType :: "native_limits \<Rightarrow> PrimitiveType \<Rightarrow> bool" where
  "IsSubByteNonPredType L t \<longleftrightarrow> IsArrayType t \<and> t \<noteq> PRED \<and> PrimitiveTypeBitWidth L t < 8"

section \<open>Complex types and precision\<close>

definition ComplexComponentType :: "PrimitiveType \<Rightarrow> PrimitiveType status_or" where
  "ComplexComponentType t =
     (if t = C64 then Inr F32 else if t = C128 then Inr F64
      else Inl (CheckFailed ''Primitive type is not complex''))"

definition ComplexType :: "PrimitiveType \<Rightarrow> PrimitiveType" where
  "ComplexType t = (if t = F32 then C64 else if t = F64 then C128 else PRIMITIVE_TYPE_INVALID)"

text \<open>The lambda \<open>type_properties\<close> of \<open>HigherPrecisionType\<close>, a tuple compared lexicographically.\<close>

definition component_type :: "PrimitiveType \<Rightarrow> PrimitiveType" where
  "component_type t = (if t = C64 then F32 else if t = C128 then F64 else t)"

definition type_properties :: "native_limits \<Rightarrow> PrimitiveType \<Rightarrow> int list status_or" where
  "type_properties L t =
     (let c = component_type t in
      bindE (BitWidth L c) (\<lambda>w. Inr
        [if IsComplexType t then 1 else 0,
         if IsFloatingPointType c then max_exponent L c else -1,
         if IsFloatingPointType c then digits L c else -1,
         w,
         if IsSignedIntegralType c then 1 else 0]))"

fun lex_less :: "int list \<Rightarrow> int list \<Rightarrow> bool" where
  "lex_less (x # xs) (y # ys) \<longleftrightarrow> x < y \<or> x = y \<and> lex_less xs ys"
| "lex_less [] (y # ys) \<longleftrightarrow> True"
| "lex_less _ [] \<longleftrightarrow> False"

definition HigherPrecisionType ::
  "native_limits \<Rightarrow> PrimitiveType \<Rightarrow> PrimitiveType \<Rightarrow> PrimitiveType status_or" where
  "HigherPrecisionType L a b =
     bindE (type_properties L a) (\<lambda>a_properties.
     bindE (type_properties L b) (\<lambda>b_properties.
       if lex_less b_properties a_properties then Inr a
       else if lex_less a_properties b_properties then Inr b
       else if a \<noteq> b then Inl (CheckFailed ''a == b'')
       else Inr a))"

section \<open>Value-preserving casts\<close>

text \<open>The traits \<open>has_negative_zero\<close>, \<open>has_positive_zero\<close> and \<open>exponent_bias\<close> of \<open>xla/types.h\<close>.\<close>

definition has_negative_zero_v :: "native_limits \<Rightarrow> PrimitiveType \<Rightarrow> bool" where
  "has_negative_zero_v L t =
     (if t = F4E2M1FN \<or> t = F6E3M2FN \<or> t = F6E2M3FN \<or> t = F8E4M3FN then True else is_iec559 L t)"

definition has_positive_zero_v :: "PrimitiveType \<Rightarrow> bool" where
  "has_positive_zero_v t = (if t = F8E8M0FNU then False else IsFloatingPointType t)"

definition exponent_bias_v :: "native_limits \<Rightarrow> PrimitiveType \<Rightarrow> int" where
  "exponent_bias_v L t =
     (if has_negative_zero_v L t \<or> has_positive_zero_v t then 1 else 0) - (min_exponent L t - 1)"

fun bit_width :: "nat \<Rightarrow> nat" where
  "bit_width n = (if n = 0 then 0 else Suc (bit_width (n div 2)))"

definition Log2Ceiling :: "nat \<Rightarrow> int" where
  "Log2Ceiling x = (if x = 0 then -1 else int (bit_width (x - 1)))"

definition ExponentWidth :: "native_limits \<Rightarrow> PrimitiveType \<Rightarrow> int" where
  "ExponentWidth L t =
     (let max_normal_exp = max_exponent L t - 1;
          exponent_states = max_normal_exp + exponent_bias_v L t;
          reserved_states = (if has_infinity L t \<and> has_quiet_NaN L t then 1 else 0)
      in Log2Ceiling (nat ((exponent_states + reserved_states) mod 2 ^ 32)))"

definition HasPositiveZero :: "native_limits \<Rightarrow> PrimitiveType \<Rightarrow> bool" where
  "HasPositiveZero L t =
     (if IsFloatingPointType t then has_positive_zero_v t
      else if IsIntegralType t \<or> t = PRED then True else False)"

definition HasInfinity :: "native_limits \<Rightarrow> PrimitiveType \<Rightarrow> bool" where
  "HasInfinity L t = (if IsFloatingPointType t then has_infinity L t else False)"

definition HasNaN :: "native_limits \<Rightarrow> PrimitiveType \<Rightarrow> bool" where
  "HasNaN L t = (if IsFloatingPointType t then has_quiet_NaN L t else False)"

definition HasNegativeZero :: "native_limits \<Rightarrow> PrimitiveType \<Rightarrow> bool" where
  "HasNegativeZero L t = (if IsFloatingPointType t then has_negative_zero_v L t else False)"

definition CastPreservesValues_real ::
  "native_limits \<Rightarrow> PrimitiveType \<Rightarrow> PrimitiveType \<Rightarrow> bool status_or" where
  "CastPreservesValues_real L from to =
     (if from = to then Inr True
      else if to = F8E8M0FNU then Inr False
      else if from = PRED then Inr True
      else if to = PRED then Inr False
      else if IsComplexType from then Inr False
      else if IsFloatingPointType from \<and> IsFloatingPointType to then
        Inr (digits L from \<le> digits L to
           \<and> ExponentWidth L from \<le> ExponentWidth L to
           \<and> (\<not> HasInfinity L from \<or> HasInfinity L to)
           \<and> (\<not> HasNaN L from \<or> HasNaN L to)
           \<and> (\<not> HasNegativeZero L from \<or> HasNegativeZero L to)
           \<and> (\<not> HasPositiveZero L from \<or> HasPositiveZero L to)
           \<and> min_exponent L from - digits L from \<ge> min_exponent L to - digits L to
           \<and> max_exponent L from \<le> max_exponent L to)
      else if \<not> IsIntegralType from then Inr False
      else
        bindE (BitWidth L from) (\<lambda>from_width.
        let from_bits = (if IsSignedIntegralType from then from_width - 1 else from_width) in
        bindE (BitWidth L to) (\<lambda>to_width.
        let to_bits = (if IsSignedIntegralType to then to_width - 1 else to_width) in
        if IsFloatingPointType to then
          Inr (from_bits \<le> digits L to \<and> from_width - 1 < max_exponent L to)
        else if IsSignedIntegralType from \<and> IsUnsignedIntegralType to then Inr False
        else if \<not> IsIntegralType to then Inl (CheckFailed ''IsIntegralType(to_type)'')
        else Inr (from_bits \<le> to_bits))))"

text \<open>
  The recursion of \<open>CastPreservesValues\<close> on complex targets is one level deep, since a component
  type is never complex: the checks before it, then the real-target body on the components.
\<close>

definition CastPreservesValues ::
  "native_limits \<Rightarrow> PrimitiveType \<Rightarrow> PrimitiveType \<Rightarrow> bool status_or" where
  "CastPreservesValues L from to =
     (if from = to then Inr True
      else if to = F8E8M0FNU then Inr False
      else if from = PRED then Inr True
      else if to = PRED then Inr False
      else if IsComplexType to
        then CastPreservesValues_real L (component_type from) (component_type to)
      else CastPreservesValues_real L from to)"

section \<open>Names\<close>

text \<open>\<open>PrimitiveType_Name\<close> lower-cased by \<open>PrimitiveTypeNameGenerator\<close>, except for \<open>OPAQUE_TYPE\<close>.\<close>

fun LowercasePrimitiveTypeName :: "PrimitiveType \<Rightarrow> string" where
  "LowercasePrimitiveTypeName PRIMITIVE_TYPE_INVALID = ''primitive_type_invalid''"
| "LowercasePrimitiveTypeName PRED = ''pred''"
| "LowercasePrimitiveTypeName S1 = ''s1''"
| "LowercasePrimitiveTypeName S2 = ''s2''"
| "LowercasePrimitiveTypeName S4 = ''s4''"
| "LowercasePrimitiveTypeName S8 = ''s8''"
| "LowercasePrimitiveTypeName S16 = ''s16''"
| "LowercasePrimitiveTypeName S32 = ''s32''"
| "LowercasePrimitiveTypeName S64 = ''s64''"
| "LowercasePrimitiveTypeName U1 = ''u1''"
| "LowercasePrimitiveTypeName U2 = ''u2''"
| "LowercasePrimitiveTypeName U4 = ''u4''"
| "LowercasePrimitiveTypeName U8 = ''u8''"
| "LowercasePrimitiveTypeName U16 = ''u16''"
| "LowercasePrimitiveTypeName U32 = ''u32''"
| "LowercasePrimitiveTypeName U64 = ''u64''"
| "LowercasePrimitiveTypeName F16 = ''f16''"
| "LowercasePrimitiveTypeName F32 = ''f32''"
| "LowercasePrimitiveTypeName BF16 = ''bf16''"
| "LowercasePrimitiveTypeName F64 = ''f64''"
| "LowercasePrimitiveTypeName F8E5M2 = ''f8e5m2''"
| "LowercasePrimitiveTypeName F8E4M3 = ''f8e4m3''"
| "LowercasePrimitiveTypeName F8E4M3FN = ''f8e4m3fn''"
| "LowercasePrimitiveTypeName F8E4M3B11FNUZ = ''f8e4m3b11fnuz''"
| "LowercasePrimitiveTypeName F8E3M4 = ''f8e3m4''"
| "LowercasePrimitiveTypeName F8E5M2FNUZ = ''f8e5m2fnuz''"
| "LowercasePrimitiveTypeName F8E4M3FNUZ = ''f8e4m3fnuz''"
| "LowercasePrimitiveTypeName F4E2M1FN = ''f4e2m1fn''"
| "LowercasePrimitiveTypeName F8E8M0FNU = ''f8e8m0fnu''"
| "LowercasePrimitiveTypeName F6E3M2FN = ''f6e3m2fn''"
| "LowercasePrimitiveTypeName F6E2M3FN = ''f6e2m3fn''"
| "LowercasePrimitiveTypeName C64 = ''c64''"
| "LowercasePrimitiveTypeName C128 = ''c128''"
| "LowercasePrimitiveTypeName TUPLE = ''tuple''"
| "LowercasePrimitiveTypeName OPAQUE_TYPE = ''opaque''"
| "LowercasePrimitiveTypeName TOKEN = ''token''"
| "LowercasePrimitiveTypeName BUFFER = ''buffer''"

text \<open>The valid enumerators in the order of their numbers, as the table-building loop visits them.\<close>

definition valid_types :: "PrimitiveType list" where
  "valid_types =
     [PRED, S8, S16, S32, S64, U8, U16, U32, U64, F16, F32, F64, TUPLE, OPAQUE_TYPE, C64, BF16,
      TOKEN, C128, F8E5M2, F8E4M3FN, S4, U4, F8E4M3B11FNUZ, F8E5M2FNUZ, F8E4M3FNUZ, S2, U2,
      F8E4M3, F8E3M4, S1, U1, F4E2M1FN, F8E8M0FNU, BUFFER, F6E3M2FN, F6E2M3FN]"

definition LowerCaseNameToPrimitiveType :: "string \<rightharpoonup> PrimitiveType" where
  "LowerCaseNameToPrimitiveType =
     (foldl (\<lambda>m t. m(LowercasePrimitiveTypeName t \<mapsto> t)) Map.empty valid_types)
       (''opaque'' \<mapsto> OPAQUE_TYPE)"

definition StringToPrimitiveType :: "string \<Rightarrow> PrimitiveType status_or" where
  "StringToPrimitiveType lower_name =
     (case LowerCaseNameToPrimitiveType lower_name of
        None \<Rightarrow> Inl (InvalidArgument ''Invalid element type string'')
      | Some t \<Rightarrow> Inr t)"

definition IsPrimitiveTypeName :: "string \<Rightarrow> bool" where
  "IsPrimitiveTypeName name \<longleftrightarrow> LowerCaseNameToPrimitiveType name \<noteq> None"

section \<open>Properties\<close>

subsection \<open>Integral casts\<close>

text \<open>The values of an integral type, in two's complement for the signed ones.\<close>

definition integral_values :: "PrimitiveType \<Rightarrow> int set" where
  "integral_values t =
     (if IsSignedIntegralType t
      then {- (2 ^ nat (integral_bits t - 1)) ..< 2 ^ nat (integral_bits t - 1)}
      else {0 ..< 2 ^ nat (integral_bits t)})"

lemma integral_bits_cases:
  "IsIntegralType t \<Longrightarrow> integral_bits t \<in> {1, 2, 4, 8, 16, 32, 64}"
  by (cases t) (simp_all add: primitive_class_defs)

lemma integral_not_float: "IsIntegralType t \<Longrightarrow> \<not> IsFloatingPointType t \<and> \<not> IsComplexType t \<and> t \<noteq> PRED"
  by (cases t) (simp_all add: primitive_class_defs)

lemma BitWidth_integral [simp]: "IsIntegralType t \<Longrightarrow> BitWidth L t = Inr (integral_bits t)"
  by (simp add: BitWidth_def PrimitiveTypeBitWidth_def IsArrayType_def)

lemma signed_or_unsigned:
  "IsIntegralType t \<Longrightarrow> IsUnsignedIntegralType t \<longleftrightarrow> \<not> IsSignedIntegralType t"
  by (cases t) (simp_all add: primitive_class_defs)

lemma CastPreservesValues_integral_eq:
  assumes "IsIntegralType a" "IsIntegralType b" "a \<noteq> b"
  shows "CastPreservesValues L a b = Inr (\<not> (IsSignedIntegralType a \<and> IsUnsignedIntegralType b) \<and>
    (if IsSignedIntegralType a then integral_bits a - 1 else integral_bits a)
      \<le> (if IsSignedIntegralType b then integral_bits b - 1 else integral_bits b))"
proof -
  have "b \<noteq> F8E8M0FNU" using integral_not_float [OF assms(2)] by (auto simp: primitive_class_defs)
  then show ?thesis
    using assms integral_not_float [OF assms(1)] integral_not_float [OF assms(2)]
    by (simp add: CastPreservesValues_def CastPreservesValues_real_def)
qed

lemma pow2_le_iff: "0 \<le> a \<Longrightarrow> 0 \<le> b \<Longrightarrow> (2 :: int) ^ nat a \<le> 2 ^ nat b \<longleftrightarrow> a \<le> b"
  by (simp add: nat_le_eq_zle)

text \<open>
  C30. Between integral types \<open>CastPreservesValues\<close> answers exactly whether every value of the
  source type is a value of the target type.
\<close>

theorem CastPreservesValues_integral:
  assumes "IsIntegralType a" "IsIntegralType b"
  shows "CastPreservesValues L a b = Inr (integral_values a \<subseteq> integral_values b)"
proof (cases "a = b")
  case True
  then show ?thesis by (simp add: CastPreservesValues_def)
next
  case False
  have pos: "1 \<le> integral_bits a" "1 \<le> integral_bits b"
    using integral_bits_cases [OF assms(1)] integral_bits_cases [OF assms(2)] by auto
  show ?thesis
    unfolding CastPreservesValues_integral_eq [OF assms False]
    using pos signed_or_unsigned [OF assms(1)] signed_or_unsigned [OF assms(2)]
    by (auto simp: integral_values_def atLeastLessThan_subset_iff pow2_le_iff
        simp del: power_increasing_iff dest: order_trans [of _ 0])
qed

subsection \<open>Names\<close>

lemma foldl_upd_inj:
  "inj_on f (set ts) \<Longrightarrow> t \<in> set ts \<Longrightarrow> foldl (\<lambda>m t. m(f t \<mapsto> t)) m0 ts (f t) = Some t"
proof (induction ts rule: rev_induct)
  case (snoc x xs)
  then show ?case by (cases "t = x") (auto simp: inj_on_def)
qed simp

lemma valid_types_complete: "t \<noteq> PRIMITIVE_TYPE_INVALID \<Longrightarrow> t \<in> set valid_types"
  by (cases t) (simp_all add: valid_types_def)

lemma distinct_names: "distinct (map LowercasePrimitiveTypeName valid_types)"
  by (simp add: valid_types_def)

text \<open>
  Every element type but the invalid one is read back from the name it is printed with.
\<close>

lemma StringToPrimitiveType_roundtrip:
  assumes "t \<noteq> PRIMITIVE_TYPE_INVALID"
  shows "StringToPrimitiveType (LowercasePrimitiveTypeName t) = Inr t"
proof -
  have "inj_on LowercasePrimitiveTypeName (set valid_types)"
    using distinct_names by (simp add: distinct_map)
  then have "foldl (\<lambda>m t. m(LowercasePrimitiveTypeName t \<mapsto> t)) Map.empty valid_types
      (LowercasePrimitiveTypeName t) = Some t"
    by (rule foldl_upd_inj [OF _ valid_types_complete [OF assms]])
  moreover have "LowercasePrimitiveTypeName t = ''opaque'' \<Longrightarrow> t = OPAQUE_TYPE"
    by (cases t) simp_all
  ultimately show ?thesis
    by (auto simp: StringToPrimitiveType_def LowerCaseNameToPrimitiveType_def)
qed

lemma StringToPrimitiveType_roundtrip_witness:
  "StringToPrimitiveType ''bf16'' = Inr BF16"
  using StringToPrimitiveType_roundtrip [of BF16] by simp

text \<open>
  The comment on \<open>LowerCaseNameToPrimitiveType\<close> says that both spellings \<open>opaque\<close> and
  \<open>opaque_type\<close> name \<open>OPAQUE_TYPE\<close>; only \<open>opaque\<close> does.
\<close>

lemma opaque_type_spelling_rejected:
  "IsPrimitiveTypeName ''opaque'' \<and> \<not> IsPrimitiveTypeName ''opaque_type''
   \<and> StringToPrimitiveType ''opaque_type'' = Inl (InvalidArgument ''Invalid element type string'')"
  by (simp add: IsPrimitiveTypeName_def StringToPrimitiveType_def LowerCaseNameToPrimitiveType_def
      valid_types_def)

subsection \<open>Precision order\<close>

lemma lex_less_irrefl: "\<not> lex_less xs xs"
  by (induction xs) auto

lemma lex_less_asym: "lex_less xs ys \<Longrightarrow> \<not> lex_less ys xs"
  by (induction xs ys rule: lex_less.induct) auto

lemma lex_less_trans: "lex_less xs ys \<Longrightarrow> lex_less ys zs \<Longrightarrow> lex_less xs zs"
  by (induction xs ys arbitrary: zs rule: lex_less.induct) (case_tac zs; auto)+

lemma HigherPrecisionType_laws:
  assumes "IsArrayType a" "IsArrayType b"
  shows "HigherPrecisionType L a b = HigherPrecisionType L b a
    \<and> HigherPrecisionType L a a = Inr a
    \<and> (\<forall>c. HigherPrecisionType L a b = Inr c \<longrightarrow> (c = a \<or> c = b) \<and>
         (\<forall>pc po. type_properties L c = Inr pc \<and> type_properties L (if c = a then b else a) = Inr po
            \<longrightarrow> \<not> lex_less pc po))"
proof -
  have props: "\<exists>pa. type_properties L t = Inr pa" if "IsArrayType t" for t
  proof -
    have "IsArrayType (component_type t)"
      using that by (auto simp: component_type_def primitive_class_defs)
    then show ?thesis by (simp add: type_properties_def BitWidth_def Let_def)
  qed
  obtain pa pb where "type_properties L a = Inr pa" "type_properties L b = Inr pb"
    using props assms by blast
  then show ?thesis
    using lex_less_asym [of pa pb] lex_less_irrefl [of pa] lex_less_irrefl [of pb]
    by (auto simp: HigherPrecisionType_def split: if_splits)
qed

text \<open>
  \<open>HigherPrecisionType\<close> does not depend on the order of its arguments (errors included),
  returns one of them, is idempotent on array types, and the type it returns is never dominated
  by the other one.
\<close>

lemma HigherPrecisionType_symmetric:
  assumes "IsArrayType a" "IsArrayType b"
  shows "HigherPrecisionType L a b = HigherPrecisionType L b a
    \<and> HigherPrecisionType L a a = Inr a
    \<and> (\<forall>c. HigherPrecisionType L a b = Inr c \<longrightarrow> (c = a \<or> c = b) \<and>
         (\<forall>pc po. type_properties L c = Inr pc \<and> type_properties L (if c = a then b else a) = Inr po
            \<longrightarrow> \<not> lex_less pc po))"
  by (rule HigherPrecisionType_laws [OF assms])

text \<open>Limits of the IEEE types, enough to evaluate the definitions on F32 and F64.\<close>

definition ieee_limits :: native_limits where
  "ieee_limits = \<lparr>sizeof_bytes = (\<lambda>t. if t = F64 then 8 else if t = F32 then 4 else 2),
     kBits = (\<lambda>t. if t = F4E2M1FN then 4 else 8),
     digits = (\<lambda>t. if t = F64 then 53 else 24),
     min_exponent = (\<lambda>t. if t = F64 then -1021 else -125),
     max_exponent = (\<lambda>t. if t = F64 then 1024 else 128),
     has_infinity = (\<lambda>_. True), has_quiet_NaN = (\<lambda>_. True), is_iec559 = (\<lambda>_. True)\<rparr>"

lemma HigherPrecisionType_symmetric_witness:
  "HigherPrecisionType ieee_limits F32 F64 = HigherPrecisionType ieee_limits F64 F32"
  using HigherPrecisionType_symmetric [of F32 F64 ieee_limits] by (simp add: primitive_class_defs)

theorem CastPreservesValues_integral_witness:
  "CastPreservesValues ieee_limits U8 S16 = Inr (integral_values U8 \<subseteq> integral_values S16)
   \<and> integral_values U8 \<subseteq> integral_values S16"
  using CastPreservesValues_integral [of U8 S16 ieee_limits]
  by (simp add: primitive_class_defs integral_values_def)

text \<open>
  \<open>CastPreservesValues\<close> also calls the cast from PRED to the one-bit signed type safe, although
  that type holds only -1 and 0.
\<close>

lemma CastPreservesValues_PRED_S1:
  "CastPreservesValues L PRED S1 = Inr True \<and> integral_values S1 = {-1, 0} \<and> 1 \<notin> integral_values S1"
proof -
  have "integral_values S1 = {-1 ..< 1}" by (simp add: integral_values_def primitive_class_defs)
  also have "\<dots> = {-1, 0}" by auto
  finally have v: "integral_values S1 = {-1, 0}" .
  show ?thesis unfolding v by (simp add: CastPreservesValues_def)
qed

end
