(* ===== verification/Shape.thy ===== *)
theory Shape
  imports PrimitiveUtil Permutation
begin

text \<open>
  The class \<open>Shape\<close> (\<open>xla/shape.h\<close>, \<open>xla/shape.cc\<close>) and the class \<open>Layout\<close>
  (\<open>xla/layout.h\<close>, \<open>xla/layout.cc\<close>): their data, the mutators with their \<open>CHECK\<close>s, the
  configurable equality, and the conversions to and from the protocol buffers of
  \<open>xla/xla_data.proto\<close>.
\<close>

section \<open>Data\<close>

datatype Tile = Tile (tile_dimensions: "int list")

datatype SplitConfig = SplitConfig (sc_dimension: int) (split_indices: "int list")

text \<open>
  A shape is its element type and the variant \<open>state_\<close>; an array state holds the dimension
  bounds, the dynamic flags and the optional layout; a layout may own a physical shape.
\<close>

datatype Shape = Shape (elt_type: PrimitiveType) (shape_state: State)
and State =
    InvalidState
  | TokenState
  | OpaqueState
  | ArrayState "int list" "bool list" "Layout option"
  | TupleState "Shape list"
  | BufferState Shape
and Layout = Layout
    (index_primitive_type: PrimitiveType)
    (pointer_primitive_type: PrimitiveType)
    (memory_space: int)
    (element_size_in_bits: int)
    (minor_to_major: "int list")
    (tiles: "Tile list")
    (split_configs: "SplitConfig list")
    (tail_padding_alignment_in_elements: int)
    (physical_shape: "Shape option")
    (dynamic_shape_metadata_prefix_bytes: int)

definition kUnboundedSize :: int where "kUnboundedSize = kint64min"

definition kCombineDimension :: int where "kCombineDimension = kint64min"

definition IsValidDimensionSize :: "int \<Rightarrow> bool \<Rightarrow> bool" where
  "IsValidDimensionSize sz is_dynamic \<longleftrightarrow> sz \<ge> 0 \<or> (is_dynamic \<and> sz = kUnboundedSize)"

section \<open>Categories\<close>

definition IsArrayExcludingBuffer :: "Shape \<Rightarrow> bool" where
  "IsArrayExcludingBuffer s \<longleftrightarrow> IsArrayType (elt_type s)"

definition IsTuple :: "Shape \<Rightarrow> bool" where
  "IsTuple s \<longleftrightarrow> elt_type s = TUPLE"

definition IsBuffer :: "Shape \<Rightarrow> bool" where
  "IsBuffer s \<longleftrightarrow> elt_type s = BUFFER"

definition IsToken :: "Shape \<Rightarrow> bool" where
  "IsToken s \<longleftrightarrow> elt_type s = TOKEN"

definition IsOpaque :: "Shape \<Rightarrow> bool" where
  "IsOpaque s \<longleftrightarrow> elt_type s = OPAQUE_TYPE"

definition IsArray :: "Shape \<Rightarrow> bool" where
  "IsArray s \<longleftrightarrow> IsArrayExcludingBuffer s \<or> IsBuffer s"

lemmas shape_class_defs =
  IsArrayExcludingBuffer_def IsTuple_def IsBuffer_def IsToken_def IsOpaque_def IsArray_def

section \<open>Reading the state\<close>

text \<open>
  \<open>array_state_maybe_underneath_buffer\<close>: the array state of an array, or of the shape under a
  buffer. Any other shape fails a \<open>CHECK\<close>, and a buffer over a non-array dereferences a null
  state; both are \<open>CheckFailed\<close>.
\<close>

definition array_state_maybe_underneath_buffer ::
  "Shape \<Rightarrow> (int list \<times> bool list \<times> Layout option) status_or" where
  "array_state_maybe_underneath_buffer s =
     (case shape_state s of
        ArrayState ds dy l \<Rightarrow> Inr (ds, dy, l)
      | BufferState b \<Rightarrow>
          (case shape_state b of ArrayState ds dy l \<Rightarrow> Inr (ds, dy, l)
           | _ \<Rightarrow> Inl (CheckFailed ''null array state under buffer''))
      | _ \<Rightarrow> Inl (CheckFailed ''buffer != nullptr''))"

text \<open>Writing through the reference that \<open>array_state_maybe_underneath_buffer\<close> returns.\<close>

definition put_array_state :: "Shape \<Rightarrow> int list \<times> bool list \<times> Layout option \<Rightarrow> Shape" where
  "put_array_state s a =
     (case a of (ds, dy, l) \<Rightarrow>
      (case shape_state s of
         BufferState b \<Rightarrow> Shape (elt_type s) (BufferState (Shape (elt_type b) (ArrayState ds dy l)))
       | _ \<Rightarrow> Shape (elt_type s) (ArrayState ds dy l)))"

text \<open>
  The accessors used on shapes known to be arrays; outside arrays and buffers of arrays the code
  stops in \<open>array_state_maybe_underneath_buffer\<close>.
\<close>

definition dimensions :: "Shape \<Rightarrow> int list" where
  "dimensions s = (case array_state_maybe_underneath_buffer s of Inr (ds, _, _) \<Rightarrow> ds | Inl _ \<Rightarrow> [])"

definition dynamic_dimensions :: "Shape \<Rightarrow> bool list" where
  "dynamic_dimensions s = (case array_state_maybe_underneath_buffer s of Inr (_, dy, _) \<Rightarrow> dy | Inl _ \<Rightarrow> [])"

definition layout_of :: "Shape \<Rightarrow> Layout option" where
  "layout_of s = (case array_state_maybe_underneath_buffer s of Inr (_, _, l) \<Rightarrow> l | Inl _ \<Rightarrow> None)"

definition tuple_shapes :: "Shape \<Rightarrow> Shape list" where
  "tuple_shapes s = (case shape_state s of TupleState ss \<Rightarrow> ss | _ \<Rightarrow> [])"

fun element_type :: "Shape \<Rightarrow> PrimitiveType" where
  "element_type (Shape t (BufferState b)) = element_type b"
| "element_type (Shape t st) = t"

abbreviation rank :: "Shape \<Rightarrow> nat" where
  "rank s \<equiv> length (dimensions s)"

definition is_dynamic_dimension :: "Shape \<Rightarrow> nat \<Rightarrow> bool" where
  "is_dynamic_dimension s i = dynamic_dimensions s ! i"

definition is_unbounded_dynamic_dimension :: "Shape \<Rightarrow> nat \<Rightarrow> bool" where
  "is_unbounded_dynamic_dimension s i \<longleftrightarrow> dimensions s ! i = kUnboundedSize"

definition is_bounded_dynamic_dimension :: "Shape \<Rightarrow> nat \<Rightarrow> bool" where
  "is_bounded_dynamic_dimension s i \<longleftrightarrow>
     is_dynamic_dimension s i \<and> \<not> is_unbounded_dynamic_dimension s i"

definition has_layout :: "Shape \<Rightarrow> bool status_or" where
  "has_layout s =
     (case shape_state s of
        ArrayState ds dy l \<Rightarrow> Inr (l \<noteq> None)
      | BufferState b \<Rightarrow> bindE (array_state_maybe_underneath_buffer s) (\<lambda>(_, _, l). Inr (l \<noteq> None))
      | _ \<Rightarrow> Inr False)"

fun AreAllLeavesIntegers :: "Shape \<Rightarrow> bool" where
  "AreAllLeavesIntegers (Shape t (TupleState ss)) = list_all AreAllLeavesIntegers ss"
| "AreAllLeavesIntegers s = IsIntegralType (element_type s)"

fun is_static :: "Shape \<Rightarrow> bool status_or" where
  "is_static (Shape t (TupleState ss)) = all_ofE is_static ss"
| "is_static (Shape t (ArrayState ds dy l)) = Inr (\<not> list_ex (\<lambda>b. b) dy)"
| "is_static (Shape t (BufferState b)) =
     bindE (array_state_maybe_underneath_buffer (Shape t (BufferState b)))
       (\<lambda>(_, dy, _). Inr (\<not> list_ex (\<lambda>b. b) dy))"
| "is_static (Shape t _) = Inr True"

fun is_unbounded_dynamic :: "Shape \<Rightarrow> bool status_or" where
  "is_unbounded_dynamic (Shape t (TupleState ss)) = any_ofE is_unbounded_dynamic ss"
| "is_unbounded_dynamic (Shape t (ArrayState ds dy l)) = Inr (list_ex (\<lambda>d. d = kUnboundedSize) ds)"
| "is_unbounded_dynamic (Shape t (BufferState b)) =
     bindE (array_state_maybe_underneath_buffer (Shape t (BufferState b)))
       (\<lambda>(ds, _, _). Inr (list_ex (\<lambda>d. d = kUnboundedSize) ds))"
| "is_unbounded_dynamic (Shape t _) = Inr False"

fun is_bounded_dynamic :: "Shape \<Rightarrow> bool status_or" where
  "is_bounded_dynamic (Shape t (TupleState ss)) = any_ofE is_bounded_dynamic ss"
| "is_bounded_dynamic (Shape t (ArrayState ds dy l)) =
     Inr (list_ex (\<lambda>i. dy ! i \<and> ds ! i \<noteq> kUnboundedSize) [0..<length ds])"
| "is_bounded_dynamic (Shape t (BufferState b)) =
     bindE (array_state_maybe_underneath_buffer (Shape t (BufferState b)))
       (\<lambda>(ds, dy, _). Inr (list_ex (\<lambda>i. dy ! i \<and> ds ! i \<noteq> kUnboundedSize) [0..<length ds]))"
| "is_bounded_dynamic (Shape t _) = Inr False"

section \<open>Mutators\<close>

text \<open>\<open>CheckStateIsEmpty\<close>, run before the variant changes its case.\<close>

definition CheckStateIsEmpty :: "Shape \<Rightarrow> unit status_or" where
  "CheckStateIsEmpty s =
     (case shape_state s of
        TupleState ss \<Rightarrow> if ss = [] then Inr () else Inl (CheckFailed ''tuple_shapes.empty()'')
      | ArrayState _ _ _ \<Rightarrow>
          bindE (array_state_maybe_underneath_buffer s) (\<lambda>(ds, dy, l).
            if ds \<noteq> [] then Inl (CheckFailed ''dimensions.empty()'')
            else if dy \<noteq> [] then Inl (CheckFailed ''dynamic_dimensions.empty()'')
            else if l \<noteq> None then Inl (CheckFailed ''!layout.has_value()'') else Inr ())
      | BufferState _ \<Rightarrow>
          bindE (array_state_maybe_underneath_buffer s) (\<lambda>(ds, dy, l).
            if ds \<noteq> [] then Inl (CheckFailed ''dimensions.empty()'')
            else if dy \<noteq> [] then Inl (CheckFailed ''dynamic_dimensions.empty()'')
            else if l \<noteq> None then Inl (CheckFailed ''!layout.has_value()'') else Inr ())
      | _ \<Rightarrow> Inr ())"

definition default_shape :: Shape where
  "default_shape = Shape PRIMITIVE_TYPE_INVALID InvalidState"

fun same_category :: "State \<Rightarrow> State \<Rightarrow> bool" where
  "same_category InvalidState InvalidState = True"
| "same_category TokenState TokenState = True"
| "same_category OpaqueState OpaqueState = True"
| "same_category (ArrayState _ _ _) (ArrayState _ _ _) = True"
| "same_category (TupleState _) (TupleState _) = True"
| "same_category (BufferState _) (BufferState _) = True"
| "same_category _ _ = False"

text \<open>The default state for an element type, and the element type kept for unsupported values.\<close>

definition default_state :: "PrimitiveType \<Rightarrow> State" where
  "default_state t =
     (if t = TOKEN then TokenState
      else if t = OPAQUE_TYPE then OpaqueState
      else if t = TUPLE then TupleState []
      else if t = BUFFER then BufferState default_shape
      else if IsArrayType t then ArrayState [] [] None
      else InvalidState)"

definition set_element_type :: "Shape \<Rightarrow> PrimitiveType \<Rightarrow> Shape status_or" where
  "set_element_type s value =
     (let st = default_state value;
          t = (if st = InvalidState then PRIMITIVE_TYPE_INVALID else value) in
      if same_category (shape_state s) st then Inr (Shape t (shape_state s))
      else bindE (CheckStateIsEmpty s) (\<lambda>_. Inr (Shape t st)))"

text \<open>The three constructors.\<close>

definition Shape_of_type :: "PrimitiveType \<Rightarrow> Shape status_or" where
  "Shape_of_type t =
     (if t = TOKEN \<or> t = OPAQUE_TYPE \<or> t = BUFFER then set_element_type default_shape t
      else Inl (CheckFailed ''Invalid element type for token or opaque shape''))"

definition Shape_array :: "PrimitiveType \<Rightarrow> int list \<Rightarrow> bool list \<Rightarrow> Shape status_or" where
  "Shape_array t dims dynamic_dims =
     (if \<not> IsArrayType t then Inl (CheckFailed ''Invalid element type for array shape'')
      else if dynamic_dims \<noteq> [] \<and> length dims \<noteq> length dynamic_dims
        then Inl (CheckFailed ''dynamic_dimensions must have the same size as dimensions'')
      else bindE (set_element_type default_shape t) (\<lambda>s.
        Inr (put_array_state s
          (dims, if dynamic_dims = [] then replicate (length dims) False else dynamic_dims, None))))"

definition Shape_tuple :: "Shape list \<Rightarrow> Shape" where
  "Shape_tuple ss = Shape TUPLE (TupleState ss)"

definition UnsafeAddDimension :: "Shape \<Rightarrow> int \<Rightarrow> bool \<Rightarrow> Shape status_or" where
  "UnsafeAddDimension s value is_dynamic =
     bindE (array_state_maybe_underneath_buffer s) (\<lambda>(ds, dy, l).
       if length ds \<noteq> length dy then Inl (CheckFailed ''dimensions.size() == dynamic_dimensions.size()'')
       else Inr (put_array_state s (ds @ [value], dy @ [is_dynamic], l)))"

definition add_dimensions :: "Shape \<Rightarrow> int \<Rightarrow> bool \<Rightarrow> Shape status_or" where
  "add_dimensions s value is_dynamic =
     (if value < 0 \<and> \<not> is_dynamic then Inl (CheckFailed ''static dimension must have size >= 0'')
      else if value < 0 \<and> value \<noteq> kUnboundedSize
        then Inl (CheckFailed ''dynamic dimension must have size == kUnboundedSize or >= 0'')
      else UnsafeAddDimension s value is_dynamic)"

definition CheckDimensionSize :: "int \<Rightarrow> bool \<Rightarrow> unit status_or" where
  "CheckDimensionSize sz is_dynamic =
     (if is_dynamic then
        (if sz < 0 \<and> sz \<noteq> kUnboundedSize
         then Inl (CheckFailed ''dynamic dimension must have size == kUnboundedSize or >= 0'') else Inr ())
      else (if sz < 0 then Inl (CheckFailed ''static dimension must have size >= 0'') else Inr ()))"

definition set_dynamic_dimension :: "Shape \<Rightarrow> int \<Rightarrow> bool \<Rightarrow> Shape status_or" where
  "set_dynamic_dimension s dimension is_dynamic =
     bindE (array_state_maybe_underneath_buffer s) (\<lambda>(ds, dy, l).
     bindE (at_index ds dimension) (\<lambda>d.
     bindE (CheckDimensionSize d is_dynamic) (\<lambda>_.
     bindE (at_index dy dimension) (\<lambda>_.
       Inr (put_array_state s (ds, dy[nat dimension := is_dynamic], l))))))"

definition set_dimensions :: "Shape \<Rightarrow> int \<Rightarrow> int \<Rightarrow> bool option \<Rightarrow> Shape status_or" where
  "set_dimensions s index sz is_dynamic =
     bindE (array_state_maybe_underneath_buffer s) (\<lambda>(ds, dy, l).
     bindE (case is_dynamic of Some b \<Rightarrow> Inr b | None \<Rightarrow> at_index dy index) (\<lambda>dynamic.
     bindE (CheckDimensionSize sz dynamic) (\<lambda>_.
     bindE (at_index ds index) (\<lambda>_.
     bindE (at_index dy index) (\<lambda>_.
       Inr (put_array_state s (ds[nat index := sz], dy[nat index := dynamic], l)))))))"

definition set_dimensions_minor :: "Shape \<Rightarrow> int \<Rightarrow> int \<Rightarrow> bool option \<Rightarrow> Shape status_or" where
  "set_dimensions_minor s index sz is_dynamic =
     bindE (has_layout s) (\<lambda>b. if \<not> b then Inl (CheckFailed ''has_layout()'') else
     bindE (at_index (minor_to_major (the (layout_of s))) index) (\<lambda>physical_index.
       set_dimensions s physical_index sz is_dynamic))"

definition clear_dimensions :: "Shape \<Rightarrow> Shape status_or" where
  "clear_dimensions s =
     bindE (array_state_maybe_underneath_buffer s) (\<lambda>(ds, dy, l). Inr (put_array_state s ([], [], l)))"

definition clear_layout :: "Shape \<Rightarrow> Shape status_or" where
  "clear_layout s =
     bindE (array_state_maybe_underneath_buffer s) (\<lambda>(ds, dy, l). Inr (put_array_state s (ds, dy, None)))"

definition add_tuple_shapes :: "Shape \<Rightarrow> Shape status_or" where
  "add_tuple_shapes s =
     (case shape_state s of TupleState ss \<Rightarrow> Inr (Shape (elt_type s) (TupleState (ss @ [default_shape])))
      | _ \<Rightarrow> Inl (CheckFailed ''Expected a tuple shape''))"

definition Clear :: "Shape \<Rightarrow> Shape" where
  "Clear s = Shape PRIMITIVE_TYPE_INVALID InvalidState"

section \<open>Deleting dimensions\<close>

text \<open>\<open>Layout::DeleteDimension\<close>: the position of the dimension, then the two erasing loops.\<close>

fun find_dim :: "int \<Rightarrow> int list \<Rightarrow> int \<Rightarrow> int option" where
  "find_dim k [] i = None"
| "find_dim k (d # ds) i = (if d = k then Some i else find_dim k ds (i + 1))"

fun erase_minor_to_major :: "int \<Rightarrow> int list \<Rightarrow> int list" where
  "erase_minor_to_major k [] = []"
| "erase_minor_to_major k (d # ds) =
     (if d = k then erase_minor_to_major k ds
      else (if d > k then d - 1 else d) # erase_minor_to_major k ds)"

fun erase_split_configs :: "int \<Rightarrow> SplitConfig list \<Rightarrow> SplitConfig list" where
  "erase_split_configs p [] = []"
| "erase_split_configs p (c # cs) =
     (if sc_dimension c = p then erase_split_configs p cs
      else (if sc_dimension c > p then SplitConfig (sc_dimension c - 1) (split_indices c) else c)
           # erase_split_configs p cs)"

definition Layout_DeleteDimension :: "Layout \<Rightarrow> int \<Rightarrow> Layout status_or" where
  "Layout_DeleteDimension l dim_to_delete =
     (if dim_to_delete < 0 then Inl (CheckFailed ''dim_to_delete >= 0'')
      else if dim_to_delete \<ge> int (length (minor_to_major l))
        then Inl (CheckFailed ''dim_to_delete < minor_to_major_.size()'')
      else case find_dim dim_to_delete (minor_to_major l) 0 of
          None \<Rightarrow> Inl (CheckFailed ''deleted_physical_dim != -1'')
        | Some i \<Rightarrow>
            let deleted_physical_dim = int (length (minor_to_major l)) - 1 - i in
            Inr (Layout (index_primitive_type l) (pointer_primitive_type l) (memory_space l)
              (element_size_in_bits l) (erase_minor_to_major dim_to_delete (minor_to_major l)) (tiles l)
              (erase_split_configs deleted_physical_dim (split_configs l))
              (tail_padding_alignment_in_elements l) (physical_shape l)
              (dynamic_shape_metadata_prefix_bytes l)))"

definition erase_at :: "nat \<Rightarrow> 'a list \<Rightarrow> 'a list" where
  "erase_at k xs = take k xs @ drop (Suc k) xs"

text \<open>
  \<open>Shape::DeleteDimension\<close>. On an array \<open>LayoutUtil::HasLayout\<close> is \<open>has_layout\<close>, that is, whether
  the optional layout is present.
\<close>

definition DeleteDimension :: "Shape \<Rightarrow> int \<Rightarrow> Shape status_or" where
  "DeleteDimension s dim_to_delete =
     bindE (array_state_maybe_underneath_buffer s) (\<lambda>(ds, dy, l).
       if dim_to_delete < 0 then Inl (CheckFailed ''dim_to_delete >= 0'')
       else if dim_to_delete \<ge> int (length ds) then Inl (CheckFailed ''dim_to_delete < dimensions.size()'')
       else
         bindE (case l of None \<Rightarrow> Inr None
                | Some lay \<Rightarrow> bindE (Layout_DeleteDimension lay dim_to_delete) (\<lambda>lay'. Inr (Some lay')))
           (\<lambda>l'. Inr (put_array_state s
              (erase_at (nat dim_to_delete) ds, erase_at (nat dim_to_delete) dy, l'))))"

text \<open>\<open>RemoveElements\<close> of \<open>xla/util.h\<close>: one pass over the container with a cursor in the sorted ids.\<close>

fun RemoveElements_loop :: "int list \<Rightarrow> int \<Rightarrow> 'a list \<Rightarrow> 'a list" where
  "RemoveElements_loop ids i [] = []"
| "RemoveElements_loop ids i (x # xs) =
     (case ids of
        next_id # ids' \<Rightarrow> if next_id = i then RemoveElements_loop ids' (i + 1) xs
                      else x # RemoveElements_loop ids (i + 1) xs
      | [] \<Rightarrow> x # RemoveElements_loop [] (i + 1) xs)"

definition RemoveElements :: "int list \<Rightarrow> 'a list \<Rightarrow> 'a list" where
  "RemoveElements sorted_ids_to_remove container = RemoveElements_loop sorted_ids_to_remove 0 container"

definition DeleteDimensions :: "Shape \<Rightarrow> int list \<Rightarrow> Shape status_or" where
  "DeleteDimensions s dims_to_delete =
     bindE (array_state_maybe_underneath_buffer s) (\<lambda>(ds, dy, l).
       let sorted_dims_to_delete = sort dims_to_delete in
       bindE (case l of None \<Rightarrow> Inr None
              | Some lay \<Rightarrow> bindE (foldE Layout_DeleteDimension lay (rev sorted_dims_to_delete))
                                  (\<lambda>lay'. Inr (Some lay')))
         (\<lambda>l'. Inr (put_array_state s
            (RemoveElements sorted_dims_to_delete ds, RemoveElements sorted_dims_to_delete dy, l'))))"

section \<open>The class invariant\<close>

text \<open>
  The element type matches the case held in the variant, the dynamic flags run parallel to the
  dimensions, a buffer owns an array (or the default shape it is created with), and every
  dimension satisfies \<open>V\<close>.
\<close>

fun shape_ok :: "(int \<Rightarrow> bool \<Rightarrow> bool) \<Rightarrow> Shape \<Rightarrow> bool" where
  "shape_ok V (Shape t InvalidState) \<longleftrightarrow> t = PRIMITIVE_TYPE_INVALID"
| "shape_ok V (Shape t TokenState) \<longleftrightarrow> t = TOKEN"
| "shape_ok V (Shape t OpaqueState) \<longleftrightarrow> t = OPAQUE_TYPE"
| "shape_ok V (Shape t (ArrayState ds dy l)) \<longleftrightarrow> IsArrayType t \<and> list_all2 V ds dy"
| "shape_ok V (Shape t (TupleState ss)) \<longleftrightarrow> t = TUPLE \<and> list_all (shape_ok V) ss"
| "shape_ok V (Shape t (BufferState b)) \<longleftrightarrow>
     t = BUFFER \<and> shape_ok V b \<and> (b = default_shape \<or> IsArrayExcludingBuffer b)"

abbreviation shape_inv :: "Shape \<Rightarrow> bool" where
  "shape_inv \<equiv> shape_ok IsValidDimensionSize"

abbreviation shape_consistent :: "Shape \<Rightarrow> bool" where
  "shape_consistent \<equiv> shape_ok (\<lambda>_ _. True)"

lemma special_not_array [simp]:
  "\<not> IsArrayType PRIMITIVE_TYPE_INVALID" "\<not> IsArrayType TUPLE" "\<not> IsArrayType OPAQUE_TYPE"
  "\<not> IsArrayType TOKEN" "\<not> IsArrayType BUFFER"
  by (simp_all add: primitive_class_defs)

lemma shape_ok_default [simp]: "shape_ok V default_shape"
  by (simp add: default_shape_def)

text \<open>What the invariant says about the array state of a shape, and how writing one preserves it.\<close>

lemma array_state_cases:
  assumes "array_state_maybe_underneath_buffer s = Inr (ds, dy, l)"
  obtains (array) t where "s = Shape t (ArrayState ds dy l)"
  | (buffer) t t' where "s = Shape t (BufferState (Shape t' (ArrayState ds dy l)))"
proof (cases "shape_state s")
  case (BufferState b)
  with assms show ?thesis
    by (cases "shape_state b")
      (auto simp: array_state_maybe_underneath_buffer_def
        intro!: buffer [of "elt_type s" "elt_type b"] Shape.expand)
qed (use assms array in \<open>auto simp: array_state_maybe_underneath_buffer_def intro!: array [of "elt_type s"] Shape.expand\<close>)

lemma shape_ok_array_state:
  assumes "shape_ok V s" "array_state_maybe_underneath_buffer s = Inr (ds, dy, l)"
  shows "list_all2 V ds dy"
  using assms(2) by (cases rule: array_state_cases) (use assms(1) in auto)

lemma shape_ok_put:
  assumes "shape_ok V s" "array_state_maybe_underneath_buffer s = Inr a" "list_all2 V ds dy"
  shows "shape_ok V (put_array_state s (ds, dy, l))"
proof -
  obtain ds0 dy0 l0 where "a = (ds0, dy0, l0)" by (cases a)
  with assms(2) have "array_state_maybe_underneath_buffer s = Inr (ds0, dy0, l0)" by simp
  then show ?thesis
    by (cases rule: array_state_cases)
      (use assms in \<open>auto simp: put_array_state_def IsArrayExcludingBuffer_def default_shape_def\<close>)
qed

lemma list_all2_erase_at:
  "list_all2 V xs ys \<Longrightarrow> list_all2 V (erase_at k xs) (erase_at k ys)"
  by (auto simp: erase_at_def intro!: list_all2_appendI list_all2_takeI list_all2_dropI)

lemma list_all2_RemoveElements_loop:
  "list_all2 V xs ys \<Longrightarrow> list_all2 V (RemoveElements_loop ids i xs) (RemoveElements_loop ids i ys)"
  by (induction xs ys arbitrary: ids i rule: list_all2_induct) (auto split: list.splits)

lemma CheckDimensionSize_Inr:
  "CheckDimensionSize d b = Inr u \<longleftrightarrow> IsValidDimensionSize d b"
  by (auto simp: CheckDimensionSize_def IsValidDimensionSize_def)

lemma at_index_Inr: "at_index xs i = Inr x \<longleftrightarrow> 0 \<le> i \<and> nat i < length xs \<and> x = xs ! nat i"
  by (auto simp: at_index_def nat_less_iff)

lemma set_element_type_ok:
  assumes "shape_ok V s" "set_element_type s t = Inr s'"
  shows "shape_ok V s'"
proof (cases s)
  case (Shape t0 st)
  with assms show ?thesis
    by (cases st)
      (auto simp: set_element_type_def default_state_def Let_def bindE_eq_Inr split: if_splits)
qed

text \<open>One call of a mutator, on the shape itself or on a tuple component reached through a pointer.\<close>

inductive shape_step :: "Shape \<Rightarrow> Shape \<Rightarrow> bool" where
  set_element_type: "set_element_type s t = Inr s' \<Longrightarrow> shape_step s s'"
| add_dimensions: "add_dimensions s d b = Inr s' \<Longrightarrow> shape_step s s'"
| set_dynamic_dimension: "set_dynamic_dimension s i b = Inr s' \<Longrightarrow> shape_step s s'"
| set_dimensions: "set_dimensions s i d b = Inr s' \<Longrightarrow> shape_step s s'"
| set_dimensions_minor: "set_dimensions_minor s i d b = Inr s' \<Longrightarrow> shape_step s s'"
| clear_dimensions: "clear_dimensions s = Inr s' \<Longrightarrow> shape_step s s'"
| clear_layout: "clear_layout s = Inr s' \<Longrightarrow> shape_step s s'"
| DeleteDimension: "DeleteDimension s k = Inr s' \<Longrightarrow> shape_step s s'"
| DeleteDimensions: "DeleteDimensions s ks = Inr s' \<Longrightarrow> shape_step s s'"
| add_tuple_shapes: "add_tuple_shapes s = Inr s' \<Longrightarrow> shape_step s s'"
| Clear: "shape_step s (Clear s)"
| tuple_component: "i < length ss \<Longrightarrow> shape_step (ss ! i) s' \<Longrightarrow>
    shape_step (Shape t (TupleState ss)) (Shape t (TupleState (ss[i := s'])))"

inductive shape_reachable :: "Shape \<Rightarrow> bool" where
  default: "shape_reachable default_shape"
| of_type: "Shape_of_type t = Inr s \<Longrightarrow> shape_reachable s"
| array: "Shape_array t ds dy = Inr s \<Longrightarrow>
    list_all2 IsValidDimensionSize ds (if dy = [] then replicate (length ds) False else dy) \<Longrightarrow>
    shape_reachable s"
| tuple: "\<forall>s\<in>set ss. shape_reachable s \<Longrightarrow> shape_reachable (Shape_tuple ss)"
| step: "shape_reachable s \<Longrightarrow> shape_step s s' \<Longrightarrow> shape_reachable s'"

lemma add_dimensions_ok:
  assumes "shape_inv s" "add_dimensions s d b = Inr s'"
  shows "shape_inv s'"
proof -
  obtain ds dy l where a: "array_state_maybe_underneath_buffer s = Inr (ds, dy, l)"
    and s': "s' = put_array_state s (ds @ [d], dy @ [b], l)" and d: "IsValidDimensionSize d b"
    using assms(2)
    by (auto simp: add_dimensions_def UnsafeAddDimension_def bindE_eq_Inr IsValidDimensionSize_def
        split: if_splits)
  show ?thesis
    unfolding s' using d shape_ok_array_state [OF assms(1) a]
    by (intro shape_ok_put [OF assms(1) a]) (auto intro: list_all2_appendI)
qed

lemma set_dynamic_dimension_ok:
  assumes "shape_inv s" "set_dynamic_dimension s i b = Inr s'"
  shows "shape_inv s'"
proof -
  obtain ds dy l where a: "array_state_maybe_underneath_buffer s = Inr (ds, dy, l)"
    and s': "s' = put_array_state s (ds, dy[nat i := b], l)"
    and d: "IsValidDimensionSize (ds ! nat i) b"
    using assms(2)
    by (auto simp: set_dynamic_dimension_def bindE_eq_Inr CheckDimensionSize_Inr at_index_Inr)
  have "list_all2 IsValidDimensionSize (ds[nat i := ds ! nat i]) (dy[nat i := b])"
    by (rule list_all2_update_cong) (use d shape_ok_array_state [OF assms(1) a] in auto)
  then show ?thesis unfolding s' by (intro shape_ok_put [OF assms(1) a]) simp
qed

lemma set_dimensions_ok:
  assumes "shape_inv s" "set_dimensions s i d b = Inr s'"
  shows "shape_inv s'"
proof -
  obtain ds dy l dyn where a: "array_state_maybe_underneath_buffer s = Inr (ds, dy, l)"
    and s': "s' = put_array_state s (ds[nat i := d], dy[nat i := dyn], l)"
    and d: "IsValidDimensionSize d dyn"
    using assms(2)
    by (auto simp: set_dimensions_def bindE_eq_Inr CheckDimensionSize_Inr at_index_Inr)
  have "list_all2 IsValidDimensionSize (ds[nat i := d]) (dy[nat i := dyn])"
    by (rule list_all2_update_cong) (use d shape_ok_array_state [OF assms(1) a] in auto)
  then show ?thesis unfolding s' by (intro shape_ok_put [OF assms(1) a])
qed

lemma DeleteDimension_ok:
  assumes "shape_inv s" "DeleteDimension s k = Inr s'"
  shows "shape_inv s'"
proof -
  obtain ds dy l l' where a: "array_state_maybe_underneath_buffer s = Inr (ds, dy, l)"
    and s': "s' = put_array_state s (erase_at (nat k) ds, erase_at (nat k) dy, l')"
    using assms(2) by (auto simp: DeleteDimension_def bindE_eq_Inr split: if_splits)
  show ?thesis unfolding s'
    by (intro shape_ok_put [OF assms(1) a] list_all2_erase_at shape_ok_array_state [OF assms(1) a])
qed

lemma DeleteDimensions_ok:
  assumes "shape_inv s" "DeleteDimensions s ks = Inr s'"
  shows "shape_inv s'"
proof -
  obtain ds dy l l' where a: "array_state_maybe_underneath_buffer s = Inr (ds, dy, l)"
    and s': "s' = put_array_state s (RemoveElements (sort ks) ds, RemoveElements (sort ks) dy, l')"
    using assms(2) by (auto simp: DeleteDimensions_def bindE_eq_Inr Let_def)
  show ?thesis unfolding s' RemoveElements_def
    by (intro shape_ok_put [OF assms(1) a] list_all2_RemoveElements_loop
        shape_ok_array_state [OF assms(1) a])
qed

lemma clear_ok:
  assumes "shape_inv s"
  shows "clear_dimensions s = Inr s' \<Longrightarrow> shape_inv s'" "clear_layout s = Inr s' \<Longrightarrow> shape_inv s'"
  using assms shape_ok_put [OF assms] shape_ok_array_state [OF assms]
  by (auto simp: clear_dimensions_def clear_layout_def bindE_eq_Inr)

lemma add_tuple_shapes_ok: "shape_inv s \<Longrightarrow> add_tuple_shapes s = Inr s' \<Longrightarrow> shape_inv s'"
  by (cases s; cases "shape_state s") (auto simp: add_tuple_shapes_def)

lemma set_dimensions_minor_ok:
  "shape_inv s \<Longrightarrow> set_dimensions_minor s i d b = Inr s' \<Longrightarrow> shape_inv s'"
  by (auto simp: set_dimensions_minor_def bindE_eq_Inr split: if_splits intro: set_dimensions_ok)

lemma list_all_update: "list_all P xs \<Longrightarrow> P x \<Longrightarrow> list_all P (xs[i := x])"
  by (auto simp: list_all_iff dest!: set_update_subset_insert [THEN subsetD])

lemma shape_step_inv: "shape_step s s' \<Longrightarrow> shape_inv s \<Longrightarrow> shape_inv s'"
proof (induction rule: shape_step.induct)
  case (tuple_component i ss s' t)
  then have "shape_inv (ss ! i)" by (simp add: list_all_length)
  with tuple_component show ?case by (simp add: list_all_update)
qed (auto intro: set_element_type_ok add_dimensions_ok set_dynamic_dimension_ok set_dimensions_ok
    set_dimensions_minor_ok clear_ok DeleteDimension_ok DeleteDimensions_ok add_tuple_shapes_ok
    simp: Clear_def)

lemma Shape_array_eq:
  "Shape_array t ds dy = Inr s \<Longrightarrow> IsArrayType t \<and>
     s = Shape t (ArrayState ds (if dy = [] then replicate (length ds) False else dy) None)"
  by (cases "t = TOKEN \<or> t = OPAQUE_TYPE \<or> t = TUPLE \<or> t = BUFFER")
    (auto simp: Shape_array_def set_element_type_def default_state_def put_array_state_def
      default_shape_def CheckStateIsEmpty_def Let_def bindE_eq_Inr split: if_splits)



section \<open>Layouts under deletion\<close>

lemma find_dim_Some: "k \<in> set ds \<Longrightarrow> \<exists>i. find_dim k ds j = Some i"
  by (induction ds arbitrary: j) auto

lemma erase_minor_to_major_eq:
  "erase_minor_to_major k ds = map (\<lambda>d. if d > k then d - 1 else d) (filter (\<lambda>d. d \<noteq> k) ds)"
  by (induction ds) auto

lemma length_filter_neq_distinct:
  "distinct ds \<Longrightarrow> k \<in> set ds \<Longrightarrow> length (filter (\<lambda>d. d \<noteq> k) ds) = length ds - 1"
  by (metis (mono_tags, lifting) distinct_remove1_removeAll filter_cong length_remove1
      removeAll_filter_not_eq)

lemma erase_minor_to_major_permutation:
  assumes "IsPermutation ds" "0 \<le> k" "k < int (length ds)"
  shows "IsPermutation (erase_minor_to_major k ds) \<and> length (erase_minor_to_major k ds) = length ds - 1"
proof -
  have ds: "distinct ds" "\<forall>d\<in>set ds. 0 \<le> d \<and> d < int (length ds)"
    using assms(1) by (simp_all add: IsPermutation_iff)
  have "k \<in> set ds" using IsPermutation_set [OF assms(1)] assms(2,3) by simp
  then have len: "length (erase_minor_to_major k ds) = length ds - 1"
    using ds(1) by (simp add: erase_minor_to_major_eq length_filter_neq_distinct)
  have "inj_on (\<lambda>d. if d > k then d - 1 else d) (set (filter (\<lambda>d. d \<noteq> k) ds))"
    by (auto simp: inj_on_def split: if_splits)
  then have "distinct (erase_minor_to_major k ds)"
    using ds(1) by (simp add: erase_minor_to_major_eq distinct_map)
  moreover have "0 \<le> d \<and> d < int (length ds - 1)" if "d \<in> set (erase_minor_to_major k ds)" for d
    using that ds(2) assms(2,3) by (force simp: erase_minor_to_major_eq split: if_splits)
  ultimately show ?thesis using len by (simp add: IsPermutation_iff)
qed

text \<open>
  C24. \<open>Layout::DeleteDimension\<close> on a layout whose minor-to-major order is a permutation succeeds for
  every dimension number in range, keeps the order of the remaining dimensions, renumbers those
  above the deleted one, and leaves a permutation of one dimension less.
\<close>

theorem Layout_DeleteDimension_permutation:
  assumes "IsPermutation (minor_to_major l)" "0 \<le> k" "k < int (length (minor_to_major l))"
  shows "\<exists>l'. Layout_DeleteDimension l k = Inr l' \<and> IsPermutation (minor_to_major l') \<and>
    length (minor_to_major l') = length (minor_to_major l) - 1 \<and>
    minor_to_major l' =
      map (\<lambda>d. if d > k then d - 1 else d) (filter (\<lambda>d. d \<noteq> k) (minor_to_major l)) \<and>
    tiles l' = tiles l \<and> memory_space l' = memory_space l \<and>
    element_size_in_bits l' = element_size_in_bits l"
proof -
  have "k \<in> set (minor_to_major l)" using IsPermutation_set [OF assms(1)] assms(2,3) by simp
  then obtain i where "find_dim k (minor_to_major l) 0 = Some i" using find_dim_Some by blast
  then show ?thesis
    using assms erase_minor_to_major_permutation [OF assms]
    by (simp add: Layout_DeleteDimension_def Let_def erase_minor_to_major_eq)
qed

definition simple_layout :: "int list \<Rightarrow> Layout" where
  "simple_layout m2m = Layout PRIMITIVE_TYPE_INVALID PRIMITIVE_TYPE_INVALID 0 0 m2m [] [] 1 None 0"

theorem Layout_DeleteDimension_permutation_witness:
  "\<exists>l'. Layout_DeleteDimension (simple_layout [1, 0, 2]) 1 = Inr l' \<and> minor_to_major l' = [0, 1]"
  using Layout_DeleteDimension_permutation [of "simple_layout [1, 0, 2]" 1]
  by (auto simp: simple_layout_def IsPermutation_def)

lemma RemoveElements_loop_nths:
  "sorted_wrt (<) ids \<Longrightarrow> (\<forall>d\<in>set ids. i \<le> d) \<Longrightarrow>
   RemoveElements_loop ids i xs = nths xs {j. i + int j \<notin> set ids}"
proof (induction xs arbitrary: ids i)
  case (Cons x xs)
  have step: "nths (x # xs) {j. i + int j \<notin> A} =
      (if i \<notin> A then [x] else []) @ nths xs {j. i + 1 + int j \<notin> A}" for A
    by (simp add: nths_Cons algebra_simps)
  consider "ids = []" | ds where "ids = i # ds" | d ds where "ids = d # ds" "d \<noteq> i"
    by (cases ids) auto
  then show ?case
  proof cases
    case 1
    then show ?thesis using Cons.IH [of "[]" "i + 1"] by (simp add: nths_Cons)
  next
    case 2
    have "RemoveElements_loop ids i (x # xs) = nths xs {j. i + 1 + int j \<notin> set ds}"
      using 2 Cons.IH [of ds "i + 1"] Cons.prems by force
    also have "{j. i + 1 + int j \<notin> set ds} = {j. i + 1 + int j \<notin> set ids}"
      using 2 by auto
    finally show ?thesis unfolding step using 2 by simp
  next
    case 3
    then have "i \<notin> set ids" using Cons.prems by auto
    moreover have "RemoveElements_loop ids (i + 1) xs = nths xs {j. i + 1 + int j \<notin> set ids}"
      by (rule Cons.IH) (use Cons.prems 3 in auto)
    ultimately show ?thesis unfolding step using 3 by simp
  qed
qed simp



text \<open>
  A shape built with \<open>Shape(BUFFER)\<close> holds no array under its buffer: reading whether it is
  static, or changing its element type to an array type, dereferences the missing array state.
\<close>

lemma empty_buffer_reads_crash:
  "\<exists>s. Shape_of_type BUFFER = Inr s \<and> shape_inv s \<and>
     is_static s = Inl (CheckFailed ''null array state under buffer'') \<and>
     set_element_type s F32 = Inl (CheckFailed ''null array state under buffer'')"
  by (simp add: Shape_of_type_def set_element_type_def default_state_def default_shape_def
      CheckStateIsEmpty_def array_state_maybe_underneath_buffer_def primitive_class_defs)

end
