(* ===== verification/ShapeProto.thy ===== *)
theory ShapeProto
  imports Shape
begin

text \<open>
  Serialisation of shapes and layouts: \<open>Shape::ToProto\<close>/\<open>FromProto\<close> (\<open>xla/shape.cc\<close>),
  \<open>Layout::ToProto\<close>/\<open>FromProto\<close> (\<open>xla/layout.cc\<close>), \<open>Tile::FromProto\<close> (\<open>xla/layout.h\<close>)
  and \<open>ProgramShape\<close>, over the messages of \<open>xla/xla_data.proto\<close>.
\<close>

section \<open>Messages\<close>

datatype TileProto = TileProto (tp_dimensions: "int list")

datatype SplitConfigProto = SplitConfigProto (scp_dimension: int) (scp_split_indices: "int list")

datatype ShapeProto = ShapeProto
    (sp_element_type: PrimitiveType)
    (sp_dimensions: "int list")
    (sp_is_dynamic_dimension: "bool list")
    (sp_tuple_shapes: "ShapeProto list")
    (sp_layout: "LayoutProto option")
and LayoutProto = LayoutProto
    (lp_minor_to_major: "int list")
    (lp_tiles: "TileProto list")
    (lp_tail_padding_alignment_in_elements: int)
    (lp_index_primitive_type: PrimitiveType)
    (lp_pointer_primitive_type: PrimitiveType)
    (lp_element_size_in_bits: int)
    (lp_memory_space: int)
    (lp_split_configs: "SplitConfigProto list")
    (lp_physical_shape: "ShapeProto option")
    (lp_dynamic_shape_metadata_prefix_bytes: int)

section \<open>Writing\<close>

definition SaveTileToEmptyProto :: "Tile \<Rightarrow> TileProto" where
  "SaveTileToEmptyProto t = TileProto (tile_dimensions t)"

definition SaveSplitConfigToEmptyProto :: "SplitConfig \<Rightarrow> SplitConfigProto" where
  "SaveSplitConfigToEmptyProto c = SplitConfigProto (sc_dimension c) (split_indices c)"

fun SaveToEmptyProto :: "Shape \<Rightarrow> ShapeProto"
and SaveLayoutToEmptyProto :: "Layout \<Rightarrow> LayoutProto" where
  "SaveToEmptyProto (Shape t (ArrayState ds dy l)) =
     ShapeProto t ds dy [] (map_option SaveLayoutToEmptyProto l)"
| "SaveToEmptyProto (Shape t (TupleState ss)) = ShapeProto t [] [] (map SaveToEmptyProto ss) None"
| "SaveToEmptyProto (Shape t (BufferState b)) = ShapeProto t [] [] [SaveToEmptyProto b] None"
| "SaveToEmptyProto (Shape t _) = ShapeProto t [] [] [] None"
| "SaveLayoutToEmptyProto (Layout it pt ms es m2m ts scs tp ps dm) =
     LayoutProto m2m (map SaveTileToEmptyProto ts) tp it pt es ms
       (map SaveSplitConfigToEmptyProto scs) (map_option SaveToEmptyProto ps) dm"

section \<open>Reading\<close>

definition Tile_FromProto :: "TileProto \<Rightarrow> Tile status_or" where
  "Tile_FromProto p =
     bindE (for_each (\<lambda>d. if d \<ge> 0 then Inr () else Inl (InternalError ''RET_CHECK dimension >= 0''))
              (tp_dimensions p))
       (\<lambda>_. Inr (Tile (tp_dimensions p)))"

definition SplitConfig_CreateFromProto :: "SplitConfigProto \<Rightarrow> SplitConfig" where
  "SplitConfig_CreateFromProto p = SplitConfig (scp_dimension p) (scp_split_indices p)"

text \<open>The member \<open>memory_space_\<close> is an \<open>int8_t\<close>: assigning an \<open>int64_t\<close> keeps the low eight bits.\<close>

definition wrap8 :: "int \<Rightarrow> int" where
  "wrap8 x = (x + 128) mod 256 - 128"

text \<open>The dimension loop of \<open>Shape::FromProto\<close>, appending with \<open>UnsafeAddDimension\<close>.\<close>

fun add_dims_loop :: "Shape \<Rightarrow> nat \<Rightarrow> int list \<Rightarrow> bool list \<Rightarrow> Shape status_or" where
  "add_dims_loop s i [] dyns = Inr s"
| "add_dims_loop s i (d # ds) dyns =
     bindE (UnsafeAddDimension s d (i < length dyns \<and> dyns ! i))
       (\<lambda>s'. add_dims_loop s' (Suc i) ds dyns)"

text \<open>
  \<open>Shape::FromProto\<close> and \<open>Layout::FromProto\<close>, in the order of the source: element type, the
  body of the category, then the layout, which is only accepted on arrays and buffers. In the
  buffer case the inner shape is read first and must be an array.
\<close>

definition set_layout :: "Shape \<Rightarrow> Layout \<Rightarrow> Shape status_or" where
  "set_layout s lay =
     bindE (array_state_maybe_underneath_buffer s) (\<lambda>(ds, dy, l). Inr (put_array_state s (ds, dy, Some lay)))"

fun Shape_FromProto :: "ShapeProto \<Rightarrow> Shape status_or"
and Layout_FromProto :: "LayoutProto \<Rightarrow> Layout status_or" where
  "Shape_FromProto (ShapeProto t ds dyns tss lp) =
     bindE (set_element_type default_shape t) (\<lambda>shape.
     bindE
       (case shape_state shape of
          ArrayState _ _ _ \<Rightarrow>
            if dyns \<noteq> [] \<and> length ds \<noteq> length dyns
            then Inl (InternalError ''Malformed shape proto: is_dynamic_dimension'')
            else add_dims_loop shape 0 ds dyns
        | TupleState _ \<Rightarrow>
            bindE (mapE Shape_FromProto tss) (\<lambda>ss. Inr (Shape (elt_type shape) (TupleState ss)))
        | BufferState _ \<Rightarrow>
            (case tss of
               [b] \<Rightarrow> bindE (Shape_FromProto b) (\<lambda>buffer_shape.
                  if \<not> IsArrayExcludingBuffer buffer_shape
                  then Inl (InvalidArgument ''Buffer shape must have array shape.'')
                  else Inr (Shape (elt_type shape) (BufferState buffer_shape)))
             | _ \<Rightarrow> Inl (InvalidArgument ''Buffer shape must have exactly one tuple shape.''))
        | _ \<Rightarrow> Inr shape)
     (\<lambda>shape'.
       case lp of
         None \<Rightarrow> Inr shape'
       | Some lproto \<Rightarrow>
           if \<not> IsArray shape' then Inl (InternalError ''Malformed shape proto: should not have a layout.'')
           else bindE (Layout_FromProto lproto) (\<lambda>lay. set_layout shape' lay)))"
| "Layout_FromProto (LayoutProto m2m tps tp it pt es ms scs ps dm) =
     bindE (mapE Tile_FromProto tps) (\<lambda>ts.
     let alignment = (if tp \<noteq> 0 then tp else 1) in
     if \<not> alignment > 0 then Inl (InternalError ''RET_CHECK alignment > 0'') else
     bindE (case ps of None \<Rightarrow> Inr None
            | Some sp \<Rightarrow> bindE (Shape_FromProto sp) (\<lambda>s. Inr (Some s))) (\<lambda>phys.
       Inr (Layout it pt (wrap8 ms) es m2m ts (map SplitConfig_CreateFromProto scs) alignment phys dm)))"

section \<open>Programs\<close>

record ProgramShape =
  parameters :: "Shape list"
  parameter_names :: "string list"
  result :: Shape

record ProgramShapeProto =
  psp_parameters :: "ShapeProto list"
  psp_result :: ShapeProto
  psp_parameter_names :: "string list"

definition ProgramShape_ToProto :: "ProgramShape \<Rightarrow> ProgramShapeProto" where
  "ProgramShape_ToProto p =
     \<lparr>psp_parameters = map SaveToEmptyProto (parameters p), psp_result = SaveToEmptyProto (result p),
      psp_parameter_names = parameter_names p\<rparr>"

definition ProgramShape_FromProto :: "ProgramShapeProto \<Rightarrow> ProgramShape status_or" where
  "ProgramShape_FromProto p =
     (if length (psp_parameters p) \<noteq> length (psp_parameter_names p)
      then Inl (InternalError ''different numbers of parameters and parameter names'')
      else bindE (mapE Shape_FromProto (psp_parameters p)) (\<lambda>ps.
           bindE (Shape_FromProto (psp_result p)) (\<lambda>r.
             Inr \<lparr>parameters = ps, parameter_names = psp_parameter_names p, result = r\<rparr>)))"

section \<open>What survives a round trip\<close>

text \<open>
  Shapes whose buffers hold arrays and whose layouts have non-negative tile dimensions, a positive
  tail padding alignment and a memory space that fits its \<open>int8_t\<close> member.
\<close>

fun proto_safe :: "Shape \<Rightarrow> bool"
and layout_proto_safe :: "Layout \<Rightarrow> bool" where
  "proto_safe (Shape t (ArrayState ds dy l)) \<longleftrightarrow>
     IsArrayType t \<and> length ds = length dy \<and> pred_option layout_proto_safe l"
| "proto_safe (Shape t (TupleState ss)) \<longleftrightarrow> t = TUPLE \<and> list_all proto_safe ss"
| "proto_safe (Shape t (BufferState b)) \<longleftrightarrow> t = BUFFER \<and> IsArrayExcludingBuffer b \<and> proto_safe b"
| "proto_safe (Shape t TokenState) \<longleftrightarrow> t = TOKEN"
| "proto_safe (Shape t OpaqueState) \<longleftrightarrow> t = OPAQUE_TYPE"
| "proto_safe (Shape t InvalidState) \<longleftrightarrow> t = PRIMITIVE_TYPE_INVALID"
| "layout_proto_safe (Layout it pt ms es m2m ts scs tp ps dm) \<longleftrightarrow>
     list_all (\<lambda>t. list_all (\<lambda>d. 0 \<le> d) (tile_dimensions t)) ts \<and> 1 \<le> tp \<and>
     -128 \<le> ms \<and> ms \<le> 127 \<and> pred_option proto_safe ps"

lemma Tile_roundtrip:
  "list_all (\<lambda>d. 0 \<le> d) (tile_dimensions t) \<Longrightarrow> Tile_FromProto (SaveTileToEmptyProto t) = Inr t"
proof -
  assume "list_all (\<lambda>d. 0 \<le> d) (tile_dimensions t)"
  then have "for_each (\<lambda>d. if d \<ge> 0 then Inr () else Inl (InternalError ''RET_CHECK dimension >= 0''))
      (tile_dimensions t) = Inr ()"
    by (simp add: for_each_eq_Inr list_all_iff)
  then show ?thesis by (simp add: Tile_FromProto_def SaveTileToEmptyProto_def)
qed

lemma mapE_map_Inr: "(\<And>x. x \<in> set xs \<Longrightarrow> f (g x) = Inr x) \<Longrightarrow> mapE f (map g xs) = Inr xs"
  by (induction xs) auto

lemma SplitConfig_roundtrip [simp]:
  "SplitConfig_CreateFromProto (SaveSplitConfigToEmptyProto c) = c"
  by (simp add: SplitConfig_CreateFromProto_def SaveSplitConfigToEmptyProto_def)

lemma wrap8_id: "-128 \<le> x \<Longrightarrow> x \<le> 127 \<Longrightarrow> wrap8 x = x"
  by (simp add: wrap8_def)

lemma set_element_type_default:
  "IsArrayType t \<Longrightarrow> set_element_type default_shape t = Inr (Shape t (ArrayState [] [] None))"
  "set_element_type default_shape TUPLE = Inr (Shape TUPLE (TupleState []))"
  "set_element_type default_shape BUFFER = Inr (Shape BUFFER (BufferState default_shape))"
  "set_element_type default_shape TOKEN = Inr (Shape TOKEN TokenState)"
  "set_element_type default_shape OPAQUE_TYPE = Inr (Shape OPAQUE_TYPE OpaqueState)"
  "set_element_type default_shape PRIMITIVE_TYPE_INVALID = Inr default_shape"
  by (auto simp: set_element_type_def default_state_def default_shape_def CheckStateIsEmpty_def
      Let_def primitive_class_defs)

lemma default_shape_sel [simp]:
  "elt_type default_shape = PRIMITIVE_TYPE_INVALID" "shape_state default_shape = InvalidState"
  by (simp_all add: default_shape_def)

lemma add_dims_loop_array:
  "length ds0 = length dy0 \<Longrightarrow>
   add_dims_loop (Shape t (ArrayState ds0 dy0 l)) i ds dyns =
     Inr (Shape t (ArrayState (ds0 @ ds)
       (dy0 @ map (\<lambda>j. i + j < length dyns \<and> dyns ! (i + j)) [0..<length ds]) l))"
proof (induction ds arbitrary: ds0 dy0 i)
  case (Cons d ds)
  have "map f [0..<Suc n] = f 0 # map (\<lambda>j. f (Suc j)) [0..<n]" for f :: "nat \<Rightarrow> bool" and n
    by (simp add: upt_conv_Cons map_Suc_upt [symmetric] del: upt_Suc)
  with Cons show ?case
    by (simp add: UnsafeAddDimension_def array_state_maybe_underneath_buffer_def put_array_state_def
        del: upt_Suc)
qed simp

lemma map_nth_flags: "map (\<lambda>j. j < length dy \<and> dy ! j) [0..<length dy] = dy"
  by (rule nth_equalityI) simp_all

lemma roundtrip_both:
  "proto_safe s \<Longrightarrow> Shape_FromProto (SaveToEmptyProto s) = Inr s"
  "layout_proto_safe l \<Longrightarrow> Layout_FromProto (SaveLayoutToEmptyProto l) = Inr l"
proof (induction s and l rule: SaveToEmptyProto_SaveLayoutToEmptyProto.induct)
  case (1 t ds dy l)
  then show ?case
    by (cases l)
      (auto simp: set_element_type_default add_dims_loop_array map_nth_flags IsArray_def
        IsArrayExcludingBuffer_def set_layout_def array_state_maybe_underneath_buffer_def put_array_state_def)
next
  case (2 t ss)
  then show ?case by (auto simp: set_element_type_default list_all_iff mapE_map_Inr)
next
  case "4_1"
  then show ?case
    by (auto simp: set_element_type_default) (simp_all add: default_shape_def)
qed (auto simp: set_element_type_default wrap8_id Tile_roundtrip list_all_iff mapE_map_Inr
    Let_def comp_def split: option.splits)



text \<open>A program signature with named parameters survives the round trip as well.\<close>

lemma ProgramShape_proto_roundtrip:
  assumes "list_all proto_safe (parameters p)" "proto_safe (result p)"
    and "length (parameters p) = length (parameter_names p)"
  shows "ProgramShape_FromProto (ProgramShape_ToProto p) = Inr p"
  using assms
  by (simp add: ProgramShape_FromProto_def ProgramShape_ToProto_def roundtrip_both list_all_iff mapE_map_Inr)

lemma ProgramShape_proto_roundtrip_witness:
  "ProgramShape_FromProto (ProgramShape_ToProto
     \<lparr>parameters = [Shape F32 (ArrayState [2] [False] None)], parameter_names = [''x''],
      result = Shape PRED (ArrayState [] [] None)\<rparr>)
   = Inr \<lparr>parameters = [Shape F32 (ArrayState [2] [False] None)], parameter_names = [''x''],
      result = Shape PRED (ArrayState [] [] None)\<rparr>"
  by (rule ProgramShape_proto_roundtrip) (simp_all add: primitive_class_defs)



section \<open>Reading untrusted messages\<close>

definition no_crash :: "'a status_or \<Rightarrow> bool" where
  "no_crash m \<longleftrightarrow> (\<forall>e. m \<noteq> Inl (CheckFailed e))"

lemma no_crash_simps [simp]:
  "no_crash (Inr x)" "no_crash (Inl (InternalError m))" "no_crash (Inl (InvalidArgument m))"
  by (simp_all add: no_crash_def)

lemma no_crash_bindE: "no_crash m \<Longrightarrow> (\<And>x. m = Inr x \<Longrightarrow> no_crash (f x)) \<Longrightarrow> no_crash (bindE m f)"
  by (cases m) (auto simp: no_crash_def)

lemma no_crash_mapE: "(\<And>x. x \<in> set xs \<Longrightarrow> no_crash (f x)) \<Longrightarrow> no_crash (mapE f xs)"
  by (induction xs) (auto intro!: no_crash_bindE)

lemma no_crash_for_each: "(\<And>x. x \<in> set xs \<Longrightarrow> no_crash (f x)) \<Longrightarrow> no_crash (for_each f xs)"
  by (induction xs) (auto intro!: no_crash_bindE)

lemma mapE_Inr_all: "mapE f xs = Inr ys \<Longrightarrow> (\<And>x y. x \<in> set xs \<Longrightarrow> f x = Inr y \<Longrightarrow> P y) \<Longrightarrow> list_all P ys"
proof (induction xs arbitrary: ys)
  case (Cons x xs)
  then obtain z zs where "ys = z # zs" "f x = Inr z" "mapE f xs = Inr zs"
    by (auto simp: bindE_eq_Inr)
  with Cons show ?case by (simp, metis list.set_intros)
qed simp

lemma no_crash_Tile: "no_crash (Tile_FromProto p)"
  by (auto simp: Tile_FromProto_def intro!: no_crash_bindE no_crash_for_each)

lemma list_all2_True: "list_all2 (\<lambda>_ _. True) xs ys \<longleftrightarrow> length xs = length ys"
  by (auto simp: list_all2_conv_all_nth)

text \<open>The shape read in each category, and what it guarantees for the layout that follows.\<close>

definition sound_shape :: "Shape status_or \<Rightarrow> bool" where
  "sound_shape m \<longleftrightarrow> no_crash m \<and>
     (\<forall>s. m = Inr s \<longrightarrow> shape_consistent s \<and>
        (IsArray s \<longrightarrow> (\<exists>a. array_state_maybe_underneath_buffer s = Inr a)))"

lemma set_layout_sound:
  assumes "shape_consistent s" "array_state_maybe_underneath_buffer s = Inr a"
  shows "sound_shape (set_layout s lay)"
proof -
  obtain ds dy l where a: "array_state_maybe_underneath_buffer s = Inr (ds, dy, l)"
    using assms(2) by (cases a) auto
  have "shape_consistent (put_array_state s (ds, dy, Some lay))"
    by (rule shape_ok_put [OF assms(1) a shape_ok_array_state [OF assms(1) a]])
  moreover have "\<exists>a. array_state_maybe_underneath_buffer (put_array_state s (ds, dy, Some lay)) = Inr a"
    using a by (cases rule: array_state_cases)
      (simp_all add: array_state_maybe_underneath_buffer_def put_array_state_def)
  ultimately show ?thesis using a by (simp add: sound_shape_def set_layout_def)
qed

lemma array_body_sound:
  assumes "IsArrayType t"
  shows "sound_shape (if dyns \<noteq> [] \<and> length ds \<noteq> length dyns
     then Inl (InternalError ''Malformed shape proto: is_dynamic_dimension'')
     else add_dims_loop (Shape t (ArrayState [] [] None)) 0 ds dyns)"
  using assms by (simp add: sound_shape_def add_dims_loop_array list_all2_True
      array_state_maybe_underneath_buffer_def)

lemma buffer_body_sound:
  assumes "sound_shape m"
  shows "sound_shape (bindE m (\<lambda>b. if \<not> IsArrayExcludingBuffer b
      then Inl (InvalidArgument ''Buffer shape must have array shape.'')
      else Inr (Shape BUFFER (BufferState b))))"
proof (cases m)
  case (Inr b)
  show ?thesis
  proof (cases "IsArrayExcludingBuffer b")
    case True
    with assms Inr obtain a where "array_state_maybe_underneath_buffer b = Inr a"
      by (auto simp: sound_shape_def IsArray_def)
    moreover have "elt_type b \<noteq> BUFFER" using True by (auto simp: IsArrayExcludingBuffer_def)
    ultimately have "\<exists>ds dy l. shape_state b = ArrayState ds dy l"
      using assms Inr by (cases b; cases "shape_state b")
        (auto simp: array_state_maybe_underneath_buffer_def sound_shape_def)
    with True assms Inr show ?thesis
      by (auto simp: sound_shape_def array_state_maybe_underneath_buffer_def)
  qed (simp add: Inr sound_shape_def)
qed (use assms in \<open>simp add: sound_shape_def no_crash_def\<close>)

lemma sound_shape_layout:
  assumes "sound_shape m" "\<And>p. lp = Some p \<Longrightarrow> no_crash (Layout_FromProto p)"
  shows "sound_shape (bindE m (\<lambda>shape'.
       case lp of
         None \<Rightarrow> Inr shape'
       | Some lproto \<Rightarrow>
           if \<not> IsArray shape' then Inl (InternalError ''Malformed shape proto: should not have a layout.'')
           else bindE (Layout_FromProto lproto) (\<lambda>lay. set_layout shape' lay)))"
proof (cases m)
  case (Inr s)
  show ?thesis
  proof (cases lp)
    case (Some p)
    show ?thesis
    proof (cases "IsArray s")
      case True
      with assms(1) Inr obtain a where a: "shape_consistent s" "array_state_maybe_underneath_buffer s = Inr a"
        by (auto simp: sound_shape_def)
      show ?thesis
        using set_layout_sound [OF a] assms(2) [OF Some] True Some Inr
        by (cases "Layout_FromProto p") (auto simp: sound_shape_def no_crash_def)
    qed (simp add: Inr Some sound_shape_def)
  qed (use assms Inr in simp)
qed (use assms in \<open>simp add: sound_shape_def no_crash_def\<close>)

lemma FromProto_sound:
  "sound_shape (Shape_FromProto p) \<and> no_crash (Layout_FromProto q)"
proof (rule ShapeProto_LayoutProto.induct [where ?P1.0 = "\<lambda>p. sound_shape (Shape_FromProto p)"
      and ?P2.0 = "\<lambda>q. no_crash (Layout_FromProto q)"])
  fix t ds dyns tss lp
  assume tuple_IH: "\<And>p. p \<in> set tss \<Longrightarrow> sound_shape (Shape_FromProto p)"
    and "\<And>q. q \<in> set_option lp \<Longrightarrow> no_crash (Layout_FromProto q)"
  then have layout_IH: "no_crash (Layout_FromProto p)" if "lp = Some p" for p
    using that by simp
  consider "IsArrayType t" | "t = TUPLE" | "t = BUFFER" | "t = TOKEN \<or> t = OPAQUE_TYPE \<or> t = PRIMITIVE_TYPE_INVALID"
    by (cases t) (simp_all add: primitive_class_defs)
  then show "sound_shape (Shape_FromProto (ShapeProto t ds dyns tss lp))"
  proof cases
    case 1
    have "sound_shape (bindE (if dyns \<noteq> [] \<and> length ds \<noteq> length dyns
        then Inl (InternalError ''Malformed shape proto: is_dynamic_dimension'')
        else add_dims_loop (Shape t (ArrayState [] [] None)) 0 ds dyns) (\<lambda>shape'.
       case lp of
         None \<Rightarrow> Inr shape'
       | Some lproto \<Rightarrow>
           if \<not> IsArray shape' then Inl (InternalError ''Malformed shape proto: should not have a layout.'')
           else bindE (Layout_FromProto lproto) (\<lambda>lay. set_layout shape' lay)))"
      by (rule sound_shape_layout [OF array_body_sound [OF 1] layout_IH])
    with 1 show ?thesis by (simp add: set_element_type_default)
  next
    case 2
    have "sound_shape (bindE (mapE Shape_FromProto tss) (\<lambda>ss. Inr (Shape TUPLE (TupleState ss))))"
      using tuple_IH mapE_Inr_all [of Shape_FromProto tss _ shape_consistent]
        no_crash_mapE [of tss Shape_FromProto]
      by (auto simp: sound_shape_def bindE_eq_Inr IsArray_def IsBuffer_def
          IsArrayExcludingBuffer_def intro!: no_crash_bindE)
    then show ?thesis
      using sound_shape_layout [OF _ layout_IH] 2 by (simp add: set_element_type_default)
  next
    case 3
    have "sound_shape (case tss of [b] \<Rightarrow> bindE (Shape_FromProto b) (\<lambda>b.
          if \<not> IsArrayExcludingBuffer b then Inl (InvalidArgument ''Buffer shape must have array shape.'')
          else Inr (Shape BUFFER (BufferState b)))
        | _ \<Rightarrow> Inl (InvalidArgument ''Buffer shape must have exactly one tuple shape.''))"
      using tuple_IH
      by (auto simp: sound_shape_def [of "Inl _"] intro!: buffer_body_sound split: list.split)
    then show ?thesis
      unfolding 3 Shape_FromProto.simps set_element_type_default bindE_Inr Shape.sel State.case
      by (rule sound_shape_layout [OF _ layout_IH])
  next
    case 4
    then obtain s where s: "set_element_type default_shape t = Inr s" "shape_consistent s" "\<not> IsArray s"
      "shape_state s \<in> {TokenState, OpaqueState, InvalidState}"
      using default_shape_sel by (auto simp: set_element_type_default shape_class_defs)
    then have "sound_shape (Inr s)" by (simp add: sound_shape_def)
    from sound_shape_layout [OF this layout_IH] s show ?thesis by auto
  qed
next
  fix m2m tps tp it pt es ms scs ps dm
  assume "\<And>p. p \<in> set_option ps \<Longrightarrow> sound_shape (Shape_FromProto p)"
  then show "no_crash (Layout_FromProto (LayoutProto m2m tps tp it pt es ms scs ps dm))"
    by (auto simp: Let_def sound_shape_def split: option.split
        intro!: no_crash_bindE no_crash_mapE no_crash_Tile)
qed

text \<open>
  C8. Reading a message never stops the process, whatever its fields hold, and a shape that is
  returned has an element type matching its state and parallel dynamic flags at every level.
\<close>

theorem Shape_FromProto_never_crashes:
  "no_crash (Shape_FromProto p) \<and> (\<forall>s. Shape_FromProto p = Inr s \<longrightarrow> shape_consistent s)"
  using FromProto_sound [of p] by (simp add: sound_shape_def)

theorem Shape_FromProto_never_crashes_witness:
  "no_crash (Shape_FromProto (ShapeProto TUPLE [1] [True, False] [ShapeProto BUFFER [] [] [] None] None)) \<and>
   Shape_FromProto (ShapeProto F32 [7] [True] [] None) = Inr (Shape F32 (ArrayState [7] [True] None)) \<and>
   shape_consistent (Shape F32 (ArrayState [7] [True] None))"
proof -
  have s: "Shape_FromProto (ShapeProto F32 [7] [True] [] None) = Inr (Shape F32 (ArrayState [7] [True] None))"
    by code_simp
  then show ?thesis using Shape_FromProto_never_crashes by blast
qed

end
