(* ===== verification/ShapeEqual.thy ===== *)
theory ShapeEqual
  imports Shape
begin

text \<open>
  The configurable equality functors \<open>Shape::Equal\<close> (\<open>xla/shape.h\<close>, \<open>xla/shape.cc\<close>) and
  \<open>Layout::Equal\<close> (\<open>xla/layout.h\<close>, \<open>xla/layout.cc\<close>).
\<close>

section \<open>Functors\<close>

record LayoutEqual =
  ignore_tiles :: bool
  ignore_tail_padding_alignment_in_elements :: bool
  ignore_element_size :: bool
  ignore_index_primitive_type :: bool
  ignore_pointer_primitive_type :: bool
  ignore_memory_space :: bool
  ignore_split_configs :: bool
  ignore_physical_shape :: bool

record ShapeEqual =
  ignore_layout :: bool
  ignore_tiles_in_layout :: bool
  ignore_element_size_in_layout :: bool
  ignore_memory_space_in_layout :: bool
  ignore_element_type :: bool
  ignore_fp_precision :: bool
  ignore_dynamic_dimension :: bool
  ignore_dimensions :: bool
  ignore_tail_padding_alignment_in_elements_in_layout :: bool
  ignore_split_config_in_layout :: bool
  ignore_buffer :: bool

definition Shape_Equal_default :: ShapeEqual where
  "Shape_Equal_default =
     \<lparr>ignore_layout = False, ignore_tiles_in_layout = False, ignore_element_size_in_layout = False,
      ignore_memory_space_in_layout = False, ignore_element_type = False, ignore_fp_precision = False,
      ignore_dynamic_dimension = False, ignore_dimensions = False,
      ignore_tail_padding_alignment_in_elements_in_layout = False,
      ignore_split_config_in_layout = False, ignore_buffer = False\<rparr>"

definition MinorToMajorOnlyInLayout :: "ShapeEqual \<Rightarrow> ShapeEqual" where
  "MinorToMajorOnlyInLayout f = f\<lparr>ignore_tiles_in_layout := True, ignore_element_size_in_layout := True,
     ignore_memory_space_in_layout := True, ignore_tail_padding_alignment_in_elements_in_layout := True,
     ignore_split_config_in_layout := True\<rparr>"

text \<open>The layout functor that \<open>Shape::Equal\<close> configures from its own flags.\<close>

definition layout_functor :: "ShapeEqual \<Rightarrow> LayoutEqual" where
  "layout_functor f =
     \<lparr>ignore_tiles = ignore_tiles_in_layout f,
      ignore_tail_padding_alignment_in_elements = ignore_tail_padding_alignment_in_elements_in_layout f,
      ignore_element_size = ignore_element_size_in_layout f, ignore_index_primitive_type = False,
      ignore_pointer_primitive_type = False, ignore_memory_space = ignore_memory_space_in_layout f,
      ignore_split_configs = ignore_split_config_in_layout f, ignore_physical_shape = False\<rparr>"

definition same_element_type :: "ShapeEqual \<Rightarrow> PrimitiveType \<Rightarrow> PrimitiveType \<Rightarrow> bool" where
  "same_element_type f t t' \<longleftrightarrow>
     ignore_element_type f \<or>
     (if ignore_fp_precision f then (IsFloatingPointType t \<and> IsFloatingPointType t') \<or> t = t' else t = t')"

definition same_dimension :: "ShapeEqual \<Rightarrow> int \<Rightarrow> int \<Rightarrow> bool" where
  "same_dimension f d d' \<longleftrightarrow>
     d = d' \<or> ignore_dynamic_dimension f \<and> (d = kUnboundedSize \<or> d' = kUnboundedSize)"

definition same_dimensions :: "ShapeEqual \<Rightarrow> int list \<Rightarrow> int list \<Rightarrow> bool" where
  "same_dimensions f ds ds' \<longleftrightarrow>
     (if \<not> ignore_dimensions f then list_all2 (same_dimension f) ds ds' else length ds = length ds')"

text \<open>
  \<open>Shape::Equal::operator()\<close> and \<open>Layout::Equal::operator()\<close>. The categories are read off the
  variant, which the class invariant ties to the element type. A physical shape is compared with
  \<open>operator!=\<close>, that is, with all fields.
\<close>

fun Shape_Equal :: "ShapeEqual \<Rightarrow> Shape \<Rightarrow> Shape \<Rightarrow> bool"
and Layout_Equal :: "LayoutEqual \<Rightarrow> Layout \<Rightarrow> Layout \<Rightarrow> bool" where
  "Shape_Equal f (Shape t st) (Shape t' st') =
     (case st of
        TupleState ss \<Rightarrow>
          (case st' of TupleState ss' \<Rightarrow> list_all2 (Shape_Equal f) ss ss' | _ \<Rightarrow> False)
      | BufferState b \<Rightarrow>
          (case st' of
             BufferState b' \<Rightarrow> Shape_Equal f b b'
           | _ \<Rightarrow> ignore_buffer f \<and> Shape_Equal f b (Shape t' st'))
      | ArrayState ds dy l \<Rightarrow>
          (case st' of
             BufferState b' \<Rightarrow> ignore_buffer f \<and> Shape_Equal f (Shape t st) b'
           | ArrayState ds' dy' l' \<Rightarrow>
               same_element_type f t t' \<and> same_dimensions f ds ds' \<and>
               (ignore_layout f \<or>
                (case l of
                   None \<Rightarrow> l' = None
                 | Some lay \<Rightarrow>
                     (case l' of None \<Rightarrow> False
                      | Some lay' \<Rightarrow> Layout_Equal (layout_functor f) lay lay'))) \<and>
               (ignore_dynamic_dimension f \<or> dy = dy')
           | _ \<Rightarrow> False)
      | _ \<Rightarrow>
          (case st' of
             BufferState b' \<Rightarrow> ignore_buffer f \<and> Shape_Equal f (Shape t st) b'
           | _ \<Rightarrow> t = t'))"
| "Layout_Equal g (Layout it pt ms es m2m ts scs tp ps dm) (Layout it' pt' ms' es' m2m' ts' scs' tp' ps' dm') =
     (m2m = m2m' \<and> (ignore_tiles g \<or> ts = ts') \<and>
      (ignore_tail_padding_alignment_in_elements g \<or> tp = tp') \<and>
      (ignore_index_primitive_type g \<or> it = it') \<and>
      (ignore_pointer_primitive_type g \<or> pt = pt') \<and>
      (ignore_element_size g \<or> es = es') \<and>
      (ignore_memory_space g \<or> ms = ms') \<and>
      (ignore_split_configs g \<or> scs = scs') \<and>
      (ignore_physical_shape g \<or>
       (case ps of None \<Rightarrow> ps' = None
        | Some p \<Rightarrow> (case ps' of None \<Rightarrow> False | Some p' \<Rightarrow> Shape_Equal Shape_Equal_default p p'))))"

definition Shape_eq :: "Shape \<Rightarrow> Shape \<Rightarrow> bool" where
  "Shape_eq s s' = Shape_Equal Shape_Equal_default s s'"

section \<open>What equality decides\<close>

text \<open>
  The one field no functor compares is \<open>dynamic_shape_metadata_prefix_bytes\<close>; \<open>forget_prefix\<close>
  sets it to zero throughout a shape.
\<close>

fun forget_prefix :: "Shape \<Rightarrow> Shape"
and forget_prefix_layout :: "Layout \<Rightarrow> Layout" where
  "forget_prefix (Shape t (ArrayState ds dy l)) = Shape t (ArrayState ds dy (map_option forget_prefix_layout l))"
| "forget_prefix (Shape t (TupleState ss)) = Shape t (TupleState (map forget_prefix ss))"
| "forget_prefix (Shape t (BufferState b)) = Shape t (BufferState (forget_prefix b))"
| "forget_prefix (Shape t st) = Shape t st"
| "forget_prefix_layout (Layout it pt ms es m2m ts scs tp ps dm) =
     Layout it pt ms es m2m ts scs tp (map_option forget_prefix ps) 0"

text \<open>The element type matches the variant at every level, physical shapes included.\<close>

fun typed :: "Shape \<Rightarrow> bool"
and typed_layout :: "Layout \<Rightarrow> bool" where
  "typed (Shape t (ArrayState ds dy l)) \<longleftrightarrow> IsArrayType t \<and> pred_option typed_layout l"
| "typed (Shape t (TupleState ss)) \<longleftrightarrow> t = TUPLE \<and> list_all typed ss"
| "typed (Shape t (BufferState b)) \<longleftrightarrow> t = BUFFER \<and> typed b \<and> (IsArrayExcludingBuffer b \<or> b = default_shape)"
| "typed (Shape t TokenState) \<longleftrightarrow> t = TOKEN"
| "typed (Shape t OpaqueState) \<longleftrightarrow> t = OPAQUE_TYPE"
| "typed (Shape t InvalidState) \<longleftrightarrow> t = PRIMITIVE_TYPE_INVALID"
| "typed_layout (Layout it pt ms es m2m ts scs tp ps dm) \<longleftrightarrow> pred_option typed ps"

lemma list_all2_iff_map_eq:
  "(\<And>x y. x \<in> set xs \<Longrightarrow> y \<in> set ys \<Longrightarrow> P x y \<longleftrightarrow> f x = f y) \<Longrightarrow>
   list_all2 P xs ys \<longleftrightarrow> map f xs = map f ys"
  by (auto simp: list_all2_conv_all_nth list_eq_iff_nth_eq)

lemma same_dimension_default: "same_dimension Shape_Equal_default = (=)"
  by (auto simp: same_dimension_def Shape_Equal_default_def fun_eq_iff)

lemma same_default [simp]:
  "same_element_type Shape_Equal_default t t' \<longleftrightarrow> t = t'"
  "same_dimensions Shape_Equal_default ds ds' \<longleftrightarrow> ds = ds'"
  by (auto simp: same_element_type_def same_dimensions_def same_dimension_default list.rel_eq)
    (auto simp: Shape_Equal_default_def)

lemma default_flags [simp]:
  "\<not> ignore_layout Shape_Equal_default" "\<not> ignore_dynamic_dimension Shape_Equal_default"
  "\<not> ignore_buffer Shape_Equal_default"
  by (simp_all add: Shape_Equal_default_def)

lemma forget_prefix_category:
  "elt_type (forget_prefix s) = elt_type s"
  by (cases s rule: forget_prefix.cases) auto

lemma Shape_eq_iff_both:
  "typed s \<Longrightarrow> typed s' \<Longrightarrow>
     Shape_Equal Shape_Equal_default s s' \<longleftrightarrow> forget_prefix s = forget_prefix s'"
  "typed_layout l \<Longrightarrow> typed_layout l' \<Longrightarrow>
     Layout_Equal (layout_functor Shape_Equal_default) l l' \<longleftrightarrow>
     forget_prefix_layout l = forget_prefix_layout l'"
proof (induction s and l arbitrary: s' and l' rule: forget_prefix_forget_prefix_layout.induct)
  case (1 t ds dy l)
  then show ?case by (cases s' rule: forget_prefix.cases) (auto split: option.splits)
next
  case (2 t ss)
  then show ?case
    by (cases s' rule: forget_prefix.cases) (auto simp: list_all_iff intro!: list_all2_iff_map_eq)
next
  case (5 it pt ms es m2m ts scs tp ps dm)
  then show ?case
    by (cases l') (auto simp: layout_functor_def Shape_Equal_default_def split: option.splits)
qed (case_tac s' rule: forget_prefix.cases; auto)+

text \<open>
  C26. \<open>operator==\<close> on shapes decides equality of everything but the metadata prefix of dynamic
  shapes: two shapes compare equal exactly when they agree once that field is forgotten, so the
  relation is an equivalence.
\<close>

theorem Shape_eq_iff:
  assumes "typed s" "typed s'"
  shows "Shape_eq s s' \<longleftrightarrow> forget_prefix s = forget_prefix s'"
  using Shape_eq_iff_both(1) [OF assms] by (simp add: Shape_eq_def)

theorem Shape_eq_iff_witness:
  "\<not> Shape_eq (Shape F32 (ArrayState [2] [False] None)) (Shape F32 (ArrayState [2] [True] None)) \<and>
   Shape_eq (Shape TUPLE (TupleState [])) (Shape TUPLE (TupleState []))"
  using Shape_eq_iff [of "Shape F32 (ArrayState [2] [False] None)" "Shape F32 (ArrayState [2] [True] None)"]
    Shape_eq_iff [of "Shape TUPLE (TupleState [])" "Shape TUPLE (TupleState [])"]
  by (simp add: primitive_class_defs)

text \<open>
  The header says that \<open>operator==\<close> tests all fields; it accepts two different shapes whose
  layouts disagree on \<open>dynamic_shape_metadata_prefix_bytes\<close>.
\<close>

lemma Shape_eq_ignores_metadata_prefix:
  "Shape_eq (Shape F32 (ArrayState [2] [True]
      (Some (Layout PRIMITIVE_TYPE_INVALID PRIMITIVE_TYPE_INVALID 0 0 [0] [] [] 1 None 0))))
    (Shape F32 (ArrayState [2] [True]
      (Some (Layout PRIMITIVE_TYPE_INVALID PRIMITIVE_TYPE_INVALID 0 0 [0] [] [] 1 None 4))))"
  by (simp add: Shape_eq_def)

section \<open>Flags\<close>

lemma same_mono:
  "t = t' \<Longrightarrow> same_element_type f t t'" "ds = ds' \<Longrightarrow> same_dimensions f ds ds'"
  by (auto simp: same_element_type_def same_dimensions_def same_dimension_def list_all2_refl)

lemma Layout_Equal_mono:
  "Layout_Equal (layout_functor Shape_Equal_default) l l' \<Longrightarrow> Layout_Equal (layout_functor f) l l'"
  by (cases l; cases l') (auto simp: layout_functor_def Shape_Equal_default_def)

lemma Shape_Equal_mono:
  "Shape_Equal Shape_Equal_default s s' \<Longrightarrow> Shape_Equal f s s'"
proof (induction s arbitrary: s' rule: measure_induct_rule [of size])
  case (less s)
  obtain t st t' st' where s: "s = Shape t st" "s' = Shape t' st'" by (cases s; cases s')
  show ?case
  proof (cases st)
    case (TupleState ss)
    have "Shape_Equal f x y" if "x \<in> set ss" "Shape_Equal Shape_Equal_default x y" for x y
      using less.IH that TupleState s size_list_estimation' [of x ss "size x" size] by auto
    then show ?thesis
      using less.prems s TupleState by (auto split: State.splits intro: list.rel_mono_strong)
  qed (use less s in \<open>auto split: State.splits option.splits simp: same_mono intro: Layout_Equal_mono\<close>)
qed

lemma same_sym:
  "same_element_type f t t' = same_element_type f t' t" "same_dimensions f ds ds' = same_dimensions f ds' ds"
proof -
  have "same_dimension f d d' = same_dimension f d' d" for d d'
    by (auto simp: same_dimension_def)
  then show "same_dimensions f ds ds' = same_dimensions f ds' ds"
    by (auto simp: same_dimensions_def list_all2_conv_all_nth)
qed (auto simp: same_element_type_def)

lemma buffer_not_tuple:
  "typed (Shape BUFFER (BufferState b)) \<Longrightarrow> \<not> Shape_Equal f b (Shape TUPLE (TupleState ss))"
  by (cases b rule: forget_prefix.cases) (auto simp: IsArrayExcludingBuffer_def default_shape_def)

lemma state_pair_cases:
  obtains (tuples) ss ss' where "st = TupleState ss" "st' = TupleState ss'"
  | (arrays) ds dy l ds' dy' l' where "st = ArrayState ds dy l" "st' = ArrayState ds' dy' l'"
  | (others) "\<nexists>ss ss'. st = TupleState ss \<and> st' = TupleState ss'"
      "\<nexists>ds dy l ds' dy' l'. st = ArrayState ds dy l \<and> st' = ArrayState ds' dy' l'"
  by blast

lemma Equal_sym:
  "typed s \<Longrightarrow> typed s' \<Longrightarrow> Shape_Equal f s s' = Shape_Equal f s' s"
  "typed_layout l \<Longrightarrow> typed_layout l' \<Longrightarrow> Layout_Equal g l l' = Layout_Equal g l' l"
proof (induction f s s' and g l l' rule: Shape_Equal_Layout_Equal.induct)
  case (1 f t st t' st')
  show ?case
  proof (cases st st' rule: state_pair_cases)
    case (tuples ss ss')
    note ss = tuples
    have "Shape_Equal f x y = Shape_Equal f y x" if "x \<in> set ss" "y \<in> set ss'" for x y
    proof -
      have "typed x" "typed y" using "1.prems" ss that by (auto simp: list_all_iff)
      then show ?thesis using "1.IH" ss that by blast
    qed
    then have "list_all2 (Shape_Equal f) ss ss' \<longleftrightarrow> list_all2 (Shape_Equal f) ss' ss"
      by (auto simp: list_all2_conv_all_nth)
    then show ?thesis using ss by simp
  next
    case (arrays ds dy l ds' dy' l')
    have "Layout_Equal (layout_functor f) a b = Layout_Equal (layout_functor f) b a"
      if "l = Some a" "l' = Some b" for a b
    proof -
      have "typed_layout a" "typed_layout b" using "1.prems" arrays that by auto
      then show ?thesis using "1.IH" arrays that by blast
    qed
    then show ?thesis using arrays by (auto simp: same_sym split: option.splits)
  next
    case others
    then show ?thesis
      using 1 by (cases st; cases st') (auto simp: buffer_not_tuple)
  qed
next
  case (2 g it pt ms es m2m ts scs tp ps dm it' pt' ms' es' m2m' ts' scs' tp' ps' dm')
  then have "(case ps of None \<Rightarrow> ps' = None
        | Some p \<Rightarrow> (case ps' of None \<Rightarrow> False | Some p' \<Rightarrow> Shape_Equal Shape_Equal_default p p'))
      = (case ps' of None \<Rightarrow> ps = None
        | Some p' \<Rightarrow> (case ps of None \<Rightarrow> False | Some p \<Rightarrow> Shape_Equal Shape_Equal_default p' p))"
    if "\<not> ignore_physical_shape g"
    using that by (cases ps; cases ps') (simp_all, blast)
  then show ?case unfolding Layout_Equal.simps by metis
qed

text \<open>
  Whatever is configured to be ignored, the functor is symmetric and reflexive, and shapes
  that are equal on all compared fields stay equal under every configuration.
\<close>

lemma Shape_Equal_flags:
  assumes "typed s" "typed s'"
  shows "Shape_Equal f s s \<and> Shape_Equal f s s' = Shape_Equal f s' s \<and>
    (Shape_eq s s' \<longrightarrow> Shape_Equal f s s')"
  using Shape_Equal_mono [of s s' f] Shape_Equal_mono [of s s f] Equal_sym(1) [OF assms, of f]
    Shape_eq_iff_both(1) [OF assms(1) assms(1)]
  by (simp add: Shape_eq_def)

lemma Shape_Equal_flags_witness:
  "Shape_Equal (MinorToMajorOnlyInLayout Shape_Equal_default)
     (Shape F32 (ArrayState [2] [False] None)) (Shape F32 (ArrayState [2] [False] None))"
  using Shape_Equal_flags [of "Shape F32 (ArrayState [2] [False] None)" "Shape F32 (ArrayState [2] [False] None)"]
  by (simp add: primitive_class_defs)

end
