(* ===== verification/LayoutUtil.thy ===== *)
theory LayoutUtil
  imports ShapeProto ShapeEqual
begin

text \<open>
  \<open>xla/layout_util.h\<close> and \<open>xla/layout_util.cc\<close>: construction of layouts, default layouts,
  validation, the recursive operations on the layouts inside a shape, and split configurations.
  The linearisations of tiled layouts are in \<open>TiledIndex\<close>.
\<close>

section \<open>Accessors\<close>

text \<open>\<open>dimensions()\<close> and \<open>layout()\<close> with the failure of their \<open>CHECK\<close>s.\<close>

definition dimsE :: "Shape \<Rightarrow> int list status_or" where
  "dimsE s = bindE (array_state_maybe_underneath_buffer s) (\<lambda>(ds, _, _). Inr ds)"

definition layoutE :: "Shape \<Rightarrow> Layout status_or" where
  "layoutE s = bindE (array_state_maybe_underneath_buffer s)
     (\<lambda>(_, _, l). case l of Some lay \<Rightarrow> Inr lay | None \<Rightarrow> Inl (CheckFailed ''has_layout()''))"

definition MinorToMajor :: "Shape \<Rightarrow> int list status_or" where
  "MinorToMajor s = bindE (layoutE s) (\<lambda>l. Inr (minor_to_major l))"

definition Minor :: "Layout \<Rightarrow> int \<Rightarrow> int status_or" where
  "Minor l p = at_index (minor_to_major l) p"

definition Major :: "Layout \<Rightarrow> int \<Rightarrow> int status_or" where
  "Major l p = Minor l (int (length (minor_to_major l)) - 1 - p)"

section \<open>Construction\<close>

definition MakeLayout ::
  "int list \<Rightarrow> Tile list \<Rightarrow> int \<Rightarrow> PrimitiveType \<Rightarrow> PrimitiveType \<Rightarrow> int \<Rightarrow> int \<Rightarrow> SplitConfig list \<Rightarrow>
   Shape option \<Rightarrow> int \<Rightarrow> Layout status_or" where
  "MakeLayout m2m ts tail index_t pointer_t esize mspace scs phys prefix =
     (if list_ex (\<lambda>t. list_ex (\<lambda>d. d < 0 \<and> d \<noteq> kCombineDimension) (tile_dimensions t)) ts
      then Inl (CheckFailed ''Tile dimension size needs to be minimum int64_t value if it's negative'')
      else if \<not> tail \<ge> 1 then Inl (CheckFailed ''value >= 1'')
      else Inr (Layout index_t pointer_t (wrap8 mspace) esize m2m ts scs tail phys prefix))"

text \<open>The default arguments of \<open>MakeLayout\<close> give the layout with only an order of dimensions.\<close>

definition MakeDescendingLayout :: "nat \<Rightarrow> Layout status_or" where
  "MakeDescendingLayout n =
     MakeLayout (rev (map int [0..<n])) [] 1 PRIMITIVE_TYPE_INVALID PRIMITIVE_TYPE_INVALID 0 0 [] None 0"

definition MakeAscendingLayout :: "nat \<Rightarrow> Layout status_or" where
  "MakeAscendingLayout n =
     MakeLayout (map int [0..<n]) [] 1 PRIMITIVE_TYPE_INVALID PRIMITIVE_TYPE_INVALID 0 0 [] None 0"

definition MakeLayoutFromMajorToMinor :: "int list \<Rightarrow> Layout" where
  "MakeLayoutFromMajorToMinor major_to_minor = simple_layout (rev major_to_minor)"

definition HasDescendingLayout :: "Layout \<Rightarrow> bool" where
  "HasDescendingLayout l = sorted_wrt (\<ge>) (minor_to_major l)"

definition HasAscendingLayout :: "Layout \<Rightarrow> bool" where
  "HasAscendingLayout l = sorted_wrt (\<le>) (minor_to_major l)"

definition SetDefaultLayoutToContainer :: "nat \<Rightarrow> int list" where
  "SetDefaultLayoutToContainer n = map (\<lambda>i. int n - 1 - int i) [0..<n]"

definition CreateDefaultLayoutForRank :: "nat \<Rightarrow> Layout" where
  "CreateDefaultLayoutForRank n = simple_layout (SetDefaultLayoutToContainer n)"

definition GetDefaultLayoutForShape :: "Shape \<Rightarrow> Layout status_or" where
  "GetDefaultLayoutForShape s =
     (if IsOpaque s \<or> IsToken s then Inr (simple_layout [])
      else if \<not> IsArray s then Inl (CheckFailed ''shape.IsArray()'')
      else bindE (dimsE s) (\<lambda>ds. Inr (CreateDefaultLayoutForRank (length ds))))"

text \<open>\<open>mutable_layout\<close> creates an empty layout when there is none; the order is then overwritten.\<close>

definition set_minor_to_major :: "int list \<Rightarrow> Layout \<Rightarrow> Layout" where
  "set_minor_to_major m l =
     (case l of Layout it pt ms es m2m ts scs tp ps dm \<Rightarrow> Layout it pt ms es m ts scs tp ps dm)"

definition set_default_array_layout :: "Shape \<Rightarrow> Shape status_or" where
  "set_default_array_layout s =
     bindE (array_state_maybe_underneath_buffer s) (\<lambda>(ds, dy, l).
       let lay = (case l of Some lay \<Rightarrow> lay | None \<Rightarrow> simple_layout [])
       in Inr (put_array_state s
            (ds, dy, Some (set_minor_to_major (SetDefaultLayoutToContainer (length ds)) lay))))"

fun SetToDefaultLayout :: "Shape \<Rightarrow> Shape status_or" where
  "SetToDefaultLayout (Shape t st) =
     (if t = TUPLE then
        (case st of
           TupleState ss \<Rightarrow> bindE (mapE SetToDefaultLayout ss) (\<lambda>ss'. Inr (Shape t (TupleState ss')))
         | _ \<Rightarrow> Inl (CheckFailed ''Expected a tuple shape''))
      else if IsArray (Shape t st) then set_default_array_layout (Shape t st)
      else Inr (Shape t st))"

definition SetToDefaultLayout_program :: "ProgramShape \<Rightarrow> ProgramShape status_or" where
  "SetToDefaultLayout_program p =
     bindE (mapE SetToDefaultLayout (parameters p)) (\<lambda>ps.
     bindE (SetToDefaultLayout (result p)) (\<lambda>r.
       Inr (p\<lparr>parameters := ps, result := r\<rparr>)))"

fun ClearLayout :: "Shape \<Rightarrow> Shape status_or" where
  "ClearLayout (Shape t st) =
     (if IsArray (Shape t st) then clear_layout (Shape t st)
      else if t = TUPLE then
        (case st of
           TupleState ss \<Rightarrow> bindE (mapE ClearLayout ss) (\<lambda>ss'. Inr (Shape t (TupleState ss')))
         | _ \<Rightarrow> Inl (CheckFailed ''Expected a tuple shape''))
      else Inr (Shape t st))"

definition ClearLayout_program :: "ProgramShape \<Rightarrow> ProgramShape status_or" where
  "ClearLayout_program p =
     bindE (mapE ClearLayout (parameters p)) (\<lambda>ps.
     bindE (ClearLayout (result p)) (\<lambda>r.
       Inr (p\<lparr>parameters := ps, result := r\<rparr>)))"

section \<open>Validation\<close>

text \<open>
  The loop over \<open>minor_to_major\<close> with its vector \<open>dimensions_in_layout\<close>, and the loop over the
  split configurations with its vector \<open>physical_dims_in_split_config\<close>.
\<close>

fun validate_order :: "nat \<Rightarrow> bool list \<Rightarrow> int list \<Rightarrow> unit status_or" where
  "validate_order n seen [] = Inr ()"
| "validate_order n seen (dim # rest) =
     (if dim < 0 \<or> dim \<ge> int n
      then Inl (InvalidArgument ''layout minor_to_major field has out-of-bounds value'')
      else if seen ! nat dim
      then Inl (InvalidArgument ''layout minor_to_major field has duplicate values'')
      else validate_order n (seen[nat dim := True]) rest)"

fun validate_split_indices :: "int \<Rightarrow> int \<Rightarrow> int list \<Rightarrow> unit status_or" where
  "validate_split_indices dim_size last_split_index [] = Inr ()"
| "validate_split_indices dim_size last_split_index (split_index # rest) =
     (if split_index \<le> last_split_index
      then Inl (InvalidArgument ''split config split indices must be strictly increasing and positive'')
      else if split_index \<ge> dim_size
      then Inl (InvalidArgument ''split config split index is out of bounds'')
      else validate_split_indices dim_size split_index rest)"

fun validate_split_configs :: "Layout \<Rightarrow> int list \<Rightarrow> bool list \<Rightarrow> SplitConfig list \<Rightarrow> unit status_or" where
  "validate_split_configs l ds seen [] = Inr ()"
| "validate_split_configs l ds seen (c # rest) =
     (let physical_dim = sc_dimension c in
      if physical_dim < 0 \<or> physical_dim \<ge> int (length ds)
      then Inl (InvalidArgument ''split config has out-of-bounds physical dimension'')
      else if seen ! nat physical_dim
      then Inl (InvalidArgument ''split config has duplicate physical dimension'')
      else bindE (Major l physical_dim) (\<lambda>logical_dim.
           bindE (at_index ds logical_dim) (\<lambda>dim_size.
           bindE (validate_split_indices dim_size 0 (split_indices c)) (\<lambda>_.
             validate_split_configs l ds (seen[nat physical_dim := True]) rest))))"

definition validate_tile :: "Tile \<Rightarrow> unit status_or" where
  "validate_tile t =
     (if tile_dimensions t = [] then Inl (InvalidArgument ''layout has invalid tiles'')
      else for_each (\<lambda>d. if d \<le> 0 \<and> d \<noteq> kCombineDimension
                          then Inl (InvalidArgument ''layout has invalid tiles: tile dimension'')
                          else Inr ()) (tile_dimensions t))"

definition ValidateLayoutForShape :: "Layout \<Rightarrow> Shape \<Rightarrow> unit status_or" where
  "ValidateLayoutForShape l s =
     (if IsTuple s then Inl (InvalidArgument ''a single Layout is not valid for tuple shapes'')
      else if \<not> IsArray s then Inr ()
      else bindE (dimsE s) (\<lambda>ds.
        if length (minor_to_major l) \<noteq> length ds
        then Inl (InvalidArgument ''layout minor_to_major field contains %d elements, but shape has %d dimensions'')
        else bindE (validate_order (length ds) (replicate (length ds) False) (minor_to_major l)) (\<lambda>_.
        if tail_padding_alignment_in_elements l \<le> 0
        then Inl (InvalidArgument ''layout tail_padding_alignment_in_elements field is <= 0'')
        else if index_primitive_type l \<noteq> PRIMITIVE_TYPE_INVALID
        then Inl (InvalidArgument ''layout has a index_primitive_type, but is not a sparse array'')
        else if pointer_primitive_type l \<noteq> PRIMITIVE_TYPE_INVALID
        then Inl (InvalidArgument ''layout has a pointer_primitive_type, but is not a sparse array'')
        else if physical_shape l \<noteq> None
        then Inl (InvalidArgument ''layout has a physical_shape, but is not a sparse array'')
        else bindE (for_each validate_tile (tiles l)) (\<lambda>_.
        if element_size_in_bits l < 0
        then Inl (InvalidArgument ''layout element_size_in_bits field is negative'')
        else validate_split_configs l ds (replicate (length ds) False) (split_configs l)))))"

fun ValidateLayoutInShape :: "bool \<Rightarrow> Shape \<Rightarrow> unit status_or" where
  "ValidateLayoutInShape allow_missing_layouts (Shape t st) =
     (if t = TUPLE then
        (case st of
           TupleState ss \<Rightarrow> for_each (ValidateLayoutInShape allow_missing_layouts) ss
         | _ \<Rightarrow> Inl (CheckFailed ''Expected a tuple shape''))
      else if IsArray (Shape t st) then
        bindE (has_layout (Shape t st)) (\<lambda>h.
        if \<not> h then
          (if allow_missing_layouts then Inr () else Inl (InvalidArgument ''shape does not have a layout''))
        else bindE (layoutE (Shape t st)) (\<lambda>l. ValidateLayoutForShape l (Shape t st)))
      else Inr ())"

section \<open>Queries and updates of the layouts inside a shape\<close>

fun HasLayout :: "Shape \<Rightarrow> bool status_or" where
  "HasLayout (Shape t st) =
     (if t = TUPLE then
        (case st of TupleState ss \<Rightarrow> all_ofE HasLayout ss
         | _ \<Rightarrow> Inl (CheckFailed ''Expected a tuple shape''))
      else if \<not> IsArray (Shape t st) then Inr True
      else has_layout (Shape t st))"

fun HasAnyLayout :: "Shape \<Rightarrow> bool status_or" where
  "HasAnyLayout (Shape t st) =
     (if t = TUPLE then
        (case st of TupleState ss \<Rightarrow> any_ofE HasAnyLayout ss
         | _ \<Rightarrow> Inl (CheckFailed ''Expected a tuple shape''))
      else if \<not> IsArray (Shape t st) then Inr True
      else has_layout (Shape t st))"

definition HasLayout_program :: "ProgramShape \<Rightarrow> bool status_or" where
  "HasLayout_program p =
     bindE (all_ofE HasLayout (parameters p)) (\<lambda>b. if \<not> b then Inr False else HasLayout (result p))"

fun HasCustomElementSizeInBits :: "Shape \<Rightarrow> bool status_or" where
  "HasCustomElementSizeInBits (Shape t st) =
     (if t = TUPLE then
        (case st of TupleState ss \<Rightarrow> any_ofE HasCustomElementSizeInBits ss
         | _ \<Rightarrow> Inl (CheckFailed ''Expected a tuple shape''))
      else if \<not> IsArray (Shape t st) then Inr False
      else bindE (has_layout (Shape t st)) (\<lambda>h.
           if \<not> h then Inr False
           else bindE (layoutE (Shape t st)) (\<lambda>l. Inr (element_size_in_bits l \<noteq> 0))))"

definition clear_tiles :: "Layout \<Rightarrow> Layout" where
  "clear_tiles l =
     (case l of Layout it pt ms es m2m ts scs tp ps dm \<Rightarrow> Layout it pt ms es m2m [] scs tp ps dm)"

fun ClearTiles :: "Shape \<Rightarrow> Shape status_or" where
  "ClearTiles (Shape t st) =
     (case st of
        TupleState ss \<Rightarrow> bindE (mapE ClearTiles ss) (\<lambda>ss'. Inr (Shape t (TupleState ss')))
      | _ \<Rightarrow>
          bindE (has_layout (Shape t st)) (\<lambda>h.
            if \<not> h then Inr (Shape t st)
            else bindE (layoutE (Shape t st)) (\<lambda>l. set_layout (Shape t st) (clear_tiles l))))"

definition IsMonotonicWithDim0Minor :: "Layout \<Rightarrow> bool" where
  "IsMonotonicWithDim0Minor l = sorted_wrt (\<le>) (minor_to_major l)"

definition IsMonotonicWithDim0Major :: "Layout \<Rightarrow> bool" where
  "IsMonotonicWithDim0Major l = sorted_wrt (\<ge>) (minor_to_major l)"

text \<open>
  \<open>MakeLogicalToPhysical\<close>: \<open>logical_to_physical[Major(layout, physical)] = physical\<close> for every
  physical dimension; a write outside the vector stops.
\<close>

fun logical_to_physical_loop :: "Layout \<Rightarrow> int list \<Rightarrow> int list \<Rightarrow> int list status_or" where
  "logical_to_physical_loop l acc [] = Inr acc"
| "logical_to_physical_loop l acc (physical # rest) =
     bindE (Major l physical) (\<lambda>logical.
     bindE (at_index acc logical) (\<lambda>_.
       logical_to_physical_loop l (acc[nat logical := physical]) rest))"

definition MakeLogicalToPhysical :: "Layout \<Rightarrow> int list status_or" where
  "MakeLogicalToPhysical l =
     (let n = length (minor_to_major l)
      in logical_to_physical_loop l (replicate n 0) (map int [0..<n]))"

text \<open>
  \<open>CopyLayoutInternal\<close> returns the updated destination; after an error the caller's destination
  may have been updated in part, and only the status is modelled.
\<close>

fun CopyLayoutInternal :: "Shape \<Rightarrow> Shape \<Rightarrow> Shape status_or" where
  "CopyLayoutInternal (Shape t st) dst =
     (if (t = TUPLE) \<noteq> IsTuple dst
      then Inl (InvalidArgument ''cannot copy layout from shape: shape structure differs'')
      else if t = TUPLE then
        (case st of
           TupleState ss \<Rightarrow>
             (case shape_state dst of
                TupleState ds \<Rightarrow>
                  if length ss \<noteq> length ds
                  then Inl (InvalidArgument ''cannot copy layout from shape: tuple element count differs'')
                  else bindE (mapE (\<lambda>(a, b). CopyLayoutInternal a b) (zip ss ds))
                         (\<lambda>ds'. Inr (Shape (elt_type dst) (TupleState ds')))
              | _ \<Rightarrow> Inl (CheckFailed ''Expected a tuple shape''))
         | _ \<Rightarrow> Inl (CheckFailed ''Expected a tuple shape''))
      else if IsArray (Shape t st) then
        bindE (has_layout (Shape t st)) (\<lambda>h.
        if h then
          bindE (dimsE (Shape t st)) (\<lambda>sd.
          bindE (dimsE dst) (\<lambda>dd.
          if length sd \<noteq> length dd
          then Inl (InvalidArgument ''cannot copy layout from shape: ranks differs'')
          else bindE (layoutE (Shape t st)) (\<lambda>l.
               bindE (ValidateLayoutForShape l dst) (\<lambda>_. set_layout dst l))))
        else clear_layout dst)
      else Inr dst)"

definition CopyLayoutBetweenShapes :: "Shape \<Rightarrow> Shape \<Rightarrow> Shape status_or" where
  "CopyLayoutBetweenShapes src dst = CopyLayoutInternal src dst"

text \<open>\<open>LayoutUtil::Equal\<close> is \<open>operator==\<close> of layouts, the functor that ignores nothing.\<close>

definition Layout_Equal_default :: LayoutEqual where
  "Layout_Equal_default =
     \<lparr>ignore_tiles = False, ignore_tail_padding_alignment_in_elements = False,
      ignore_element_size = False, ignore_index_primitive_type = False,
      ignore_pointer_primitive_type = False, ignore_memory_space = False,
      ignore_split_configs = False, ignore_physical_shape = False\<rparr>"

text \<open>The recursive call for tuple elements leaves the argument \<open>equal\<close> at its default.\<close>

fun LayoutsInShapesEqual :: "Shape \<Rightarrow> Shape \<Rightarrow> LayoutEqual option \<Rightarrow> bool status_or" where
  "LayoutsInShapesEqual (Shape t st) rhs equal =
     (if t = TUPLE then
        (case st of
           TupleState ss \<Rightarrow>
             if \<not> IsTuple rhs then Inr False
             else (case shape_state rhs of
                     TupleState rs \<Rightarrow>
                       if length ss \<noteq> length rs then Inr False
                       else all_ofE (\<lambda>(a, b). LayoutsInShapesEqual a b None) (zip ss rs)
                   | _ \<Rightarrow> Inl (CheckFailed ''Expected a tuple shape''))
         | _ \<Rightarrow> Inl (CheckFailed ''Expected a tuple shape''))
      else if IsArray (Shape t st) then
        bindE (dimsE (Shape t st)) (\<lambda>ld.
        bindE (dimsE rhs) (\<lambda>rd.
        if length ld \<noteq> length rd then Inr False
        else bindE (has_layout (Shape t st)) (\<lambda>lh.
             bindE (has_layout rhs) (\<lambda>rh.
             if \<not> lh \<and> \<not> rh then Inr True
             else if \<not> lh \<or> \<not> rh then Inr False
             else bindE (layoutE (Shape t st)) (\<lambda>ll.
                  bindE (layoutE rhs) (\<lambda>rl.
                  Inr (case equal of Some eq \<Rightarrow> Layout_Equal eq ll rl
                       | None \<Rightarrow> Layout_Equal Layout_Equal_default ll rl)))))))
      else Inr True)"

section \<open>Orders of dimensions\<close>

fun PositionInContainer :: "'a list \<Rightarrow> 'a \<Rightarrow> int" where
  "PositionInContainer [] v = 0"
| "PositionInContainer (x # xs) v = (if x = v then 0 else 1 + PositionInContainer xs v)"

fun steps_of_one :: "int list \<Rightarrow> bool" where
  "steps_of_one (a # b # rest) = (if 1 \<noteq> b - a then False else steps_of_one (b # rest))"
| "steps_of_one _ = True"

definition AreDimensionsConsecutive :: "Layout \<Rightarrow> int list \<Rightarrow> bool" where
  "AreDimensionsConsecutive l dims =
     steps_of_one (sort (map (PositionInContainer (minor_to_major l)) dims))"

definition MoveDimToMajor :: "Layout \<Rightarrow> int \<Rightarrow> Layout status_or" where
  "MoveDimToMajor l dim =
     (if minor_to_major l = [] then Inl (CheckFailed ''back() of an empty span'')
      else if dim = last (minor_to_major l) then Inr l
      else Inr (set_minor_to_major (filter (\<lambda>d. d \<noteq> dim) (minor_to_major l) @ [dim]) l))"

definition MoveDimToMinor :: "Layout \<Rightarrow> int \<Rightarrow> Layout status_or" where
  "MoveDimToMinor l dim =
     (if minor_to_major l = [] then Inl (CheckFailed ''front() of an empty span'')
      else if dim = hd (minor_to_major l) then Inr l
      else Inr (set_minor_to_major (dim # filter (\<lambda>d. d \<noteq> dim) (minor_to_major l)) l))"

definition MemorySpace :: "Shape \<Rightarrow> int status_or" where
  "MemorySpace s =
     bindE (has_layout s) (\<lambda>h. if h then bindE (layoutE s) (\<lambda>l. Inr (memory_space l)) else Inr 0)"

text \<open>The loop of \<open>ByteStridesIsMajorToMinor\<close> runs from the last dimension to the first.\<close>

fun strides_loop :: "int \<Rightarrow> (int \<times> int) list \<Rightarrow> bool" where
  "strides_loop stride [] = True"
| "strides_loop stride ((bs, d) # rest) = (if bs \<noteq> stride then False else strides_loop (stride * d) rest)"

definition ByteStridesIsMajorToMinor ::
  "native_limits \<Rightarrow> int list \<Rightarrow> int list \<Rightarrow> PrimitiveType \<Rightarrow> bool status_or" where
  "ByteStridesIsMajorToMinor L byte_strides dims t =
     (if length dims \<noteq> length byte_strides then Inl (CheckFailed ''dims.size() == byte_strides.size()'')
      else bindE (ByteWidth L t) (\<lambda>stride. Inr (strides_loop stride (rev (zip byte_strides dims)))))"

section \<open>Split configurations\<close>

text \<open>
  \<open>MaxSplitSize\<close> reads the 64-bit split indices through a loop variable of type \<open>int\<close>, which
  keeps the low 32 bits.
\<close>

definition wrap32 :: "int \<Rightarrow> int" where
  "wrap32 x = (x + 2147483648) mod 4294967296 - 2147483648"

fun max_split_loop :: "int \<Rightarrow> int \<Rightarrow> int list \<Rightarrow> int \<times> int" where
  "max_split_loop mx prev [] = (mx, prev)"
| "max_split_loop mx prev (x # rest) =
     (let split_index = wrap32 x in max_split_loop (max (split_index - prev) mx) split_index rest)"

fun find_split_config :: "Layout \<Rightarrow> int \<Rightarrow> SplitConfig list \<Rightarrow> SplitConfig option status_or" where
  "find_split_config l dim [] = Inr None"
| "find_split_config l dim (c # rest) =
     bindE (Major l (sc_dimension c)) (\<lambda>logical.
       if logical = dim then Inr (Some c) else find_split_config l dim rest)"

definition MaxSplitSize :: "Shape \<Rightarrow> int \<Rightarrow> int status_or" where
  "MaxSplitSize s dim =
     (if \<not> IsArray s then Inl (CheckFailed ''shape.IsArray()'') else
      bindE (has_layout s) (\<lambda>h.
      bindE (dimsE s) (\<lambda>ds.
      if \<not> h then at_index ds dim else
      bindE (layoutE s) (\<lambda>l.
      bindE (find_split_config l dim (split_configs l)) (\<lambda>found.
      case found of
        Some c \<Rightarrow>
          bindE (at_index ds dim) (\<lambda>d.
            let (mx, prev) = max_split_loop 0 0 (split_indices c) in Inr (max mx (d - prev)))
      | None \<Rightarrow> at_index ds dim)))))"

definition MaxElementsInPerSplit :: "Shape \<Rightarrow> int status_or" where
  "MaxElementsInPerSplit s =
     (if \<not> IsArray s then Inl (CheckFailed ''shape.IsArray()'') else
      bindE (dimsE s) (\<lambda>ds.
        foldE (\<lambda>acc dim. bindE (MaxSplitSize s dim) (\<lambda>m. Inr (acc * m))) 1 (map int [0..<length ds])))"

definition GetSplitConfig :: "Shape \<Rightarrow> SplitConfig option status_or" where
  "GetSplitConfig s =
     bindE (layoutE s) (\<lambda>l.
       if \<not> length (split_configs l) \<le> 1 then Inl (CheckFailed ''configs.size() <= 1'')
       else Inr (case split_configs l of [] \<Rightarrow> None | c # _ \<Rightarrow> Some c))"

section \<open>What validation accepts\<close>

definition tile_ok :: "Tile \<Rightarrow> bool" where
  "tile_ok t \<longleftrightarrow> tile_dimensions t \<noteq> [] \<and> (\<forall>d\<in>set (tile_dimensions t). 0 < d \<or> d = kCombineDimension)"

text \<open>A split configuration cuts one physical dimension at increasing positions inside it.\<close>

definition split_ok :: "Layout \<Rightarrow> int list \<Rightarrow> SplitConfig \<Rightarrow> bool" where
  "split_ok l ds c \<longleftrightarrow>
     (let p = sc_dimension c; n = length ds in
      0 \<le> p \<and> p < int n \<and>
      sorted_wrt (<) (0 # split_indices c) \<and>
      (\<forall>i\<in>set (split_indices c). i < ds ! nat (minor_to_major l ! (n - Suc (nat p)))))"

definition layout_ok :: "Layout \<Rightarrow> int list \<Rightarrow> bool" where
  "layout_ok l ds \<longleftrightarrow>
     length (minor_to_major l) = length ds \<and> IsPermutation (minor_to_major l) \<and>
     0 < tail_padding_alignment_in_elements l \<and>
     index_primitive_type l = PRIMITIVE_TYPE_INVALID \<and> pointer_primitive_type l = PRIMITIVE_TYPE_INVALID \<and>
     physical_shape l = None \<and> list_all tile_ok (tiles l) \<and> 0 \<le> element_size_in_bits l \<and>
     distinct (map sc_dimension (split_configs l)) \<and> list_all (split_ok l ds) (split_configs l)"

lemma validate_order_iff: "validate_order n seen ps = Inr () \<longleftrightarrow> IsPermutation_loop n seen ps"
  by (induction n seen ps rule: validate_order.induct) auto

lemma validate_split_indices_iff:
  "validate_split_indices d a xs = Inr () \<longleftrightarrow> sorted_wrt (<) (a # xs) \<and> (\<forall>i\<in>set xs. i < d)"
  by (induction d a xs rule: validate_split_indices.induct) auto

lemma Major_permutation:
  assumes "IsPermutation (minor_to_major l)" "0 \<le> p" "p < int (length (minor_to_major l))"
  shows "Major l p = Inr (minor_to_major l ! (length (minor_to_major l) - Suc (nat p)))"
proof -
  have "nat (int (length (minor_to_major l)) - 1 - p) = length (minor_to_major l) - Suc (nat p)"
    using assms by linarith
  with assms show ?thesis by (simp add: Major_def Minor_def at_index_def)
qed

lemma validate_split_configs_iff:
  assumes "IsPermutation (minor_to_major l)" "length (minor_to_major l) = length ds"
    "length seen = length ds"
  shows "validate_split_configs l ds seen cs = Inr () \<longleftrightarrow>
     distinct (map sc_dimension cs) \<and> list_all (split_ok l ds) cs \<and>
     (\<forall>c\<in>set cs. \<not> seen ! nat (sc_dimension c))"
  using assms(3)
proof (induction cs arbitrary: seen)
  case (Cons c cs)
  let ?p = "sc_dimension c" and ?m = "minor_to_major l"
  show ?case
  proof (cases "0 \<le> ?p \<and> ?p < int (length ds)")
    case True
    let ?k = "?m ! (length ds - Suc (nat ?p))"
    have M: "Major l ?p = Inr ?k" using Major_permutation [OF assms(1)] True assms(2) by simp
    have "length ds - Suc (nat ?p) < length ?m" using True assms(2) by linarith
    then have A: "at_index ds ?k = Inr (ds ! nat ?k)"
      using IsPermutation_nth [OF assms(1)] assms(2) by (simp add: at_index_def)
    have seen: "seen[nat ?p := True] ! nat (sc_dimension c') \<longleftrightarrow> seen ! nat (sc_dimension c') \<or> ?p = sc_dimension c'"
      if "split_ok l ds c'" for c'
      using that True Cons.prems by (auto simp: nth_list_update split_ok_def Let_def)
    have "validate_split_configs l ds seen (c # cs) = Inr () \<longleftrightarrow>
        \<not> seen ! nat ?p \<and> split_ok l ds c \<and> distinct (map sc_dimension cs) \<and> list_all (split_ok l ds) cs \<and>
        (\<forall>c'\<in>set cs. \<not> seen[nat ?p := True] ! nat (sc_dimension c'))"
      using True Cons.prems
      by (simp add: Let_def M A Cons.IH bindE_eq_Inr validate_split_indices_iff)
        (auto simp: split_ok_def Let_def)
    then show ?thesis using seen by (auto simp: list_all_iff)
  qed (auto simp: Let_def split_ok_def)
qed simp

lemma validate_order_permutation:
  "length ps = n \<Longrightarrow> validate_order n (replicate n False) ps = Inr () \<longleftrightarrow> IsPermutation ps"
  by (auto simp: validate_order_iff IsPermutation_def)

lemma validate_fresh_split_configs:
  assumes "IsPermutation (minor_to_major l)" "length (minor_to_major l) = length ds"
  shows "validate_split_configs l ds (replicate (length ds) False) cs = Inr () \<longleftrightarrow>
     distinct (map sc_dimension cs) \<and> list_all (split_ok l ds) cs"
proof -
  have "\<not> replicate (length ds) False ! nat (sc_dimension c)" if "split_ok l ds c" for c
    using that by (auto simp: split_ok_def Let_def)
  then show ?thesis by (auto simp: validate_split_configs_iff [OF assms] list_all_iff)
qed

lemma validate_tiles_iff: "for_each validate_tile ts = Inr () \<longleftrightarrow> list_all tile_ok ts"
  by (auto simp: for_each_eq_Inr validate_tile_def tile_ok_def list_all_iff not_le split: if_splits)

text \<open>
  C16. \<open>ValidateLayoutForShape\<close> accepts exactly the layouts that can be laid over an array: the order is
  a permutation of the dimensions, the tail padding is positive, nothing of the sparse encoding is
  set, tile sizes are positive or the combining marker, and every split configuration cuts its own
  physical dimension at strictly increasing positions inside it.
\<close>

theorem ValidateLayoutForShape_iff:
  assumes "IsArray s" "dimsE s = Inr ds"
  shows "ValidateLayoutForShape l s = Inr () \<longleftrightarrow> layout_ok l ds"
proof -
  have "\<not> IsTuple s" using assms(1) by (auto simp: shape_class_defs)
  with assms show ?thesis
    by (cases "length (minor_to_major l) = length ds"; cases "IsPermutation (minor_to_major l)")
      (simp_all add: ValidateLayoutForShape_def layout_ok_def bindE_eq_Inr validate_order_permutation
        if_Inl_eq_Inr validate_fresh_split_configs validate_tiles_iff not_le not_less)
qed

theorem ValidateLayoutForShape_iff_witness:
  "ValidateLayoutForShape (simple_layout [1, 0]) (Shape F32 (ArrayState [2, 3] [False, False] None)) = Inr () \<and>
   ValidateLayoutForShape (simple_layout [1, 1]) (Shape F32 (ArrayState [2, 3] [False, False] None)) \<noteq> Inr ()"
  using ValidateLayoutForShape_iff [of "Shape F32 (ArrayState [2, 3] [False, False] None)" "[2, 3]" "simple_layout [1, 0]"]
    ValidateLayoutForShape_iff [of "Shape F32 (ArrayState [2, 3] [False, False] None)" "[2, 3]" "simple_layout [1, 1]"]
  by (simp add: shape_class_defs primitive_class_defs dimsE_def array_state_maybe_underneath_buffer_def
      layout_ok_def simple_layout_def IsPermutation_iff)

section \<open>Default layouts\<close>

fun buffers_filled :: "Shape \<Rightarrow> bool" where
  "buffers_filled (Shape t (TupleState ss)) = list_all buffers_filled ss"
| "buffers_filled (Shape t (BufferState b)) \<longleftrightarrow> b \<noteq> default_shape"
| "buffers_filled _ = True"

definition resets_to_default :: "Shape \<Rightarrow> bool" where
  "resets_to_default s \<longleftrightarrow> (\<exists>c s'. ClearLayout s = Inr c \<and> SetToDefaultLayout c = Inr s' \<and>
     ValidateLayoutInShape False s' = Inr () \<and> HasLayout s' = Inr True \<and> ClearLayout s' = Inr c)"

lemma layout_ok_default: "layout_ok (simple_layout (SetDefaultLayoutToContainer (length ds))) ds"
  by (auto simp: layout_ok_def simple_layout_def SetDefaultLayoutToContainer_def IsPermutation_iff
      distinct_map inj_on_def)

lemma set_minor_to_major_simple [simp]: "set_minor_to_major m (simple_layout m') = simple_layout m"
  by (simp add: set_minor_to_major_def simple_layout_def)

lemma put_array_state_read [simp]:
  "array_state_maybe_underneath_buffer s = Inr a \<Longrightarrow>
   array_state_maybe_underneath_buffer (put_array_state s b) = Inr b"
  "array_state_maybe_underneath_buffer s = Inr a \<Longrightarrow> put_array_state (put_array_state s b) c = put_array_state s c"
  "elt_type (put_array_state s b) = elt_type s"
  by (auto simp: array_state_maybe_underneath_buffer_def put_array_state_def
      split: State.splits prod.splits)

lemma IsArray_put [simp]: "IsArray (put_array_state s b) = IsArray s"
  by (simp add: shape_class_defs)

lemma has_layout_array:
  "array_state_maybe_underneath_buffer s = Inr (ds, dy, l) \<Longrightarrow> has_layout s = Inr (l \<noteq> None)"
  by (auto simp: has_layout_def array_state_maybe_underneath_buffer_def split: State.splits)

lemma consistent_array_state:
  assumes "shape_ok V s" "IsArray s" "buffers_filled s"
  obtains ds dy l where "array_state_maybe_underneath_buffer s = Inr (ds, dy, l)"
proof -
  have "\<exists>ds dy l. shape_state b = ArrayState ds dy l" if "shape_ok V b" "IsArrayType (elt_type b)" for b
    using that by (cases b; cases "shape_state b") auto
  then show thesis using assms that
    by (cases s; cases "shape_state s")
      (fastforce simp: shape_class_defs array_state_maybe_underneath_buffer_def)+
qed

lemma SetToDefaultLayout_array:
  "IsArray s \<Longrightarrow> SetToDefaultLayout s = set_default_array_layout s"
  "IsArray s \<Longrightarrow> ClearLayout s = clear_layout s"
  "IsArray s \<Longrightarrow> HasLayout s = has_layout s"
  by (cases s; auto simp: shape_class_defs)+

lemma ValidateLayoutInShape_array:
  "IsArray s \<Longrightarrow> array_state_maybe_underneath_buffer s = Inr (ds, dy, Some l) \<Longrightarrow>
   ValidateLayoutInShape m s = Inr () \<longleftrightarrow> layout_ok l ds"
  using ValidateLayoutForShape_iff [of s ds l]
  by (cases s) (auto simp: has_layout_array layoutE_def dimsE_def shape_class_defs)

lemma array_resets_to_default:
  assumes "shape_ok V s" "IsArray s" "buffers_filled s"
  shows "resets_to_default s"
proof -
  obtain ds dy l where a: "array_state_maybe_underneath_buffer s = Inr (ds, dy, l)"
    using consistent_array_state [OF assms] .
  let ?c = "put_array_state s (ds, dy, None)"
  let ?s = "put_array_state s (ds, dy, Some (simple_layout (SetDefaultLayoutToContainer (length ds))))"
  have "ClearLayout s = Inr ?c" "ClearLayout ?s = Inr ?c" "SetToDefaultLayout ?c = Inr ?s"
    using a assms(2) by (simp_all add: SetToDefaultLayout_array clear_layout_def set_default_array_layout_def)
  moreover have "ValidateLayoutInShape False ?s = Inr ()" "HasLayout ?s = Inr True"
    using a assms(2)
    by (simp_all add: ValidateLayoutInShape_array layout_ok_default SetToDefaultLayout_array has_layout_array)
  ultimately show ?thesis unfolding resets_to_default_def by blast
qed

lemma tuple_resets_to_default:
  assumes "\<And>s. s \<in> set ss \<Longrightarrow> resets_to_default s"
  shows "resets_to_default (Shape TUPLE (TupleState ss))"
proof -
  obtain c d where cd: "\<And>s. s \<in> set ss \<Longrightarrow> ClearLayout s = Inr (c s) \<and> SetToDefaultLayout (c s) = Inr (d s) \<and>
     ValidateLayoutInShape False (d s) = Inr () \<and> HasLayout (d s) = Inr True \<and> ClearLayout (d s) = Inr (c s)"
    using assms unfolding resets_to_default_def by metis
  have "mapE ClearLayout ss = Inr (map c ss)" "mapE SetToDefaultLayout (map c ss) = Inr (map d ss)"
    "mapE ClearLayout (map d ss) = Inr (map c ss)"
    using cd by (auto simp: mapE_eq_Inr list_all2_conv_all_nth)
  moreover have "for_each (ValidateLayoutInShape False) (map d ss) = Inr ()" using cd
    by (auto simp: for_each_eq_Inr)
  moreover have "all_ofE HasLayout (map d ss) = Inr True" using cd by (induction ss) auto
  ultimately have "ClearLayout (Shape TUPLE (TupleState ss)) = Inr (Shape TUPLE (TupleState (map c ss)))"
    "SetToDefaultLayout (Shape TUPLE (TupleState (map c ss))) = Inr (Shape TUPLE (TupleState (map d ss)))"
    "ValidateLayoutInShape False (Shape TUPLE (TupleState (map d ss))) = Inr ()"
    "HasLayout (Shape TUPLE (TupleState (map d ss))) = Inr True"
    "ClearLayout (Shape TUPLE (TupleState (map d ss))) = Inr (Shape TUPLE (TupleState (map c ss)))"
    by (simp_all add: shape_class_defs)
  then show ?thesis unfolding resets_to_default_def by blast
qed

text \<open>
  On every consistent shape without empty buffers, clearing the layouts and setting the default
  ones succeeds at every leaf, the result passes \<open>ValidateLayoutInShape\<close> with no layout missing,
  and nothing but the layouts has changed.
\<close>

lemma SetToDefaultLayout_valid:
  assumes "shape_consistent s" "buffers_filled s"
  shows "\<exists>c s'. ClearLayout s = Inr c \<and> SetToDefaultLayout c = Inr s' \<and>
     ValidateLayoutInShape False s' = Inr () \<and> HasLayout s' = Inr True \<and> ClearLayout s' = Inr c"
  unfolding resets_to_default_def [symmetric] using assms
proof (induction s rule: ClearLayout.induct)
  case (1 t st)
  show ?case
  proof (cases "IsArray (Shape t st)")
    case True
    then show ?thesis using 1 array_resets_to_default by blast
  next
    case False
    show ?thesis
    proof (cases st)
      case (TupleState ss)
      with 1 False have "resets_to_default s" if "s \<in> set ss" for s
        using that by (simp add: list_all_iff)
      then show ?thesis using 1 TupleState by (auto intro: tuple_resets_to_default)
    qed (use 1 False in \<open>auto simp: resets_to_default_def shape_class_defs\<close>)
  qed
qed

lemma SetToDefaultLayout_valid_witness:
  "\<exists>c s'. ClearLayout (Shape TUPLE (TupleState [Shape F32 (ArrayState [2, 3] [False, False] None), Shape TOKEN TokenState])) = Inr c \<and>
     SetToDefaultLayout c = Inr s' \<and> ValidateLayoutInShape False s' = Inr () \<and> HasLayout s' = Inr True \<and>
     ClearLayout s' = Inr c"
  using SetToDefaultLayout_valid
    [of "Shape TUPLE (TupleState [Shape F32 (ArrayState [2, 3] [False, False] None), Shape TOKEN TokenState])"]
  by (simp add: primitive_class_defs)

section \<open>Copying and comparing layouts\<close>

lemma dimsE_array: "array_state_maybe_underneath_buffer s = Inr (ds, dy, l) \<Longrightarrow> dimsE s = Inr ds"
  by (simp add: dimsE_def)

lemma layoutE_array:
  "array_state_maybe_underneath_buffer s = Inr (ds, dy, Some l) \<Longrightarrow> layoutE s = Inr l"
  by (simp add: layoutE_def)

lemmas array_reads = dimsE_array layoutE_array has_layout_array

lemma CopyLayoutInternal_array:
  assumes "IsArray src" "array_state_maybe_underneath_buffer src = Inr (ds, dy, Some l)"
    "IsArray dst" "array_state_maybe_underneath_buffer dst = Inr (ds', dy', l')"
  shows "CopyLayoutInternal src dst =
    (if length ds \<noteq> length ds' then Inl (InvalidArgument ''cannot copy layout from shape: ranks differs'')
     else bindE (ValidateLayoutForShape l dst) (\<lambda>_. Inr (put_array_state dst (ds', dy', Some l))))"
  using assms by (cases src; cases dst)
    (auto simp: array_reads shape_class_defs set_layout_def intro: bindE_cong)

lemma LayoutsInShapesEqual_array:
  assumes "IsArray lhs" "array_state_maybe_underneath_buffer lhs = Inr (ds, dy, Some l)"
    "array_state_maybe_underneath_buffer rhs = Inr (ds', dy', Some l')"
  shows "LayoutsInShapesEqual lhs rhs None =
    Inr (length ds = length ds' \<and> Layout_Equal Layout_Equal_default l l')"
  using assms by (cases lhs) (auto simp: array_reads shape_class_defs)

lemma Layout_Equal_valid: "layout_ok l ds \<Longrightarrow> Layout_Equal g l l"
  by (cases l) (auto simp: layout_ok_def)

lemma array_state_IsArray:
  "shape_ok V s \<Longrightarrow> array_state_maybe_underneath_buffer s = Inr a \<Longrightarrow> IsArray s \<and> elt_type s \<noteq> TUPLE"
  by (cases s; cases "shape_state s")
    (auto simp: array_state_maybe_underneath_buffer_def shape_class_defs)

lemma not_IsArray_tuple [simp]: "\<not> IsArray (Shape TUPLE st)"
  by (simp add: shape_class_defs)

lemma put_array_state_same:
  "array_state_maybe_underneath_buffer s = Inr a \<Longrightarrow> put_array_state s a = s"
  by (cases s; cases "shape_state s")
    (auto simp: array_state_maybe_underneath_buffer_def put_array_state_def split: State.splits prod.splits, metis Shape.collapse)

lemma array_copy_restores:
  assumes "IsArray s" "ValidateLayoutInShape False s = Inr ()" "ClearLayout s = Inr c"
  shows "CopyLayoutInternal s c = Inr s"
proof -
  obtain ds dy lo where a: "array_state_maybe_underneath_buffer s = Inr (ds, dy, lo)"
    using assms(1,3) by (cases "array_state_maybe_underneath_buffer s") (auto simp: SetToDefaultLayout_array clear_layout_def)
  have c: "c = put_array_state s (ds, dy, None)"
    using a assms(1,3) by (simp add: SetToDefaultLayout_array clear_layout_def)
  obtain l where l: "lo = Some l"
    using assms(1,2) a by (cases s; cases lo; cases "elt_type s = TUPLE") (auto simp: array_reads)
  then have ok: "layout_ok l ds" using ValidateLayoutInShape_array [OF assms(1)] a assms(2) by simp
  have "dimsE c = Inr ds" using a c by (simp add: dimsE_def)
  then have "ValidateLayoutForShape l c = Inr ()"
    using ok c assms(1) by (subst ValidateLayoutForShape_iff [of c ds]) simp_all
  then show ?thesis
    using CopyLayoutInternal_array [OF assms(1) a [unfolded l], of c ds dy None] a c l assms(1)
    by (simp add: put_array_state_same)
qed

text \<open>
  C32. Copying the layouts of a validated shape onto its copy with cleared layouts succeeds and gives
  the shape back, through any nesting of tuples.
\<close>

theorem CopyLayout_restores:
  assumes "ValidateLayoutInShape False s = Inr ()" "ClearLayout s = Inr c"
  shows "CopyLayoutBetweenShapes s c = Inr s"
  using assms unfolding CopyLayoutBetweenShapes_def
proof (induction s arbitrary: c rule: ClearLayout.induct)
  case (1 t st)
  show ?case
  proof (cases "IsArray (Shape t st)")
    case True
    with 1 show ?thesis using array_copy_restores by blast
  next
    case False
    show ?thesis
    proof (cases "t = TUPLE")
      case True
      with 1 obtain ss cs where ss: "st = TupleState ss" "c = Shape t (TupleState cs)"
        "list_all2 (\<lambda>x y. ClearLayout x = Inr y) ss cs" "\<forall>x\<in>set ss. ValidateLayoutInShape False x = Inr ()"
        by (auto simp: bindE_eq_Inr mapE_eq_Inr for_each_eq_Inr split: State.splits)
      have "CopyLayoutInternal x y = Inr x" if "(x, y) \<in> set (zip ss cs)" for x y
        using 1(1) [OF False True ss(1) set_zip_leftD [OF that]] that ss
        by (fastforce simp: list_all2_iff dest: set_zip_leftD)
      then have "mapE (\<lambda>(a, b). CopyLayoutInternal a b) (zip ss cs) = Inr (map fst (zip ss cs))"
        by (intro mapE_all_Inr) auto
      then show ?thesis using True ss by (simp add: list_all2_lengthD IsTuple_def)
    qed (use 1 False in \<open>auto simp: shape_class_defs\<close>)
  qed
qed

theorem CopyLayout_restores_witness:
  "CopyLayoutBetweenShapes (Shape F32 (ArrayState [2, 3] [False, False] (Some (simple_layout [0, 1]))))
     (Shape F32 (ArrayState [2, 3] [False, False] None)) =
   Inr (Shape F32 (ArrayState [2, 3] [False, False] (Some (simple_layout [0, 1]))))"
proof -
  have "ValidateLayoutInShape False (Shape F32 (ArrayState [2, 3] [False, False] (Some (simple_layout [0, 1])))) = Inr ()"
    by code_simp
  moreover have "ClearLayout (Shape F32 (ArrayState [2, 3] [False, False] (Some (simple_layout [0, 1])))) =
      Inr (Shape F32 (ArrayState [2, 3] [False, False] None))"
    by code_simp
  ultimately show ?thesis by (rule CopyLayout_restores)
qed

lemma array_copy_equal:
  assumes "shape_ok V dst" "IsArray src" "HasLayout src = Inr True" "CopyLayoutInternal src dst = Inr dst'"
  shows "LayoutsInShapesEqual src dst' None = Inr True"
proof -
  obtain t st where s: "src = Shape t st" "t \<noteq> TUPLE" using assms(2) not_IsArray_tuple by (metis Shape.exhaust)
  have hl: "has_layout src = Inr True" using assms(2,3) by (simp add: SetToDefaultLayout_array)
  from assms(2,4) s hl obtain ds dy lo where a: "array_state_maybe_underneath_buffer src = Inr (ds, dy, lo)"
    by (cases "array_state_maybe_underneath_buffer src") (auto simp: dimsE_def split: if_splits)
  with hl obtain l where l: "lo = Some l" by (auto simp: has_layout_array)
  from assms(2,4) s hl obtain ds' dy' lo' where a': "array_state_maybe_underneath_buffer dst = Inr (ds', dy', lo')"
    by (cases "array_state_maybe_underneath_buffer dst") (auto simp: dimsE_def bindE_eq_Inr split: if_splits)
  have dst: "IsArray dst" using array_state_IsArray [OF assms(1) a'] by simp
  have "dimsE dst = Inr ds'" using a' by (rule dimsE_array)
  then have "length ds = length ds'" "layout_ok l ds'" "dst' = put_array_state dst (ds', dy', Some l)"
    using assms(4) CopyLayoutInternal_array [OF assms(2) a [unfolded l] dst a']
      ValidateLayoutForShape_iff [OF dst, of ds' l]
    by (auto simp: bindE_eq_Inr split: if_splits)
  then show ?thesis
    using LayoutsInShapesEqual_array [OF assms(2) a [unfolded l], of dst' ds' dy' l] a'
    by (simp add: Layout_Equal_valid)
qed

lemma all_ofE_True: "all_ofE f xs = Inr True \<longleftrightarrow> (\<forall>x\<in>set xs. f x = Inr True)"
  by (induction xs) (auto simp: bindE_eq_Inr)

text \<open>
  After \<open>CopyLayoutBetweenShapes\<close> from a shape with layouts the layouts of source and
  destination compare equal.
\<close>

lemma CopyLayout_equal:
  assumes "shape_consistent dst" "HasLayout src = Inr True" "CopyLayoutBetweenShapes src dst = Inr dst'"
  shows "LayoutsInShapesEqual src dst' None = Inr True"
  using assms unfolding CopyLayoutBetweenShapes_def
proof (induction src arbitrary: dst dst' rule: HasLayout.induct)
  case (1 t st)
  show ?case
  proof (cases "t = TUPLE")
    case True
    with 1 obtain ss ds ds' where ss: "st = TupleState ss" "shape_state dst = TupleState ds"
      "length ss = length ds" "dst' = Shape (elt_type dst) (TupleState ds')" "IsTuple dst"
      "list_all2 (\<lambda>x y. (case x of (a, b) \<Rightarrow> CopyLayoutInternal a b) = Inr y) (zip ss ds) ds'"
      "\<forall>x\<in>set ss. HasLayout x = Inr True"
      by (auto simp: bindE_eq_Inr mapE_eq_Inr all_ofE_True split: State.splits if_splits)
    have "LayoutsInShapesEqual x y None = Inr True" if xy: "(x, y) \<in> set (zip ss ds')" for x y
    proof -
      obtain i where i: "i < length ss" "x = ss ! i" "y = ds' ! i" using xy by (auto simp: in_set_zip)
      have "CopyLayoutInternal x (ds ! i) = Inr y" using ss(6) i ss(3) by (auto simp: list_all2_conv_all_nth)
      moreover have "shape_consistent (ds ! i)" using 1(2) ss(2,3) i
        by (cases dst) (auto simp: list_all_iff)
      ultimately show ?thesis using 1(1) [OF True ss(1)] ss(7) i by auto
    qed
    then have "all_ofE (\<lambda>(a, b). LayoutsInShapesEqual a b None) (zip ss ds') = Inr True"
      by (auto simp: all_ofE_True)
    then show ?thesis using True ss by (auto simp: IsTuple_def dest: list_all2_lengthD)
  next
    case False
    show ?thesis
    proof (cases "IsArray (Shape t st)")
      case True
      show ?thesis by (rule array_copy_equal [OF 1(2) True 1(3,4)])
    qed (use False in simp)
  qed
qed

lemma CopyLayout_equal_witness:
  "\<exists>d. CopyLayoutBetweenShapes (Shape F32 (ArrayState [2, 3] [False, False] (Some (simple_layout [0, 1]))))
       (Shape S8 (ArrayState [5, 7] [False, False] None)) = Inr d \<and>
     LayoutsInShapesEqual (Shape F32 (ArrayState [2, 3] [False, False] (Some (simple_layout [0, 1])))) d None = Inr True"
proof -
  have c: "CopyLayoutBetweenShapes (Shape F32 (ArrayState [2, 3] [False, False] (Some (simple_layout [0, 1]))))
      (Shape S8 (ArrayState [5, 7] [False, False] None)) =
      Inr (Shape S8 (ArrayState [5, 7] [False, False] (Some (simple_layout [0, 1]))))"
    by code_simp
  have "shape_consistent (Shape S8 (ArrayState [5, 7] [False, False] None))" by (simp add: primitive_class_defs)
  moreover have "HasLayout (Shape F32 (ArrayState [2, 3] [False, False] (Some (simple_layout [0, 1])))) = Inr True"
    by code_simp
  ultimately show ?thesis using CopyLayout_equal [OF _ _ c] c by blast
qed

text \<open>
  A comparison given by the caller is used for arrays but not for the elements of tuples: with a
  functor that ignores tiles, two arrays compare equal and the tuples of them do not.
\<close>

lemma LayoutsInShapesEqual_drops_functor:
  fixes a b :: Shape and g :: LayoutEqual
  defines "a \<equiv> Shape F32 (ArrayState [2] [False] (Some (simple_layout [0])))"
    and "b \<equiv> Shape F32 (ArrayState [2] [False]
           (Some (Layout PRIMITIVE_TYPE_INVALID PRIMITIVE_TYPE_INVALID 0 0 [0] [Tile [2]] [] 1 None 0)))"
    and "g \<equiv> Layout_Equal_default\<lparr>ignore_tiles := True\<rparr>"
  shows "LayoutsInShapesEqual a b (Some g) = Inr True"
    and "LayoutsInShapesEqual (Shape TUPLE (TupleState [a])) (Shape TUPLE (TupleState [b])) (Some g) = Inr False"
  unfolding a_def b_def g_def by code_simp+

text \<open>Logical and physical dimension numbers.\<close>

lemma logical_to_physical_loop_eq:
  assumes "IsPermutation (minor_to_major l)" "length acc = length (minor_to_major l)"
    "\<forall>p\<in>set ps. 0 \<le> p \<and> p < int (length (minor_to_major l))"
  shows "logical_to_physical_loop l acc ps =
    Inr (scatter_loop acc (zip (map (\<lambda>p. rev (minor_to_major l) ! nat p) ps) ps))"
  using assms(2,3)
proof (induction ps arbitrary: acc)
  case (Cons p ps)
  let ?m = "minor_to_major l"
  have r: "rev ?m ! nat p = ?m ! (length ?m - Suc (nat p))" "length ?m - Suc (nat p) < length ?m"
    using Cons.prems by (auto simp: rev_nth nat_less_iff)
  then have "at_index acc (rev ?m ! nat p) = Inr (acc ! nat (rev ?m ! nat p))"
    using IsPermutation_nth [OF assms(1) r(2)] Cons.prems by (simp add: at_index_def)
  then show ?case using Cons Major_permutation [OF assms(1), of p] r by simp
qed simp

lemma IsPermutation_rev: "IsPermutation (rev p) = IsPermutation p"
  by (simp add: IsPermutation_iff)

text \<open>
  \<open>MakeLogicalToPhysical\<close> computes the inverse of \<open>Major\<close>: it is a permutation and holds \<open>p\<close> at the
  logical number of every physical dimension \<open>p\<close>.
\<close>

lemma MakeLogicalToPhysical_inverse:
  assumes "IsPermutation (minor_to_major l)"
  shows "\<exists>v. MakeLogicalToPhysical l = Inr v \<and> IsPermutation v \<and>
    (\<forall>p<length (minor_to_major l). \<exists>lg. Major l (int p) = Inr lg \<and> v ! nat lg = int p)"
proof -
  let ?m = "minor_to_major l" and ?v = "InversePermutation (rev (minor_to_major l))"
  have m: "IsPermutation (rev ?m)" using assms by (simp add: IsPermutation_rev)
  have "map (\<lambda>p. rev ?m ! nat p) (map int [0..<length ?m]) = rev ?m"
    by (rule nth_equalityI) simp_all
  then have "MakeLogicalToPhysical l = Inr ?v"
    using logical_to_physical_loop_eq [OF assms, of "replicate (length ?m) 0" "map int [0..<length ?m]"]
    by (simp add: MakeLogicalToPhysical_def InversePermutation_def Let_def)
  moreover have "\<exists>lg. Major l (int p) = Inr lg \<and> ?v ! nat lg = int p" if "p < length ?m" for p
    using Major_permutation [OF assms, of "int p"] InversePermutation_nth [OF m, of p] that
    by (simp add: rev_nth)
  moreover have "IsPermutation ?v" using m by (rule IsPermutation_InversePermutation)
  ultimately show ?thesis by blast
qed

lemma MakeLogicalToPhysical_inverse_witness:
  "\<exists>v. MakeLogicalToPhysical (simple_layout [1, 2, 0]) = Inr v \<and> IsPermutation v"
  using MakeLogicalToPhysical_inverse [of "simple_layout [1, 2, 0]"]
  by (auto simp: simple_layout_def IsPermutation_iff)

section \<open>Split sizes\<close>

text \<open>The pieces that cuts at \<open>xs\<close> make of a dimension of size \<open>d\<close>.\<close>

definition pieces :: "int list \<Rightarrow> int \<Rightarrow> int list" where
  "pieces xs d = map2 (-) (xs @ [d]) (0 # xs)"

lemma wrap32_id: "- 2147483648 \<le> x \<Longrightarrow> x < 2147483648 \<Longrightarrow> wrap32 x = x"
  by (simp add: wrap32_def)

lemma max_split_loop_eq:
  assumes "\<forall>x\<in>set xs. 0 \<le> x \<and> x < 2147483648"
  shows "max_split_loop mx prev xs = (foldl max mx (map2 (-) xs (prev # xs)), last (prev # xs))"
  using assms
proof (induction xs arbitrary: mx prev)
  case (Cons x xs)
  then show ?case by (auto simp: wrap32_id Let_def max.commute)
qed simp

lemma foldl_max_Max: "foldl max m xs = Max (set (m # xs))" for m :: int
proof (induction xs arbitrary: m)
  case (Cons x xs)
  then show ?case by (cases "xs = []") (auto simp: max.assoc max.left_commute)
qed simp

lemma map2_minus_snoc:
  "map2 (-) (xs @ [d]) (p # xs) = map2 (-) xs (p # xs) @ [d - last (p # xs)]" for d :: int
  by (induction xs arbitrary: p) auto

lemma find_split_config_Some:
  assumes p: "IsPermutation (minor_to_major l)"
    and "distinct (map sc_dimension cs)" "c \<in> set cs" "Major l (sc_dimension c) = Inr dim"
    and "\<forall>c\<in>set cs. 0 \<le> sc_dimension c \<and> sc_dimension c < int (length (minor_to_major l))"
  shows "find_split_config l dim cs = Inr (Some c)"
  using assms(2-)
proof (induction cs)
  case (Cons a cs)
  let ?m = "minor_to_major l"
  have inj: "sc_dimension a = sc_dimension c" if "Major l (sc_dimension a) = Major l (sc_dimension c)"
  proof -
    have d: "distinct ?m" using p by (simp add: IsPermutation_iff)
    have r: "0 \<le> sc_dimension a" "sc_dimension a < int (length ?m)" "0 \<le> sc_dimension c" "sc_dimension c < int (length ?m)"
      using Cons.prems by auto
    then have "?m ! (length ?m - Suc (nat (sc_dimension a))) = ?m ! (length ?m - Suc (nat (sc_dimension c)))"
      using that Major_permutation [OF p] by simp
    then have "length ?m - Suc (nat (sc_dimension a)) = length ?m - Suc (nat (sc_dimension c))"
      using d r by (auto simp: nth_eq_iff_index_eq)
    with r show ?thesis by linarith
  qed
  obtain k where k: "Major l (sc_dimension a) = Inr k"
    using Major_permutation [OF p] Cons.prems by auto
  show ?case
  proof (cases "a = c")
    case False
    then have "c \<in> set cs" "sc_dimension a \<noteq> sc_dimension c" using Cons.prems by auto
    with inj k Cons show ?thesis by auto
  qed (use Cons k in auto)
qed simp

text \<open>
  On a valid layout whose split indices fit in 31 bits \<open>MaxSplitSize\<close> is the size of the largest
  piece the split configuration cuts the dimension into.
\<close>

lemma MaxSplitSize_max_piece:
  assumes "IsArray s" "array_state_maybe_underneath_buffer s = Inr (ds, dy, Some l)" "layout_ok l ds"
    and "c \<in> set (split_configs l)" "Major l (sc_dimension c) = Inr dim"
    and "\<forall>i\<in>set (split_indices c). i < 2147483648" "0 < ds ! nat dim"
  shows "MaxSplitSize s dim = Inr (Max (set (pieces (split_indices c) (ds ! nat dim))))"
proof -
  let ?xs = "split_indices c" and ?m = "minor_to_major l"
  have m: "IsPermutation ?m" "length ?m = length ds" using assms(3) by (auto simp: layout_ok_def)
  have c: "split_ok l ds c" using assms(3,4) by (auto simp: layout_ok_def list_all_iff)
  have dim: "dim = ?m ! (length ds - Suc (nat (sc_dimension c)))"
    using assms(5) Major_permutation [OF m(1)] c m(2) by (auto simp: split_ok_def Let_def)
  have "length ds - Suc (nat (sc_dimension c)) < length ?m" using c m(2) by (auto simp: split_ok_def Let_def)
  then have at: "at_index ds dim = Inr (ds ! nat dim)"
    using IsPermutation_nth [OF m(1)] m(2) unfolding dim by (simp add: at_index_def)
  have found: "find_split_config l dim (split_configs l) = Inr (Some c)"
    using find_split_config_Some [OF m(1) _ assms(4,5)] assms(3) m(2)
    by (auto simp: layout_ok_def list_all_iff split_ok_def Let_def)
  have xs: "\<forall>x\<in>set ?xs. 0 \<le> x \<and> x < 2147483648" "\<forall>x\<in>set ?xs. x < ds ! nat dim"
    using c assms(6) unfolding dim by (auto simp: split_ok_def Let_def intro: less_imp_le)
  let ?g = "map2 (-) ?xs (0 # ?xs)" and ?r = "ds ! nat dim - last (0 # ?xs)"
  have r: "0 < ?r" using xs(2) assms(7) by auto
  have "Max (set (pieces ?xs (ds ! nat dim))) = Max (insert ?r (set ?g))"
    by (simp add: pieces_def map2_minus_snoc del: last.simps zip_Cons)
  moreover have "max (Max (insert 0 (set ?g))) ?r = Max (insert ?r (set ?g))"
    using r by (cases "set ?g = {}") (simp_all add: max.commute max.left_commute max_def)
  ultimately show ?thesis using assms(1,2) at found
    by (simp add: MaxSplitSize_def array_reads max_split_loop_eq [OF xs(1)] foldl_max_Max del: last.simps)
qed

lemma MaxSplitSize_max_piece_witness:
  "MaxSplitSize (Shape F32 (ArrayState [10] [False]
     (Some (Layout PRIMITIVE_TYPE_INVALID PRIMITIVE_TYPE_INVALID 0 0 [0] [] [SplitConfig 0 [2, 7]] 1 None 0)))) 0 = Inr 5"
  using MaxSplitSize_max_piece
    [of "Shape F32 (ArrayState [10] [False]
       (Some (Layout PRIMITIVE_TYPE_INVALID PRIMITIVE_TYPE_INVALID 0 0 [0] [] [SplitConfig 0 [2, 7]] 1 None 0)))"
      "[10]" "[False]" "Layout PRIMITIVE_TYPE_INVALID PRIMITIVE_TYPE_INVALID 0 0 [0] [] [SplitConfig 0 [2, 7]] 1 None 0"
      "SplitConfig 0 [2, 7]" 0]
  by (simp add: shape_class_defs primitive_class_defs array_state_maybe_underneath_buffer_def layout_ok_def
      IsPermutation_iff split_ok_def Major_def Minor_def at_index_def pieces_def)

text \<open>
  A split index of \<open>2 ^ 32\<close> is read as 0 through the 32-bit loop variable: the dimension of size
  \<open>2 ^ 33\<close> cut in two equal halves is reported as one piece.
\<close>

lemma MaxSplitSize_truncates_index:
  fixes s :: Shape and l :: Layout
  defines "l \<equiv> Layout PRIMITIVE_TYPE_INVALID PRIMITIVE_TYPE_INVALID 0 0 [0] [] [SplitConfig 0 [4294967296]] 1 None 0"
    and "s \<equiv> Shape F32 (ArrayState [8589934592] [False] (Some l))"
  shows "ValidateLayoutInShape False s = Inr ()" "MaxSplitSize s 0 = Inr 8589934592"
    "Max (set (pieces [4294967296] 8589934592)) = 4294967296"
  unfolding s_def l_def by code_simp+

end
