(* ===== verification/MixedRadix.thy ===== *)
theory MixedRadix
  imports Prelude
begin

text \<open>
  Positional number systems with a radix per position, the mathematics under every linearisation
  of a multidimensional index: \<open>weigh ds is\<close> is the number whose digits are \<open>is\<close>, least
  significant first, and \<open>digits ds n\<close> reads the digits back. The locales state what a
  linearisation of the program promises; the components interpret them on their own definitions.
\<close>

fun weigh :: "int list \<Rightarrow> int list \<Rightarrow> int" where
  "weigh (d # ds) (i # is) = i + d * weigh ds is"
| "weigh _ _ = 0"

fun digits :: "int list \<Rightarrow> int \<Rightarrow> int list" where
  "digits [] n = []"
| "digits (d # ds) n = n mod d # digits ds (n div d)"

text \<open>The digits are in range.\<close>

definition in_box :: "int list \<Rightarrow> int list \<Rightarrow> bool" where
  "in_box ds is = list_all2 (\<lambda>d i. 0 \<le> i \<and> i < d) ds is"

lemma in_box_Nil [simp]: "in_box [] is \<longleftrightarrow> is = []" "in_box ds [] \<longleftrightarrow> ds = []"
  by (auto simp: in_box_def)

lemma in_box_Cons [simp]: "in_box (d # ds) (i # is) \<longleftrightarrow> 0 \<le> i \<and> i < d \<and> in_box ds is"
  by (simp add: in_box_def)

lemma in_box_length: "in_box ds is \<Longrightarrow> length is = length ds"
  by (simp add: in_box_def list_all2_lengthD)

lemma in_box_nth: "in_box ds is \<longleftrightarrow> length is = length ds \<and> (\<forall>k<length ds. 0 \<le> is ! k \<and> is ! k < ds ! k)"
  by (auto simp: in_box_def list_all2_conv_all_nth)

lemma in_box_append:
  "length as = length cs \<Longrightarrow> in_box (cs @ ds) (as @ bs) \<longleftrightarrow> in_box cs as \<and> in_box ds bs"
  by (simp add: in_box_def list_all2_append)

lemma in_box_rev [simp]: "in_box (rev ds) (rev is) = in_box ds is"
  by (simp add: in_box_def)

lemma in_box_pos: "in_box ds is \<Longrightarrow> list_all (\<lambda>d. 0 < d) ds"
  by (induction ds arbitrary: "is") (auto simp: in_box_def list_all2_Cons1)

lemma weigh_range: "in_box ds is \<Longrightarrow> 0 \<le> weigh ds is \<and> weigh ds is < prod_list ds"
proof (induction ds "is" rule: weigh.induct)
  case (1 d ds i "is")
  then have r: "0 \<le> i" "i < d" "0 \<le> weigh ds is" "weigh ds is + 1 \<le> prod_list ds" by auto
  then have "d * (weigh ds is + 1) \<le> d * prod_list ds" by (intro mult_left_mono) auto
  with r show ?case by (simp add: algebra_simps)
qed auto

lemma digits_weigh: "in_box ds is \<Longrightarrow> digits ds (weigh ds is) = is"
  by (induction ds "is" rule: weigh.induct) auto

lemma length_digits [simp]: "length (digits ds n) = length ds"
  by (induction ds arbitrary: n) auto

lemma div_less_prod: "0 \<le> n \<Longrightarrow> n < (d::int) * p \<Longrightarrow> 0 < d \<Longrightarrow> n div d < p"
proof (rule ccontr)
  assume n: "0 \<le> n" "n < d * p" "0 < d" and "\<not> n div d < p"
  then have "d * p \<le> d * (n div d)" by simp
  also have "\<dots> \<le> n" using n by (simp add: minus_mod_eq_mult_div [symmetric])
  finally show False using n by simp
qed

lemma weigh_digits:
  "list_all (\<lambda>d. 0 < d) ds \<Longrightarrow> 0 \<le> n \<Longrightarrow> n < prod_list ds \<Longrightarrow> weigh ds (digits ds n) = n"
proof (induction ds arbitrary: n)
  case (Cons d ds)
  then have "n div d < prod_list ds" by (simp add: div_less_prod)
  with Cons show ?case by (simp add: pos_imp_zdiv_nonneg_iff)
qed simp

lemma in_box_digits: "list_all (\<lambda>d. 0 < d) ds \<Longrightarrow> in_box ds (digits ds n)"
  by (induction ds arbitrary: n) auto

lemma weigh_append:
  "length as = length cs \<Longrightarrow> weigh (cs @ ds) (as @ bs) = weigh cs as + prod_list cs * weigh ds bs"
  by (induction cs as rule: list_induct2') (auto simp: algebra_simps)

lemma weigh_zeros [simp]: "weigh ds (replicate n 0) = 0"
  by (induction ds arbitrary: n) (case_tac n; simp)+

lemma weigh_maximal: "list_all (\<lambda>d. 0 < d) ds \<Longrightarrow> weigh ds (map (\<lambda>d. d - 1) ds) = prod_list ds - 1"
  by (induction ds) (auto simp: right_diff_distrib)

lemma weigh_update:
  "k < length is \<Longrightarrow> length is = length ds \<Longrightarrow>
   weigh ds (is[k := is ! k + x]) = weigh ds is + prod_list (take k ds) * x"
proof (induction ds "is" arbitrary: k rule: weigh.induct)
  case (1 d ds i "is")
  then show ?case by (cases k) (auto simp: algebra_simps)
qed auto

section \<open>What a linearisation promises\<close>

text \<open>
  \<open>enc s\<close> numbers the indices that are valid for \<open>s\<close>, \<open>dec s\<close> reads an index back from its
  number. Both may stop (a failing \<open>CHECK\<close>, a division by zero), and on a good \<open>s\<close> they do not.
\<close>

locale linearisation =
  fixes good :: "'s \<Rightarrow> bool" and valid :: "'s \<Rightarrow> 'i \<Rightarrow> bool" and extent :: "'s \<Rightarrow> int"
    and enc :: "'s \<Rightarrow> 'i \<Rightarrow> int status_or" and dec :: "'s \<Rightarrow> int \<Rightarrow> 'i status_or"
  assumes enc_in_range: "good s \<Longrightarrow> valid s i \<Longrightarrow> \<exists>n. enc s i = Inr n \<and> 0 \<le> n \<and> n < extent s"
    and dec_enc: "good s \<Longrightarrow> valid s i \<Longrightarrow> enc s i = Inr n \<Longrightarrow> dec s n = Inr i"
begin

definition number :: "'s \<Rightarrow> 'i \<Rightarrow> int" where
  "number s i = projr (enc s i)"

lemma enc_number: "good s \<Longrightarrow> valid s i \<Longrightarrow> enc s i = Inr (number s i)"
  using enc_in_range [of s i] by (auto simp: number_def)

lemma roundtrip: "good s \<Longrightarrow> valid s i \<Longrightarrow> bindE (enc s i) (dec s) = Inr i"
  using enc_in_range [of s i] dec_enc [of s i] by (auto simp: bindE_def)

lemma no_two_share: 
  assumes "good s" "valid s i" "valid s j" "enc s i = enc s j"
  shows "i = j"
proof -
  have "bindE (enc s j) (dec s) = Inr i"
    using roundtrip [OF assms(1,2)] by (simp only: assms(4))
  with roundtrip [OF assms(1,3)] show ?thesis by simp
qed

lemma number_inj: "good s \<Longrightarrow> inj_on (number s) {i. valid s i}"
  by (rule inj_onI) (metis enc_number mem_Collect_eq no_two_share)

lemma number_range: "good s \<Longrightarrow> number s ` {i. valid s i} \<subseteq> {0..<extent s}"
  by (auto simp: number_def dest!: enc_in_range)

text \<open>So the valid indices are finitely many, at most as many as the numbers reserved for them.\<close>

lemma card_valid: "good s \<Longrightarrow> int (card {i. valid s i}) \<le> extent s \<or> extent s \<le> 0 \<and> {i. valid s i} = {}"
proof -
  assume g: "good s"
  have "card {i. valid s i} = card (number s ` {i. valid s i})"
    using number_inj [OF g] by (simp add: card_image)
  also have "\<dots> \<le> card {0..<extent s}"
    by (rule card_mono) (use number_range [OF g] in auto)
  finally have "card {i. valid s i} \<le> nat (extent s)" by simp
  then show ?thesis using number_range [OF g] by (cases "0 < extent s") auto
qed

end

text \<open>A dense linearisation uses every number below its extent.\<close>

locale dense_linearisation = linearisation +
  assumes enc_dec: "good s \<Longrightarrow> 0 \<le> n \<Longrightarrow> n < extent s \<Longrightarrow> \<exists>i. dec s n = Inr i \<and> valid s i \<and> enc s i = Inr n"
begin

lemma number_bij: "good s \<Longrightarrow> bij_betw (number s) {i. valid s i} {0..<extent s}"
proof (rule bij_betw_imageI)
  assume g: "good s"
  then show "inj_on (number s) {i. valid s i}" by (rule number_inj)
  have "{0..<extent s} \<subseteq> number s ` {i. valid s i}"
  proof
    fix n assume "n \<in> {0..<extent s}"
    then obtain i where "valid s i" "enc s i = Inr n" using enc_dec [OF g] by auto
    then show "n \<in> number s ` {i. valid s i}" by (auto simp: number_def image_iff intro!: exI [of _ i])
  qed
  with number_range [OF g] show "number s ` {i. valid s i} = {0..<extent s}" by auto
qed

end

end
