(* ===== verification/MathUtil.thy ===== *)
theory MathUtil
  imports Prelude "HOL-Library.Signed_Division"
begin

text \<open>
  Integer arithmetic of \<open>xla/tsl/lib/math/math_util.h\<close> and its wrappers in \<open>xla/util.h\<close>. The
  division of C++ truncates towards zero (\<open>sdiv\<close>, \<open>smod\<close>) and stops on a zero divisor.
\<close>

definition cdiv :: "int \<Rightarrow> int \<Rightarrow> int status_or" where
  "cdiv a b = (if b = 0 then Inl (CheckFailed ''division by zero'') else Inr (a sdiv b))"

definition cmod :: "int \<Rightarrow> int \<Rightarrow> int status_or" where
  "cmod a b = (if b = 0 then Inl (CheckFailed ''division by zero'') else Inr (a smod b))"

definition CeilOrFloorOfRatio :: "bool \<Rightarrow> int \<Rightarrow> int \<Rightarrow> int status_or" where
  "CeilOrFloorOfRatio ceil numerator denominator =
     bindE (cdiv numerator denominator) (\<lambda>rounded_toward_zero.
       let intermediate_product = rounded_toward_zero * denominator in
       if ceil then
         Inr (rounded_toward_zero +
           (if rounded_toward_zero \<ge> 0 \<and>
               (denominator > 0 \<and> numerator > intermediate_product \<or>
                denominator < 0 \<and> numerator < intermediate_product) then 1 else 0))
       else
         Inr (rounded_toward_zero -
           (if rounded_toward_zero \<le> 0 \<and>
               (denominator > 0 \<and> numerator < intermediate_product \<or>
                denominator < 0 \<and> numerator > intermediate_product) then 1 else 0)))"

definition CeilOfRatio :: "int \<Rightarrow> int \<Rightarrow> int status_or" where
  "CeilOfRatio dividend divisor = CeilOrFloorOfRatio True dividend divisor"

definition FloorOfRatio :: "int \<Rightarrow> int \<Rightarrow> int status_or" where
  "FloorOfRatio dividend divisor = CeilOrFloorOfRatio False dividend divisor"

definition RoundUpTo :: "int \<Rightarrow> int \<Rightarrow> int status_or" where
  "RoundUpTo value divisor = bindE (CeilOfRatio value divisor) (\<lambda>q. Inr (q * divisor))"

definition RoundDownTo :: "int \<Rightarrow> int \<Rightarrow> int status_or" where
  "RoundDownTo value divisor = bindE (FloorOfRatio value divisor) (\<lambda>q. Inr (q * divisor))"

definition FloorDivMod :: "int \<Rightarrow> int \<Rightarrow> (int \<times> int) status_or" where
  "FloorDivMod dividend divisor =
     bindE (FloorOfRatio dividend divisor) (\<lambda>q. Inr (q, dividend - q * divisor))"

text \<open>\<open>GCD\<close> is only instantiated at unsigned types.\<close>

fun MathUtil_GCD :: "nat \<Rightarrow> nat \<Rightarrow> nat" where
  "MathUtil_GCD x y = (if y \<noteq> 0 then MathUtil_GCD y (x mod y) else x)"

declare MathUtil_GCD.simps [simp del]

text \<open>\<open>IPow\<close>: the loop body with the accumulated \<open>result\<close>, at a type without overflow.\<close>

fun IPow_loop :: "int \<Rightarrow> int \<Rightarrow> nat \<Rightarrow> int" where
  "IPow_loop result base e =
     (let result' = (if e mod 2 \<noteq> 0 then result * base else result); e' = e div 2
      in if e' = 0 then result' else IPow_loop result' (base * base) e')"

declare IPow_loop.simps [simp del]

definition IPow :: "int \<Rightarrow> nat \<Rightarrow> int" where
  "IPow base e = IPow_loop 1 base e"

section \<open>Division\<close>

lemma sdiv_nonneg: "0 \<le> a \<Longrightarrow> 0 \<le> b \<Longrightarrow> a sdiv b = a div b" for a b :: int
  by (cases "b = 0"; cases "a = 0") (auto simp: signed_divide_int_def sgn_if)

lemma smod_nonneg: "0 \<le> a \<Longrightarrow> 0 \<le> b \<Longrightarrow> a smod b = a mod b" for a b :: int
  by (simp add: smod_int_alt_def sgn_if)

lemma cdiv_pos: "0 \<le> a \<Longrightarrow> 0 < b \<Longrightarrow> cdiv a b = Inr (a div b)"
  by (simp add: cdiv_def sdiv_nonneg)

lemma cmod_pos: "0 \<le> a \<Longrightarrow> 0 < b \<Longrightarrow> cmod a b = Inr (a mod b)"
  by (simp add: cmod_def smod_nonneg)

lemma sdiv_pos: "0 < b \<Longrightarrow> a sdiv b = (if 0 \<le> a then a div b else - ((-a) div b))" for a b :: int
  by (auto simp: signed_divide_int_def sgn_if abs_if)

lemma sdiv_minus_minus: "(- a) sdiv (- b) = a sdiv b" for a b :: int
  by (simp add: signed_divide_int_def)

lemma CeilOrFloorOfRatio_minus: "CeilOrFloorOfRatio c (- a) (- b) = CeilOrFloorOfRatio c a b"
  by (auto simp: CeilOrFloorOfRatio_def cdiv_def sdiv_minus_minus Let_def)

lemma CeilOrFloorOfRatio_pos:
  assumes "0 < b"
  shows "CeilOrFloorOfRatio True a b = Inr (- ((- a) div b))" "CeilOrFloorOfRatio False a b = Inr (a div b)"
proof -
  have m: "0 \<le> a mod b" using assms by simp
  have up: "(- a) div b = (if a mod b = 0 then - (a div b) else - (a div b) - 1)"
    using assms by (simp add: zdiv_zminus1_eq_if)
  have neg: "0 \<le> (- a) div b \<longleftrightarrow> a \<le> 0" "0 \<le> a div b \<longleftrightarrow> 0 \<le> a"
    using assms by (simp_all add: pos_imp_zdiv_nonneg_iff)
  have le: "a \<le> - ((- a) div b) * b"
    using minus_mod_eq_div_mult [of "- a" b, symmetric] pos_mod_sign [OF assms, of "- a"] by linarith
  have d: "a div b * b = a - a mod b" by (simp add: minus_mod_eq_div_mult)
  have lt: "a < - ((- a) div b) * b \<longleftrightarrow> a mod b \<noteq> 0" "a div b * b < a \<longleftrightarrow> a mod b \<noteq> 0"
    using d m pos_mod_bound [OF assms, of a] unfolding up by (auto simp: left_diff_distrib distrib_right)
  show "CeilOrFloorOfRatio True a b = Inr (- ((- a) div b))"
    using assms neg le lt up
    by (auto simp: CeilOrFloorOfRatio_def cdiv_def sdiv_pos Let_def not_le)
  show "CeilOrFloorOfRatio False a b = Inr (a div b)"
    using assms neg le lt up
    by (auto simp: CeilOrFloorOfRatio_def cdiv_def sdiv_pos Let_def not_le)
qed

lemma rounding:
  fixes a b :: int
  assumes "0 < b"
  shows "0 \<le> - ((- a) div b) * b - a" "- ((- a) div b) * b - a < b" "0 \<le> a - a div b * b" "a - a div b * b < b"
  using minus_mod_eq_div_mult [of "- a" b, symmetric] minus_mod_eq_div_mult [of a b, symmetric]
    pos_mod_sign [OF assms, of "- a"] pos_mod_bound [OF assms, of "- a"]
    pos_mod_sign [OF assms, of a] pos_mod_bound [OF assms, of a]
  by linarith+



lemma CeilOfRatio_pos: "0 < b \<Longrightarrow> CeilOfRatio a b = Inr (- ((- a) div b))"
  by (simp add: CeilOfRatio_def CeilOrFloorOfRatio_pos)

lemma RoundUpTo_pos:
  assumes "0 < b"
  shows "\<exists>r. RoundUpTo a b = Inr r \<and> a \<le> r \<and> r < a + b \<and> b dvd r"
proof -
  have "(- a) div b * b = - a - (- a) mod b" by (simp add: minus_mod_eq_div_mult)
  then have "- ((- a) div b) * b = a + (- a) mod b" by simp
  moreover have "0 \<le> (- a) mod b" "(- a) mod b < b" using assms by simp_all
  moreover have "b dvd - ((- a) div b) * b" by simp
  ultimately show ?thesis
    using assms unfolding RoundUpTo_def CeilOfRatio_pos [OF assms] bindE_Inr
    by (intro exI [of _ "- ((- a) div b) * b"]) simp
qed

lemma MathUtil_GCD_gcd: "MathUtil_GCD x y = gcd x y"
proof (induction x y rule: MathUtil_GCD.induct)
  case (1 x y)
  then show ?case by (subst MathUtil_GCD.simps) (simp add: gcd_red_nat [symmetric])
qed

lemma IPow_loop_power: "IPow_loop r b e = r * b ^ e"
proof (induction r b e rule: IPow_loop.induct)
  case (1 r b e)
  have e: "b ^ e = (b * b) ^ (e div 2) * (if e mod 2 \<noteq> 0 then b else 1)"
    by (cases "even e") (auto simp: even_iff_mod_2_eq_zero power_even_eq power_mult_distrib power2_eq_square
        power_add [symmetric] mult_2 [symmetric] simp flip: power_Suc2)
  show ?case
    using 1 by (subst IPow_loop.simps) (auto simp: Let_def e)
qed

lemma IPow_power: "IPow b e = b ^ e"
  by (simp add: IPow_def IPow_loop_power)

end
