(* ===== verification/IndexUtil.thy ===== *)
theory IndexUtil
  imports LayoutUtil MixedRadix MathUtil
begin

text \<open>
  \<open>xla/index_util.h\<close> and \<open>xla/index_util.cc\<close>: linear and multidimensional indices of an array
  under its layout, enumeration and comparison of indices. \<open>int64_t\<close> arithmetic is exact here; the
  range lemmas bound every result by the number of elements. Reads outside a vector and divisions by
  zero stop.
\<close>

section \<open>Operations\<close>

text \<open>The loop from \<open>i = 1\<close>; \<open>prev\<close> is \<open>minor_to_major[i - 1]\<close>.\<close>

fun linear_index_loop :: "int list \<Rightarrow> int list \<Rightarrow> int \<Rightarrow> int \<Rightarrow> int \<Rightarrow> int list \<Rightarrow> int status_or" where
  "linear_index_loop ds multi_index prev scale linear_index [] = Inr linear_index"
| "linear_index_loop ds multi_index prev scale linear_index (dim # rest) =
     bindE (at_index ds prev) (\<lambda>d.
     bindE (at_index multi_index dim) (\<lambda>i.
       linear_index_loop ds multi_index dim (scale * d) (linear_index + scale * d * i) rest))"

definition MultidimensionalIndexToLinearIndex :: "Shape \<Rightarrow> int list \<Rightarrow> int status_or" where
  "MultidimensionalIndexToLinearIndex s multi_index =
     bindE (MinorToMajor s) (\<lambda>m2m.
     case m2m of
       [] \<Rightarrow> Inr 0
     | first # rest \<Rightarrow>
         bindE (at_index multi_index first) (\<lambda>linear_index.
         bindE (dimsE s) (\<lambda>ds. linear_index_loop ds multi_index first 1 linear_index rest)))"

fun multi_index_loop :: "int list \<Rightarrow> int \<Rightarrow> int \<Rightarrow> int list \<Rightarrow> int list \<Rightarrow> int list status_or" where
  "multi_index_loop ds linear_index divisor multi_index [] = Inr multi_index"
| "multi_index_loop ds linear_index divisor multi_index (dim # rest) =
     bindE (at_index ds dim) (\<lambda>d.
     bindE (cdiv linear_index divisor) (\<lambda>q.
     bindE (cmod q d) (\<lambda>r.
       multi_index_loop ds linear_index (divisor * d) (multi_index[nat dim := r]) rest)))"

definition LinearIndexToMultidimensionalIndex :: "Shape \<Rightarrow> int \<Rightarrow> int list status_or" where
  "LinearIndexToMultidimensionalIndex s linear_index =
     bindE (dimsE s) (\<lambda>ds.
     bindE (MinorToMajor s) (\<lambda>m2m.
       multi_index_loop ds linear_index 1 (replicate (length ds) 0) m2m))"

fun stride_loop :: "int list \<Rightarrow> int \<Rightarrow> int \<Rightarrow> int list \<Rightarrow> int status_or" where
  "stride_loop ds dimension stride [] = Inr stride"
| "stride_loop ds dimension stride (dim # rest) =
     (if dim = dimension then Inr stride
      else bindE (at_index ds dim) (\<lambda>d. stride_loop ds dimension (stride * d) rest))"

definition GetDimensionStride :: "Shape \<Rightarrow> int \<Rightarrow> int status_or" where
  "GetDimensionStride s dimension =
     bindE (MinorToMajor s) (\<lambda>m2m. bindE (dimsE s) (\<lambda>ds. stride_loop ds dimension 1 m2m))"

definition IndexInBounds :: "Shape \<Rightarrow> int list \<Rightarrow> bool status_or" where
  "IndexInBounds s index =
     bindE (dimsE s) (\<lambda>ds.
       Inr (length ds = length index \<and> \<not> list_ex (\<lambda>d. index ! d \<ge> ds ! d) [0..<length ds]))"

fun compare_loop :: "int list \<Rightarrow> int list \<Rightarrow> int" where
  "compare_loop (l # ls) (r # rs) = (if l < r then -1 else if l > r then 1 else compare_loop ls rs)"
| "compare_loop _ _ = 0"

definition CompareIndices :: "int list \<Rightarrow> int list \<Rightarrow> int status_or" where
  "CompareIndices lhs rhs =
     (if length rhs \<noteq> length lhs then Inl (CheckFailed ''rhs_rank == rank'')
      else Inr (compare_loop lhs rhs))"

text \<open>
  \<open>BumpIndices\<close> looks from the last dimension to the first for one that can be increased; the
  result is the flag it returns and the indices it leaves behind. \<open>bump_loop ds is k\<close> is the
  iteration with \<open>dimno = k - 1\<close>.
\<close>

fun bump_loop :: "int list \<Rightarrow> int list \<Rightarrow> nat \<Rightarrow> (bool \<times> int list) status_or" where
  "bump_loop ds is 0 = Inr (False, is)"
| "bump_loop ds is (Suc dimno) =
     bindE (at_index ds (int dimno)) (\<lambda>limit.
       if is ! dimno + 1 < limit
       then Inr (True, take dimno is @ [is ! dimno + 1] @ replicate (length is - dimno - 1) 0)
       else bump_loop ds is dimno)"

definition BumpIndices :: "Shape \<Rightarrow> int list \<Rightarrow> (bool \<times> int list) status_or" where
  "BumpIndices s indices = bindE (dimsE s) (\<lambda>ds. bump_loop ds indices (length indices))"

section \<open>Linear indices\<close>

text \<open>An array whose layout orders its dimensions, and the indices inside it.\<close>

definition ordered_array :: "Shape \<Rightarrow> bool" where
  "ordered_array s \<longleftrightarrow> (\<exists>ds dy l. array_state_maybe_underneath_buffer s = Inr (ds, dy, Some l) \<and>
     length (minor_to_major l) = length ds \<and> IsPermutation (minor_to_major l))"

definition index_in :: "Shape \<Rightarrow> int list \<Rightarrow> bool" where
  "index_in s is = in_box (dimensions s) is"

definition elements :: "Shape \<Rightarrow> int" where
  "elements s = prod_list (dimensions s)"

definition pick :: "'a list \<Rightarrow> int list \<Rightarrow> 'a list" where
  "pick xs m = map (\<lambda>d. xs ! nat d) m"

lemma pick_simps [simp]: "pick xs [] = []" "pick xs (d # m) = xs ! nat d # pick xs m"
  by (simp_all add: pick_def)

lemma linear_index_loop_weigh:
  assumes "\<forall>d\<in>set (prev # rest). 0 \<le> d \<and> d < int (length ds)" "length is = length ds"
  shows "linear_index_loop ds is prev scale li rest =
    Inr (li + scale * (ds ! nat prev) * weigh (pick ds rest) (pick is rest))"
  using assms(1)
proof (induction rest arbitrary: prev scale li)
  case (Cons d rest)
  then show ?case using assms(2) by (auto simp: at_index_def algebra_simps)
qed simp

lemma MinorToMajor_array:
  "array_state_maybe_underneath_buffer s = Inr (ds, dy, Some l) \<Longrightarrow> MinorToMajor s = Inr (minor_to_major l)"
  by (simp add: MinorToMajor_def layoutE_array)

lemma dimensions_array: "array_state_maybe_underneath_buffer s = Inr (ds, dy, l) \<Longrightarrow> dimensions s = ds"
  by (simp add: dimensions_def)

lemma MultidimensionalIndexToLinearIndex_weigh:
  assumes "array_state_maybe_underneath_buffer s = Inr (ds, dy, Some l)"
    "length (minor_to_major l) = length ds" "IsPermutation (minor_to_major l)" "length is = length ds"
  shows "MultidimensionalIndexToLinearIndex s is =
    Inr (weigh (pick ds (minor_to_major l)) (pick is (minor_to_major l)))"
proof -
  have r: "\<forall>d\<in>set (minor_to_major l). 0 \<le> d \<and> d < int (length ds)"
    using assms(2,3) by (auto simp: IsPermutation_iff)
  show ?thesis
  proof (cases "minor_to_major l")
    case (Cons a list)
    with r have "linear_index_loop ds is a 1 (is ! nat a) list =
        Inr (is ! nat a + 1 * ds ! nat a * weigh (pick ds list) (pick is list))"
      by (intro linear_index_loop_weigh) (use assms(4) in auto)
    with Cons r assms show ?thesis
      by (simp add: MultidimensionalIndexToLinearIndex_def MinorToMajor_array dimsE_array at_index_def)
  qed (use assms in \<open>simp add: MultidimensionalIndexToLinearIndex_def MinorToMajor_array\<close>)
qed

lemma in_box_pick:
  assumes "in_box ds is" "\<forall>d\<in>set m. 0 \<le> d \<and> d < int (length ds)"
  shows "in_box (pick ds m) (pick is m)"
  using assms by (auto simp: in_box_nth pick_def dest!: nth_mem)

lemma multi_index_loop_digits:
  assumes "\<forall>d\<in>set m. 0 \<le> d \<and> d < int (length ds) \<and> 0 < ds ! nat d" "0 \<le> n" "0 < divisor"
  shows "multi_index_loop ds n divisor acc m =
    Inr (scatter_loop acc (zip m (digits (pick ds m) (n div divisor))))"
  using assms(1,3)
proof (induction m arbitrary: divisor acc)
  case (Cons d m)
  have "0 \<le> n div divisor" using assms(2) Cons.prems by (simp add: pos_imp_zdiv_nonneg_iff)
  then show ?case using Cons assms(2)
    by (auto simp: at_index_def cdiv_pos cmod_pos zdiv_zmult2_eq)
qed simp

lemma prod_pick_permutation:
  fixes ds :: "int list"
  assumes "IsPermutation m" "length m = length ds"
  shows "prod_list (pick ds m) = prod_list ds"
proof -
  have "mset (pick ds m) = mset (map (\<lambda>d. ds ! nat d) (map int [0..<length m]))"
    using assms(1) unfolding pick_def IsPermutation_mset by (metis mset_map)
  also have "map (\<lambda>d. ds ! nat d) (map int [0..<length m]) = ds"
    by (rule nth_equalityI) (use assms in auto)
  finally show ?thesis using prod_mset_prod_list [of "pick ds m"] prod_mset_prod_list [of ds] by simp
qed

lemma scatter_pick:
  assumes "IsPermutation m" "length m = length is" "length acc = length is"
  shows "scatter_loop acc (zip m (pick is m)) = is"
proof (rule nth_equalityI)
  show len: "length (scatter_loop acc (zip m (pick is m))) = length is"
    using assms by (simp add: length_scatter_loop)
  fix j assume "j < length (scatter_loop acc (zip m (pick is m)))"
  then have "j < length m" using len assms by simp
  then obtain i where i: "i < length m" "m ! i = int j" by (rule IsPermutation_index [OF assms(1)])
  have "scatter_loop acc (zip m (pick is m)) ! nat (m ! i) = pick is m ! i"
  proof (rule scatter_loop_nth)
    show "(m ! i, pick is m ! i) \<in> set (zip m (pick is m))"
      using i by (auto simp: in_set_zip pick_def)
  qed (use assms in \<open>auto simp: IsPermutation_iff pick_def nat_less_iff dest: set_zip_leftD\<close>)
  then show "scatter_loop acc (zip m (pick is m)) ! j = is ! j" using i by (simp add: pick_def)
qed

text \<open>Both conversions together are a dense linearisation of the indices of the array.\<close>

lemma array_conversions:
  assumes "ordered_array s" "index_in s is"
  obtains n where "MultidimensionalIndexToLinearIndex s is = Inr n" "0 \<le> n" "n < elements s"
    "LinearIndexToMultidimensionalIndex s n = Inr is"
proof -
  obtain ds dy l where a: "array_state_maybe_underneath_buffer s = Inr (ds, dy, Some l)"
    "length (minor_to_major l) = length ds" "IsPermutation (minor_to_major l)"
    using assms(1) by (auto simp: ordered_array_def)
  let ?m = "minor_to_major l"
  let ?n = "weigh (pick ds ?m) (pick is ?m)"
  have box: "in_box ds is" using assms(2) dimensions_array [OF a(1)] by (simp add: index_in_def)
  have r: "\<forall>d\<in>set ?m. 0 \<le> d \<and> d < int (length ds)" using a by (auto simp: IsPermutation_iff)
  have pb: "in_box (pick ds ?m) (pick is ?m)" by (rule in_box_pick [OF box r])
  have "\<forall>d\<in>set ?m. 0 < ds ! nat d" using in_box_pos [OF pb] by (auto simp: pick_def list_all_iff)
  then have "LinearIndexToMultidimensionalIndex s ?n =
      Inr (scatter_loop (replicate (length ds) 0) (zip ?m (digits (pick ds ?m) ?n)))"
    using multi_index_loop_digits [of ?m ds ?n 1] r weigh_range [OF pb] a
    by (simp add: LinearIndexToMultidimensionalIndex_def MinorToMajor_array dimsE_array)
  also have "\<dots> = Inr is"
    using scatter_pick [OF a(3), of "is"] a(2) in_box_length [OF box] by (simp add: digits_weigh [OF pb])
  finally show thesis
    using that [of ?n] MultidimensionalIndexToLinearIndex_weigh [OF a in_box_length [OF box]] weigh_range [OF pb]
      prod_pick_permutation [OF a(3,2)] dimensions_array [OF a(1)]
    by (simp add: elements_def)
qed

lemma digits_pick_scatter:
  assumes "IsPermutation m" "length m = length xs"
  obtains "is" where "length is = length m" "pick is m = xs"
proof -
  let ?is = "map (\<lambda>j. xs ! nat (InversePermutation m ! j)) [0..<length m]"
  have "pick ?is m = xs"
    by (rule nth_equalityI)
      (use assms IsPermutation_nth [OF assms(1)] InversePermutation_nth [OF assms(1)] in \<open>auto simp: pick_def\<close>)
  then show thesis using that [of ?is] by simp
qed

lemma array_conversions_onto:
  assumes "ordered_array s" "0 \<le> n" "n < elements s" "list_all (\<lambda>d. 0 \<le> d) (dimensions s)"
  obtains "is" where "index_in s is" "MultidimensionalIndexToLinearIndex s is = Inr n"
proof -
  obtain ds dy l where a: "array_state_maybe_underneath_buffer s = Inr (ds, dy, Some l)"
    "length (minor_to_major l) = length ds" "IsPermutation (minor_to_major l)"
    using assms(1) by (auto simp: ordered_array_def)
  let ?m = "minor_to_major l"
  have ds: "dimensions s = ds" by (rule dimensions_array [OF a(1)])
  have prod: "prod_list (pick ds ?m) = elements s" using prod_pick_permutation [OF a(3,2)] ds by (simp add: elements_def)
  have "0 \<notin> set ds" using assms(2,3) ds by (auto simp: elements_def dest: prod_list_zero_iff [THEN iffD2])
  then have pos: "\<forall>d\<in>set ds. 0 < d" using assms(4) ds by (auto simp: list_all_iff order_le_less)
  then have ppos: "list_all (\<lambda>d. 0 < d) (pick ds ?m)"
    using a(2,3) by (auto simp: pick_def list_all_iff IsPermutation_iff nat_less_iff intro!: pos [rule_format])
  obtain "is" where i: "length is = length ?m" "pick is ?m = digits (pick ds ?m) n"
    by (rule digits_pick_scatter [OF a(3), of "digits (pick ds ?m) n"]) (auto simp: pick_def)
  have "in_box (pick ds ?m) (pick is ?m)" using in_box_digits [OF ppos] i by simp
  then have "in_box ds is"
    unfolding in_box_nth using i(1) a(2,3)
    by (auto simp: pick_def) (metis IsPermutation_index nat_int)+
  then show thesis
    using that [of "is"] MultidimensionalIndexToLinearIndex_weigh [OF a, of "is"] i a(2) ds
      weigh_digits [OF ppos assms(2)] prod assms(3)
    by (simp add: index_in_def)
qed

interpretation array_index: dense_linearisation
  "\<lambda>s. ordered_array s \<and> list_all (\<lambda>d. 0 \<le> d) (dimensions s)" index_in elements
  MultidimensionalIndexToLinearIndex LinearIndexToMultidimensionalIndex
proof
  fix s "is" assume s: "ordered_array s \<and> list_all (\<lambda>d. 0 \<le> d) (dimensions s)" and i: "index_in s is"
  show "\<exists>n. MultidimensionalIndexToLinearIndex s is = Inr n \<and> 0 \<le> n \<and> n < elements s"
    using array_conversions [OF conjunct1 [OF s] i] by blast
  show "LinearIndexToMultidimensionalIndex s n = Inr is" if "MultidimensionalIndexToLinearIndex s is = Inr n" for n
    using array_conversions [OF conjunct1 [OF s] i] that by (metis sum.inject(2))
next
  fix s n assume s: "ordered_array s \<and> list_all (\<lambda>d. 0 \<le> d) (dimensions s)" "0 \<le> n" "n < elements s"
  obtain "is" where "index_in s is" "MultidimensionalIndexToLinearIndex s is = Inr n"
    using array_conversions_onto s by blast
  then show "\<exists>i. LinearIndexToMultidimensionalIndex s n = Inr i \<and> index_in s i \<and>
      MultidimensionalIndexToLinearIndex s i = Inr n"
    using array_conversions [OF conjunct1 [OF s(1)]] by (metis sum.inject(2))
qed



section \<open>Enumeration and comparison\<close>

text \<open>The position of an index in the enumeration with the last dimension varying fastest.\<close>

definition row_major :: "int list \<Rightarrow> int list \<Rightarrow> int" where
  "row_major ds is = weigh (rev ds) (rev is)"

lemma row_major_split:
  assumes "length as = length A" "length bs = length B"
  shows "row_major (A @ d # B) (as @ i # bs) = row_major B bs + prod_list B * (i + d * row_major A as)"
  using assms by (simp add: row_major_def weigh_append algebra_simps)

lemma row_major_maximal: "list_all (\<lambda>d. 0 < d) ds \<Longrightarrow> row_major ds (map (\<lambda>d. d - 1) ds) = prod_list ds - 1"
  using weigh_maximal [of "rev ds"] by (simp add: row_major_def rev_map)

lemma row_major_zeros: "row_major ds (replicate n 0) = 0"
  by (simp add: row_major_def)

lemma bump_step:
  assumes "in_box ds is" "k < length ds" "drop (Suc k) is = map (\<lambda>d. d - 1) (drop (Suc k) ds)" "is ! k + 1 < ds ! k"
    and js: "js = take k is @ [is ! k + 1] @ replicate (length is - k - 1) 0"
  shows "in_box ds js \<and> row_major ds js = row_major ds is + 1"
proof -
  let ?B = "drop (Suc k) ds" and ?A = "take k ds"
  have len: "length is = length ds" using in_box_length [OF assms(1)] .
  have i: "is = take k is @ is ! k # map (\<lambda>d. d - 1) ?B"
    using id_take_nth_drop [of k "is"] assms(2,3) len by simp
  have d: "ds = ?A @ ds ! k # ?B" using id_take_nth_drop [of k ds] assms(2) by simp
  have pos: "list_all (\<lambda>d. 0 < d) ?B" using in_box_pos [OF assms(1)] by (auto simp: list_all_iff dest: in_set_dropD)
  have "row_major ds is = prod_list ?B - 1 + prod_list ?B * (is ! k + ds ! k * row_major ?A (take k is))"
    by (subst d, subst i) (use len assms(2) in \<open>simp add: row_major_split row_major_maximal [OF pos]\<close>)
  moreover have "row_major ds js = prod_list ?B * (is ! k + 1 + ds ! k * row_major ?A (take k is))"
    by (subst d) (use len assms(2) in \<open>simp add: js row_major_split row_major_zeros\<close>)
  moreover have "in_box ds js"
    unfolding in_box_nth js using assms(1,2,4) len in_box_pos [OF assms(1)]
    by (auto simp: in_box_nth nth_append nth_Cons list_all_length split: nat.splits)
  ultimately show ?thesis by (simp add: algebra_simps)
qed

lemma bump_loop_cases:
  assumes "in_box ds is" "k \<le> length ds" "drop k is = map (\<lambda>d. d - 1) (drop k ds)"
  shows "(\<exists>js. bump_loop ds is k = Inr (True, js) \<and> in_box ds js \<and> row_major ds js = row_major ds is + 1) \<or>
    (bump_loop ds is k = Inr (False, is) \<and> is = map (\<lambda>d. d - 1) ds)"
  using assms(2,3)
proof (induction k)
  case (Suc k)
  have r: "at_index ds (int k) = Inr (ds ! k)" using Suc.prems by (simp add: at_index_def)
  show ?case
  proof (cases "is ! k + 1 < ds ! k")
    case True
    then show ?thesis using bump_step [OF assms(1) _ Suc.prems(2) True] Suc.prems r by simp
  next
    case False
    have "is ! k < ds ! k" using assms(1) Suc.prems(1) by (simp add: in_box_nth)
    with False have "is ! k = ds ! k - 1" by simp
    then have "drop k is = map (\<lambda>d. d - 1) (drop k ds)"
      using Suc.prems in_box_length [OF assms(1)] by (simp add: Cons_nth_drop_Suc [symmetric])
    with Suc False r show ?thesis by simp
  qed
qed simp

text \<open>
  C17. \<open>BumpIndices\<close> on an index inside the bounds moves to the next index of the row-major
  enumeration, or returns false and leaves the index unchanged when it is the last one.
\<close>

theorem BumpIndices_successor:
  assumes "dimsE s = Inr ds" "in_box ds is"
  shows "if row_major ds is + 1 < prod_list ds
    then \<exists>js. BumpIndices s is = Inr (True, js) \<and> in_box ds js \<and> row_major ds js = row_major ds is + 1
    else BumpIndices s is = Inr (False, is)"
proof -
  have b: "BumpIndices s is = bump_loop ds is (length ds)"
    using assms by (simp add: BumpIndices_def in_box_length)
  have "list_all (\<lambda>d. 0 < d) ds" using in_box_pos [OF assms(2)] .
  then have "row_major ds (map (\<lambda>d. d - 1) ds) + 1 = prod_list ds" by (simp add: row_major_maximal)
  moreover have "row_major ds js < prod_list ds" if "in_box ds js" for js
    using weigh_range [of "rev ds" "rev js"] that by (simp add: row_major_def prod_list.rev)
  ultimately show ?thesis
    using bump_loop_cases [OF assms(2) order_refl] in_box_length [OF assms(2)] b
    by (auto split: if_splits) (metis order_less_irrefl)+
qed

theorem BumpIndices_successor_witness:
  "\<exists>js. BumpIndices (Shape F32 (ArrayState [2, 3] [False, False] None)) [0, 2] = Inr (True, js) \<and>
     in_box [2, 3] js \<and> row_major [2, 3] js = 3"
  using BumpIndices_successor [of "Shape F32 (ArrayState [2, 3] [False, False] None)" "[2, 3]" "[0, 2]"]
  by (simp add: dimsE_def array_state_maybe_underneath_buffer_def row_major_def)

lemma compare_loop_row_major:
  assumes "in_box ds ls" "in_box ds rs"
  shows "compare_loop ls rs = sgn (row_major ds ls - row_major ds rs)"
  using assms
proof (induction ds arbitrary: ls rs)
  case (Cons d ds)
  then obtain l ls' r rs' where lr: "ls = l # ls'" "rs = r # rs'"
    by (metis in_box_length length_Suc_conv)
  let ?P = "prod_list ds" and ?a = "row_major ds ls'" and ?b = "row_major ds rs'"
  have box: "in_box ds ls'" "in_box ds rs'" using Cons.prems lr by auto
  have rm: "row_major (d # ds) ls = ?a + ?P * l" "row_major (d # ds) rs = ?b + ?P * r"
    using row_major_split [of "[]" "[]" _ ds] in_box_length [OF box(1)] in_box_length [OF box(2)] lr
    by (auto simp: row_major_def)
  have ab: "0 \<le> ?a" "?a < ?P" "0 \<le> ?b" "?b < ?P"
    using weigh_range [of "rev ds" "rev ls'"] weigh_range [of "rev ds" "rev rs'"] box
    by (simp_all add: row_major_def prod_list.rev)
  have strict: "x + ?P * u < y + ?P * v" if "u < v" "x < ?P" "0 \<le> y" "0 \<le> x" for x y u v :: int
  proof -
    have "?P * (u + 1) \<le> ?P * v" using that by (intro mult_left_mono) auto
    then show ?thesis using that by (simp add: algebra_simps)
  qed
  show ?case
  proof (cases l r rule: linorder_cases)
    case less
    then show ?thesis using strict [OF less, of ?a ?b] ab rm lr by simp
  next
    case greater
    then show ?thesis using strict [OF greater, of ?b ?a] ab rm lr by simp
  next
    case equal
    then show ?thesis using Cons.IH [OF box] rm lr by simp
  qed
qed (auto simp: row_major_def)

text \<open>
  \<open>CompareIndices\<close> orders indices by their position in the row-major enumeration: it returns
  -1, 0 or 1 as the first index comes before, is equal to or comes after the second. (The comment
  in the header has the two signs exchanged.)
\<close>

lemma CompareIndices_row_major:
  assumes "in_box ds lhs" "in_box ds rhs"
  shows "CompareIndices lhs rhs = Inr (sgn (row_major ds lhs - row_major ds rhs))"
  using assms by (simp add: CompareIndices_def in_box_length compare_loop_row_major)

lemma CompareIndices_row_major_witness:
  "CompareIndices [1, 0] [0, 2] = Inr 1"
  using CompareIndices_row_major [of "[2, 3]" "[1, 0]" "[0, 2]"] by (simp add: row_major_def)

text \<open>\<open>IndexInBounds\<close> has no lower bound: an index with a negative component is accepted.\<close>

lemma IndexInBounds_negative:
  "IndexInBounds (Shape F32 (ArrayState [2] [False] None)) [-1] = Inr True"
  by code_simp

text \<open>Strides.\<close>

lemma stride_loop_prod:
  assumes "\<forall>d\<in>set m. 0 \<le> d \<and> d < int (length ds)" "distinct m" "k < length m"
  shows "stride_loop ds (m ! k) st m = Inr (st * prod_list (take k (pick ds m)))"
  using assms
proof (induction m arbitrary: k st)
  case (Cons d m)
  show ?case
  proof (cases k)
    case (Suc j)
    then have "m ! j \<noteq> d" using Cons.prems by auto
    then show ?thesis using Cons Suc by (auto simp: at_index_def algebra_simps)
  qed simp
qed simp

text \<open>
  \<open>GetDimensionStride\<close> is the distance in linear indices between two elements that are
  neighbours along the dimension.
\<close>

lemma GetDimensionStride_distance:
  assumes "ordered_array s" "length is = rank s" "k < rank s"
    "MultidimensionalIndexToLinearIndex s is = Inr n"
  shows "\<exists>st. GetDimensionStride s (int k) = Inr st \<and>
    MultidimensionalIndexToLinearIndex s (is[k := is ! k + x]) = Inr (n + st * x)"
proof -
  obtain ds dy l where a: "array_state_maybe_underneath_buffer s = Inr (ds, dy, Some l)"
    "length (minor_to_major l) = length ds" "IsPermutation (minor_to_major l)"
    using assms(1) by (auto simp: ordered_array_def)
  let ?m = "minor_to_major l"
  have ds: "dimensions s = ds" by (rule dimensions_array [OF a(1)])
  obtain p where p: "p < length ?m" "?m ! p = int k"
    by (rule IsPermutation_index [OF a(3), of k]) (use assms(3) ds a(2) in auto)
  have r: "\<forall>d\<in>set ?m. 0 \<le> d \<and> d < int (length ds)" "distinct ?m" using a by (auto simp: IsPermutation_iff)
  have "GetDimensionStride s (int k) = Inr (prod_list (take p (pick ds ?m)))"
    using stride_loop_prod [OF r p(1), of 1] p a
    by (simp add: GetDimensionStride_def MinorToMajor_array dimsE_array)
  moreover have "pick (is[k := is ! k + x]) ?m = (pick is ?m)[p := pick is ?m ! p + x]"
  proof (rule nth_equalityI)
    fix j assume j: "j < length (pick (is[k := is ! k + x]) ?m)"
    then have "nat (?m ! j) = k \<longleftrightarrow> j = p"
      using p r(2) a(3) IsPermutation_nth(1) [OF a(3), of j] by (auto simp: pick_def nth_eq_iff_index_eq [symmetric])
    then show "pick (is[k := is ! k + x]) ?m ! j = (pick is ?m)[p := pick is ?m ! p + x] ! j"
      using j p assms(2,3) by (auto simp: pick_def nth_list_update)
  qed (simp add: pick_def)
  moreover have "MultidimensionalIndexToLinearIndex s js = Inr (weigh (pick ds ?m) (pick js ?m))"
    if "length js = length ds" for js
    using MultidimensionalIndexToLinearIndex_weigh [OF a that] .
  ultimately show ?thesis
    using assms(2,4) ds weigh_update [of p "pick is ?m" "pick ds ?m" x] p by (simp add: pick_def)
qed

lemma GetDimensionStride_distance_witness:
  "\<exists>st. GetDimensionStride (Shape F32 (ArrayState [5, 8, 10, 4] [False, False, False, False] (Some (simple_layout [3, 2, 1, 0])))) 1 = Inr st \<and>
     MultidimensionalIndexToLinearIndex
       (Shape F32 (ArrayState [5, 8, 10, 4] [False, False, False, False] (Some (simple_layout [3, 2, 1, 0])))) [0, 1, 0, 0] = Inr st"
  using GetDimensionStride_distance
    [of "Shape F32 (ArrayState [5, 8, 10, 4] [False, False, False, False] (Some (simple_layout [3, 2, 1, 0])))"
      "[0, 0, 0, 0]" 1 0 1]
  by (simp add: ordered_array_def array_state_maybe_underneath_buffer_def simple_layout_def IsPermutation_iff dimensions_def
      MultidimensionalIndexToLinearIndex_def MinorToMajor_def layoutE_def dimsE_def at_index_def)

end
