(* ===== verification/TiledIndex.thy ===== *)
theory TiledIndex
  imports IndexUtil
begin

text \<open>
  The linearisations of tiled layouts in \<open>xla/layout_util.cc\<close>: \<open>LinearIndex\<close> (top-level tile
  only), \<open>LinearIndexForNestedTiling\<close> with its inverse \<open>DelinearizeIndexForNestedTiling\<close>, and
  \<open>IsUntiledLayout\<close>.
\<close>

section \<open>Operations\<close>

text \<open>The \<open>CHECK\<close>s that open each operation: an array with a layout.\<close>

definition checked_array :: "Shape \<Rightarrow> (int list \<times> Layout) status_or" where
  "checked_array s =
     (if \<not> IsArray s then Inl (CheckFailed ''shape.IsArray()'')
      else bindE (has_layout s) (\<lambda>h.
        if \<not> h then Inl (CheckFailed ''shape.has_layout()'')
        else bindE (dimsE s) (\<lambda>ds. bindE (layoutE s) (\<lambda>l. Inr (ds, l)))))"

text \<open>\<open>LinearIndex\<close>: the loop over \<open>minor\<close>; \<open>td\<close> are the sizes of the top-level tile.\<close>

fun linear_index_tiled_loop ::
  "Layout \<Rightarrow> int list \<Rightarrow> int list \<Rightarrow> int list \<Rightarrow> int \<Rightarrow> int \<Rightarrow> int \<Rightarrow> nat \<Rightarrow> nat \<Rightarrow> int status_or" where
  "linear_index_tiled_loop l ds is td li tile_mult within_mult minor 0 = Inr li"
| "linear_index_tiled_loop l ds is td li tile_mult within_mult minor (Suc todo) =
     bindE (Minor l (int minor)) (\<lambda>logical_dim.
     bindE (at_index ds logical_dim) (\<lambda>shape_dim_size.
     bindE (at_index is logical_dim) (\<lambda>index.
     if minor < length td then
       (let tile_dim_size = td ! (length td - 1 - minor) in
        bindE (cdiv index tile_dim_size) (\<lambda>q.
        bindE (cmod index tile_dim_size) (\<lambda>r.
        bindE (CeilOfRatio shape_dim_size tile_dim_size) (\<lambda>c.
          linear_index_tiled_loop l ds is td (li + (tile_mult * q + within_mult * r))
            (tile_mult * c) (within_mult * tile_dim_size) (Suc minor) todo))))
     else linear_index_tiled_loop l ds is td (li + index * tile_mult)
            (tile_mult * shape_dim_size) within_mult (Suc minor) todo)))"

definition LinearIndex :: "Shape \<Rightarrow> int list \<Rightarrow> int status_or" where
  "LinearIndex s indices =
     bindE (checked_array s) (\<lambda>(ds, l).
       if length ds \<noteq> length indices then Inl (CheckFailed ''num_dims == indices.size()'')
       else if length ds = 0 then Inr 0
       else if length ds = 1 then Inr (indices ! 0)
       else
         let td = (case tiles l of [] \<Rightarrow> [] | t # _ \<Rightarrow> tile_dimensions t)
         in linear_index_tiled_loop l ds indices td 0 (prod_list td) 1 0 (length ds))"

text \<open>The physical order: entries of \<open>xs\<close> at the logical dimensions, most major first.\<close>

definition physical_order :: "Layout \<Rightarrow> nat \<Rightarrow> int list \<Rightarrow> int list status_or" where
  "physical_order l num_dims xs =
     mapE (\<lambda>i. bindE (at_index (minor_to_major l) (int i)) (at_index xs)) (rev [0..<num_dims])"

text \<open>One tiling level, on the shape and on the index; both are padded on the left when the tile
  has more dimensions.\<close>

definition pad_left :: "int \<Rightarrow> nat \<Rightarrow> int list \<Rightarrow> int list" where
  "pad_left v tile_rank xs = replicate (tile_rank - length xs) v @ xs"

definition tile_shape :: "int list \<Rightarrow> int list \<Rightarrow> int list status_or" where
  "tile_shape td current_shape =
     (let suffix_start = length current_shape - length td in
      bindE (mapE (\<lambda>(d, t). CeilOfRatio d t) (zip (drop suffix_start current_shape) td)) (\<lambda>outer.
        Inr (take suffix_start current_shape @ outer @ td)))"

definition tile_index :: "int list \<Rightarrow> int list \<Rightarrow> int list status_or" where
  "tile_index td current_indices =
     (let suffix_start = length current_indices - length td in
      bindE (mapE (\<lambda>(e, t). cdiv e t) (zip (drop suffix_start current_indices) td)) (\<lambda>outer.
      bindE (mapE (\<lambda>(e, t). cmod e t) (zip (drop suffix_start current_indices) td)) (\<lambda>inner.
        Inr (take suffix_start current_indices @ outer @ inner))))"

definition tiling_level :: "int list \<times> int list \<Rightarrow> Tile \<Rightarrow> (int list \<times> int list) status_or" where
  "tiling_level st tile =
     (let td = tile_dimensions tile;
          current_shape = pad_left 1 (length td) (fst st);
          current_indices = pad_left 0 (length td) (snd st) in
      bindE (tile_shape td current_shape) (\<lambda>next_shape.
      bindE (tile_index td current_indices) (\<lambda>next_indices.
        Inr (next_shape, next_indices))))"

fun linearize_loop :: "int \<Rightarrow> int \<Rightarrow> (int \<times> int) list \<Rightarrow> int" where
  "linearize_loop linear_index multiplier [] = linear_index"
| "linearize_loop linear_index multiplier ((d, i) # rest) =
     linearize_loop (linear_index + i * multiplier) (multiplier * d) rest"

definition LinearIndexForNestedTiling :: "Shape \<Rightarrow> int list \<Rightarrow> int status_or" where
  "LinearIndexForNestedTiling s indices =
     bindE (checked_array s) (\<lambda>(ds, l).
       if length ds \<noteq> length indices then Inl (CheckFailed ''num_dims == indices.size()'')
       else if length ds = 0 then Inr 0
       else
         bindE (physical_order l (length ds) ds) (\<lambda>current_shape.
         bindE (physical_order l (length ds) indices) (\<lambda>current_indices.
         bindE (foldE tiling_level (current_shape, current_indices) (tiles l)) (\<lambda>(final_shape, final_indices).
           Inr (linearize_loop 0 1 (rev (zip final_shape final_indices)))))))"

text \<open>The forward pass of the inverse records the padded shape and the tile of every level.\<close>

fun tiling_steps :: "int list \<Rightarrow> Tile list \<Rightarrow> ((int list \<times> int list) list \<times> int list) status_or" where
  "tiling_steps current_shape [] = Inr ([], current_shape)"
| "tiling_steps current_shape (tile # rest) =
     (let td = tile_dimensions tile; padded = pad_left 1 (length td) current_shape in
      bindE (tile_shape td padded) (\<lambda>next_shape.
      bindE (tiling_steps next_shape rest) (\<lambda>(steps, final_shape).
        Inr ((padded, td) # steps, final_shape))))"

fun delinearize_loop :: "int \<Rightarrow> int list \<Rightarrow> int list status_or" where
  "delinearize_loop remaining [] = Inr []"
| "delinearize_loop remaining (d # rest) =
     bindE (cmod remaining d) (\<lambda>i.
     bindE (cdiv remaining d) (\<lambda>q.
     bindE (delinearize_loop q rest) (\<lambda>is. Inr (i # is))))"

text \<open>Undoing one level: \<open>[prefix, outer, inner]\<close> becomes \<open>[prefix, outer * t + inner]\<close>.\<close>

definition untile :: "int list \<Rightarrow> int list \<times> int list \<Rightarrow> int list status_or" where
  "untile current_indices step =
     (case step of (shape_before, td) \<Rightarrow>
      let suffix_start = length shape_before - length td in
      bindE (mapE (\<lambda>i. at_index current_indices (int i)) [0..<suffix_start]) (\<lambda>prefix.
      bindE (mapE (\<lambda>i. bindE (at_index current_indices (int (suffix_start + i))) (\<lambda>outer_idx.
                       bindE (at_index current_indices (int (suffix_start + length td + i))) (\<lambda>inner_idx.
                         Inr (outer_idx * (td ! i) + inner_idx)))) [0..<length td]) (\<lambda>suffix.
        Inr (prefix @ suffix))))"

fun logical_indices_loop :: "Layout \<Rightarrow> nat \<Rightarrow> int list \<Rightarrow> int \<Rightarrow> int list \<Rightarrow> nat list \<Rightarrow> int list status_or" where
  "logical_indices_loop l num_dims current_indices pad_offset acc [] = Inr acc"
| "logical_indices_loop l num_dims current_indices pad_offset acc (i # rest) =
     bindE (at_index (minor_to_major l) (int (num_dims - 1 - i))) (\<lambda>logical_dim.
     bindE (at_index current_indices (pad_offset + int i)) (\<lambda>v.
     bindE (at_index acc logical_dim) (\<lambda>_.
       logical_indices_loop l num_dims current_indices pad_offset (acc[nat logical_dim := v]) rest)))"

definition DelinearizeIndexForNestedTiling :: "Shape \<Rightarrow> int \<Rightarrow> int list status_or" where
  "DelinearizeIndexForNestedTiling s linear_index =
     bindE (checked_array s) (\<lambda>(ds, l).
       if length ds = 0 then Inr []
       else
         bindE (physical_order l (length ds) ds) (\<lambda>current_shape.
         bindE (tiling_steps current_shape (tiles l)) (\<lambda>(steps, final_shape).
         bindE (delinearize_loop linear_index (rev final_shape)) (\<lambda>rev_indices.
         bindE (foldE untile (rev rev_indices) (rev steps)) (\<lambda>current_indices.
           logical_indices_loop l (length ds) current_indices
             (int (length current_indices) - int (length ds)) (replicate (length ds) 0) [0..<length ds])))))"

text \<open>\<open>IsUntiledLayout\<close>: one tile applied to the suffix of the shape; \<open>None\<close> is \<open>return false\<close>.\<close>

fun untiled_tile :: "bool \<Rightarrow> (int \<times> int) list \<Rightarrow> int list option status_or" where
  "untiled_tile allow_multiple_tiles [] = Inr (Some [])"
| "untiled_tile allow_multiple_tiles ((d, t) # rest) =
     bindE (cmod d t) (\<lambda>r.
     if r \<noteq> 0 then Inr None
     else if \<not> t > 0 then Inl (CheckFailed ''tile.dimension(i) > 0'')
     else bindE (cdiv d t) (\<lambda>q.
       if \<not> allow_multiple_tiles \<and> q \<noteq> 1 then Inr None
       else bindE (untiled_tile (allow_multiple_tiles \<and> t = 1) rest) (\<lambda>qs.
         Inr (map_option (\<lambda>ql. q # ql) qs))))"

fun IsUntiledLayout :: "Tile list \<Rightarrow> int list \<Rightarrow> bool status_or" where
  "IsUntiledLayout [] current_shape = Inr True"
| "IsUntiledLayout (tile # rest) current_shape =
     (let td = tile_dimensions tile; k = length current_shape - length td in
      if \<not> length td \<le> length current_shape then Inl (CheckFailed ''tile_ndims <= current_shape.size()'')
      else bindE (untiled_tile True (zip (drop k current_shape) td)) (\<lambda>qs.
        case qs of
          None \<Rightarrow> Inr False
        | Some outer \<Rightarrow> IsUntiledLayout rest (take k current_shape @ outer @ td)))"

section \<open>One level\<close>

lemma foldE_append: "foldE f s (xs @ ys) = bindE (foldE f s xs) (\<lambda>s'. foldE f s' ys)"
  by (induction xs arbitrary: s) (simp_all add: bindE_assoc)

lemma div_less_ceil:
  fixes d e t :: int
  assumes "0 \<le> e" "e < d" "0 < t"
  shows "0 \<le> e div t" "e div t < - ((- d) div t)"
proof -
  show "0 \<le> e div t" using assms by (simp add: pos_imp_zdiv_nonneg_iff)
  have "e div t * t \<le> e" using assms rounding(3) [OF assms(3), of e] by linarith
  also have "e < - ((- d) div t) * t" using assms rounding(1) [OF assms(3), of d] by linarith
  finally show "e div t < - ((- d) div t)" by (rule mult_right_less_imp_less) (use assms(3) in simp)
qed

lemma mapE_pairs:
  "(\<And>i. i \<in> set ns \<Longrightarrow> F (a i) (b i) = Inr (g i)) \<Longrightarrow>
   mapE (\<lambda>(d, t). F d t) (map (\<lambda>i. (a i, b i)) ns) = Inr (map g ns)"
  by (induction ns) auto

lemma tile_level_ok:
  assumes "in_box cs ci" "length td \<le> length cs" "list_all (\<lambda>t. 0 < t) td"
  obtains S I where "tile_shape td cs = Inr S" "tile_index td ci = Inr I" "in_box S I"
    "length S = length cs + length td" "untile I (cs, td) = Inr ci"
proof -
  let ?k = "length cs - length td"
  have len: "length ci = length cs" by (rule in_box_length [OF assms(1)])
  have t: "0 < td ! i" if "i < length td" for i using assms(3) that by (simp add: list_all_length)
  have e: "0 \<le> ci ! (?k + i)" "ci ! (?k + i) < cs ! (?k + i)" if "i < length td" for i
    using assms(1,2) that by (auto simp: in_box_nth)
  let ?O = "map (\<lambda>i. ci ! (?k + i) div td ! i) [0..<length td]"
  let ?J = "map (\<lambda>i. ci ! (?k + i) mod td ! i) [0..<length td]"
  let ?C = "map (\<lambda>i. - ((- (cs ! (?k + i))) div td ! i)) [0..<length td]"
  have z: "zip (drop ?k xs) td = map (\<lambda>i. (xs ! (?k + i), td ! i)) [0..<length td]"
    if "length xs = length cs" for xs :: "int list"
    by (rule nth_equalityI) (use that assms(2) in auto)
  have S: "tile_shape td cs = Inr (take ?k cs @ ?C @ td)"
    unfolding tile_shape_def z [OF refl] Let_def
    by (subst mapE_pairs [where g = "\<lambda>i. - ((- (cs ! (?k + i))) div td ! i)"]) (simp_all add: CeilOfRatio_pos t)
  have I: "tile_index td ci = Inr (take ?k ci @ ?O @ ?J)"
    unfolding tile_index_def len z [OF len] Let_def
    by (subst mapE_pairs [where g = "\<lambda>i. ci ! (?k + i) div td ! i"], simp add: cdiv_pos t e)
      (subst mapE_pairs [where g = "\<lambda>i. ci ! (?k + i) mod td ! i"], simp_all add: cmod_pos t e)
  have "in_box (take ?k cs) (take ?k ci)" using assms(1) len by (auto simp: in_box_nth)
  moreover have "in_box ?C ?O" unfolding in_box_nth by (simp add: div_less_ceil(2) pos_imp_zdiv_nonneg_iff e t)
  moreover have "in_box td ?J" unfolding in_box_nth by (simp add: t)
  ultimately have "in_box (take ?k cs @ ?C @ td) (take ?k ci @ ?O @ ?J)"
    using len by (simp add: in_box_append)
  moreover have "untile (take ?k ci @ ?O @ ?J) (cs, td) = Inr ci"
  proof -
    let ?I = "take ?k ci @ ?O @ ?J"
    have "mapE (\<lambda>i. at_index ?I (int i)) [0..<?k] = Inr (map (\<lambda>i. ci ! i) [0..<?k])"
      by (rule mapE_all_Inr) (use len assms(2) in \<open>simp add: at_index_def nth_append\<close>)
    also have "map (\<lambda>i. ci ! i) [0..<?k] = take ?k ci" by (rule nth_equalityI) (use len in auto)
    finally have 1: "mapE (\<lambda>i. at_index ?I (int i)) [0..<?k] = Inr (take ?k ci)" .
    have "mapE (\<lambda>i. bindE (at_index ?I (int (?k + i))) (\<lambda>outer_idx.
                       bindE (at_index ?I (int (?k + length td + i))) (\<lambda>inner_idx.
                         Inr (outer_idx * (td ! i) + inner_idx)))) [0..<length td] =
        Inr (map (\<lambda>i. ci ! (?k + i)) [0..<length td])"
    proof (rule mapE_all_Inr)
      fix i assume "i \<in> set [0..<length td]"
      then have i: "i < length td" by simp
      have "?I ! (?k + i) = ci ! (?k + i) div td ! i" "?I ! (?k + length td + i) = ci ! (?k + i) mod td ! i"
        using i len assms(2) by (simp_all add: nth_append) linarith+
      moreover have "length ?I = ?k + length td + length td" using len assms(2) by simp
      ultimately show "bindE (at_index ?I (int (?k + i))) (\<lambda>outer_idx.
                       bindE (at_index ?I (int (?k + length td + i))) (\<lambda>inner_idx.
                         Inr (outer_idx * (td ! i) + inner_idx))) = Inr (ci ! (?k + i))"
        using i by (simp add: at_index_def del: of_nat_add length_append) (rule div_mult_mod_eq)
    qed
    also have "map (\<lambda>i. ci ! (?k + i)) [0..<length td] = drop ?k ci"
      by (rule nth_equalityI) (use len assms(2) in auto)
    finally have 2: "mapE (\<lambda>i. bindE (at_index ?I (int (?k + i))) (\<lambda>outer_idx.
                       bindE (at_index ?I (int (?k + length td + i))) (\<lambda>inner_idx.
                         Inr (outer_idx * (td ! i) + inner_idx)))) [0..<length td] = Inr (drop ?k ci)" .
    show ?thesis unfolding untile_def Let_def prod.case using 1 2 by simp
  qed
  ultimately show thesis using that [OF S I] assms(2) by simp
qed

section \<open>All levels\<close>

text \<open>
  The tiles can be undone one after the other: sizes are positive and no tile after the first has
  more dimensions than the shape it is applied to.
\<close>

fun tiles_fit :: "nat \<Rightarrow> Tile list \<Rightarrow> bool" where
  "tiles_fit n [] = True"
| "tiles_fit n (t # ts) \<longleftrightarrow>
     length (tile_dimensions t) \<le> n \<and> list_all (\<lambda>d. 0 < d) (tile_dimensions t) \<and>
     tiles_fit (n + length (tile_dimensions t)) ts"

definition nested_tiles_ok :: "nat \<Rightarrow> Tile list \<Rightarrow> bool" where
  "nested_tiles_ok n ts =
     tiles_fit (case ts of [] \<Rightarrow> n | t # _ \<Rightarrow> max n (length (tile_dimensions t))) ts"

lemma pad_left_id: "k \<le> length xs \<Longrightarrow> pad_left v k xs = xs"
  by (simp add: pad_left_def)

lemma length_pad_left [simp]: "length (pad_left v k xs) = max (length xs) k"
  by (simp add: pad_left_def)

lemma in_box_pad_left: "in_box cs ci \<Longrightarrow> in_box (pad_left 1 k cs) (pad_left 0 k ci)"
  using in_box_length [of cs ci] by (simp add: pad_left_def in_box_append) (simp add: in_box_nth)

lemma tiling_level_pair:
  "tile_shape (tile_dimensions t) (pad_left 1 (length (tile_dimensions t)) cs) = Inr S \<Longrightarrow>
   tile_index (tile_dimensions t) (pad_left 0 (length (tile_dimensions t)) ci) = Inr I \<Longrightarrow>
   tiling_level (cs, ci) t = Inr (S, I)"
  by (simp add: tiling_level_def)

lemma tiling_level_padded:
  "tiling_level (pad_left 1 (length (tile_dimensions t)) cs, pad_left 0 (length (tile_dimensions t)) ci) t =
   tiling_level (cs, ci) t"
  by (simp add: tiling_level_def pad_left_id)

lemma tiling_levels:
  assumes "in_box cs ci" "tiles_fit (length cs) ts"
  obtains S I steps where "foldE tiling_level (cs, ci) ts = Inr (S, I)" "tiling_steps cs ts = Inr (steps, S)"
    "in_box S I" "foldE untile I (rev steps) = Inr ci"
  using assms
proof (induction ts arbitrary: cs ci thesis)
  case (Cons t ts)
  let ?td = "tile_dimensions t"
  have fit: "length ?td \<le> length cs" "list_all (\<lambda>d. 0 < d) ?td" "tiles_fit (length cs + length ?td) ts"
    using Cons.prems by auto
  obtain S I where SI: "tile_shape ?td cs = Inr S" "tile_index ?td ci = Inr I" "in_box S I"
    "length S = length cs + length ?td" "untile I (cs, ?td) = Inr ci"
    using tile_level_ok [OF Cons.prems(2) fit(1,2)] .
  obtain S' I' steps where rest: "foldE tiling_level (S, I) ts = Inr (S', I')" "tiling_steps S ts = Inr (steps, S')"
    "in_box S' I'" "foldE untile I' (rev steps) = Inr I"
    using Cons.IH [OF _ SI(3)] fit(3) SI(4) by metis
  have pad: "pad_left 1 (length ?td) cs = cs" "pad_left 0 (length ?td) ci = ci"
    using fit(1) in_box_length [OF Cons.prems(2)] by (simp_all add: pad_left_id)
  show ?case
    by (rule Cons.prems(1) [of S' I' "(cs, ?td) # steps"])
      (use SI rest pad in \<open>simp_all add: tiling_level_pair Let_def foldE_append\<close>)
qed simp

lemma nested_levels:
  assumes "in_box cs ci" "nested_tiles_ok (length cs) ts"
  obtains S I steps k where "foldE tiling_level (cs, ci) ts = Inr (S, I)" "tiling_steps cs ts = Inr (steps, S)"
    "in_box S I" "foldE untile I (rev steps) = Inr (pad_left 0 k ci)"
proof (cases ts)
  case Nil
  with that [of cs ci "[]" 0] assms(1) show thesis by (simp add: pad_left_def)
next
  case (Cons t ts')
  let ?k = "length (tile_dimensions t)"
  have "in_box (pad_left 1 ?k cs) (pad_left 0 ?k ci)" by (rule in_box_pad_left [OF assms(1)])
  moreover have "tiles_fit (length (pad_left 1 ?k cs)) ts" using assms(2) Cons by (simp add: nested_tiles_ok_def)
  ultimately obtain S I steps where S: "foldE tiling_level (pad_left 1 ?k cs, pad_left 0 ?k ci) ts = Inr (S, I)"
    "tiling_steps (pad_left 1 ?k cs) ts = Inr (steps, S)" "in_box S I" "foldE untile I (rev steps) = Inr (pad_left 0 ?k ci)"
    by (rule tiling_levels)
  have "foldE tiling_level (cs, ci) ts = Inr (S, I)" "tiling_steps cs ts = Inr (steps, S)"
    using S(1,2) Cons by (simp_all add: tiling_level_padded Let_def pad_left_id)
  then show thesis using that S(3,4) by blast
qed

lemma linearize_loop_weigh:
  "length ds = length is \<Longrightarrow> linearize_loop li m (zip ds is) = li + m * weigh ds is"
  by (induction ds "is" arbitrary: li m rule: list_induct2) (simp_all add: algebra_simps)

lemma delinearize_loop_digits:
  "list_all (\<lambda>d. 0 < d) ds \<Longrightarrow> 0 \<le> n \<Longrightarrow> delinearize_loop n ds = Inr (digits ds n)"
  by (induction ds arbitrary: n) (simp_all add: cmod_pos cdiv_pos pos_imp_zdiv_nonneg_iff)

lemma physical_order_pick:
  assumes "IsPermutation (minor_to_major l)" "length (minor_to_major l) = n" "length xs = n"
  shows "physical_order l n xs = Inr (pick xs (rev (minor_to_major l)))"
proof -
  let ?m = "minor_to_major l"
  have "mapE (\<lambda>i. bindE (at_index ?m (int i)) (at_index xs)) (rev [0..<n]) =
      Inr (map (\<lambda>i. xs ! nat (?m ! i)) (rev [0..<n]))"
    by (rule mapE_all_Inr) (use assms IsPermutation_nth [OF assms(1)] in \<open>auto simp: at_index_def\<close>)
  also have "map (\<lambda>i. xs ! nat (?m ! i)) (rev [0..<n]) = pick xs (rev ?m)"
    by (rule nth_equalityI) (use assms(2) in \<open>auto simp: pick_def rev_nth\<close>)
  finally show ?thesis by (simp add: physical_order_def)
qed

lemma logical_indices_loop_scatter:
  assumes "IsPermutation (minor_to_major l)" "length (minor_to_major l) = n" "length acc = n"
    "\<forall>i\<in>set js. i < n" "length cur = k + n"
  shows "logical_indices_loop l n cur (int k) acc js =
    Inr (scatter_loop acc (zip (map (\<lambda>i. rev (minor_to_major l) ! i) js) (map (\<lambda>i. cur ! (k + i)) js)))"
  using assms(3,4)
proof (induction js arbitrary: acc)
  case (Cons i js)
  let ?m = "minor_to_major l"
  have i: "n - 1 - i < length ?m" "rev ?m ! i = ?m ! (n - 1 - i)" using Cons.prems assms(2) by (auto simp: rev_nth)
  have a: "at_index ?m (int (n - 1 - i)) = Inr (rev ?m ! i)" "at_index cur (int k + int i) = Inr (cur ! (k + i))"
    using i Cons.prems assms(5) by (auto simp: at_index_def nat_add_distrib simp del: of_nat_diff)
  have "at_index acc (rev ?m ! i) = Inr (acc ! nat (rev ?m ! i))"
    using IsPermutation_nth [OF assms(1) i(1)] i Cons.prems assms(2) by (simp add: at_index_def)
  then show ?case using Cons a by (simp del: of_nat_diff)
qed simp

section \<open>The whole linearisation\<close>

text \<open>The number of elements of the tiled and padded shape.\<close>

definition tiled_extent :: "Shape \<Rightarrow> int" where
  "tiled_extent s =
     (case checked_array s of
        Inl _ \<Rightarrow> 0
      | Inr (ds, l) \<Rightarrow>
          (if ds = [] then 1
           else case bindE (physical_order l (length ds) ds) (\<lambda>cs. tiling_steps cs (tiles l)) of
                  Inr (_, final_shape) \<Rightarrow> prod_list final_shape | Inl _ \<Rightarrow> 0))"

definition tiled_array :: "Shape \<Rightarrow> bool" where
  "tiled_array s \<longleftrightarrow> IsArray s \<and> (\<exists>ds dy l. array_state_maybe_underneath_buffer s = Inr (ds, dy, Some l) \<and>
     length (minor_to_major l) = length ds \<and> IsPermutation (minor_to_major l) \<and>
     nested_tiles_ok (length ds) (tiles l))"

lemma checked_array_Inr:
  "IsArray s \<Longrightarrow> array_state_maybe_underneath_buffer s = Inr (ds, dy, Some l) \<Longrightarrow> checked_array s = Inr (ds, l)"
  by (simp add: checked_array_def array_reads)

lemma nested_tiling_inverse:
  assumes "tiled_array s" "index_in s is"
  obtains n where "LinearIndexForNestedTiling s is = Inr n" "0 \<le> n" "n < tiled_extent s"
    "DelinearizeIndexForNestedTiling s n = Inr is"
proof -
  obtain ds dy l where a: "array_state_maybe_underneath_buffer s = Inr (ds, dy, Some l)"
    and m: "length (minor_to_major l) = length ds" "IsPermutation (minor_to_major l)"
    and ts: "nested_tiles_ok (length ds) (tiles l)" and arr: "IsArray s"
    using assms(1) by (auto simp: tiled_array_def)
  let ?m = "rev (minor_to_major l)"
  have ck: "checked_array s = Inr (ds, l)" by (rule checked_array_Inr [OF arr a])
  have box: "in_box ds is" using assms(2) dimensions_array [OF a] by (simp add: index_in_def)
  have len: "length is = length ds" by (rule in_box_length [OF box])
  have po: "physical_order l (length ds) xs = Inr (pick xs ?m)" if "length xs = length ds" for xs
    by (rule physical_order_pick [OF m(2,1) that])
  show thesis
  proof (cases "ds = []")
    case True
    then show thesis using that [of 0] ck len
      by (simp add: LinearIndexForNestedTiling_def DelinearizeIndexForNestedTiling_def tiled_extent_def)
  next
    case False
    have pb: "in_box (pick ds ?m) (pick is ?m)"
      by (rule in_box_pick [OF box]) (use m in \<open>auto simp: IsPermutation_iff\<close>)
    have "length (pick ds ?m) = length ds" using m by (simp add: pick_def)
    then obtain S I steps k where S: "foldE tiling_level (pick ds ?m, pick is ?m) (tiles l) = Inr (S, I)"
      "tiling_steps (pick ds ?m) (tiles l) = Inr (steps, S)" "in_box S I"
      "foldE untile I (rev steps) = Inr (pad_left 0 k (pick is ?m))"
      using nested_levels [OF pb] ts by metis
    let ?n = "weigh (rev S) (rev I)"
    have lin: "LinearIndexForNestedTiling s is = Inr ?n"
      using False ck len po S(1) in_box_length [OF S(3)]
      by (simp add: LinearIndexForNestedTiling_def zip_rev [symmetric] linearize_loop_weigh)
    have range: "0 \<le> ?n" "?n < prod_list S"
      using weigh_range [of "rev S" "rev I"] S(3) by (simp_all add: prod_list.rev)
    have dig: "delinearize_loop ?n (rev S) = Inr (rev I)"
      using delinearize_loop_digits [of "rev S" ?n] in_box_pos [of "rev S" "rev I"] digits_weigh [of "rev S" "rev I"] S(3) range
      by simp
    let ?c = "pad_left 0 k (pick is ?m)" and ?p = "k - length ds"
    have c: "length ?c = ?p + length ds" "\<And>i. i < length ds \<Longrightarrow> ?c ! (?p + i) = pick is ?m ! i"
      using m by (simp_all add: pad_left_def pick_def nth_append)
    have off: "int (length ?c) - int (length ds) = int ?p" using c(1) by simp
    have mp: "map (\<lambda>i. ?m ! i) [0..<length ds] = ?m" "map (\<lambda>i. ?c ! (?p + i)) [0..<length ds] = pick is ?m"
      by (rule nth_equalityI; use m c in \<open>auto simp: pick_def\<close>)+
    have "logical_indices_loop l (length ds) ?c (int ?p) (replicate (length ds) 0) [0..<length ds] = Inr is"
      using logical_indices_loop_scatter [OF m(2,1), of "replicate (length ds) 0" "[0..<length ds]" ?c ?p] c(1)
        scatter_pick [of ?m "is" "replicate (length ds) 0"] m len
      unfolding mp by (simp add: IsPermutation_rev)
    then have "DelinearizeIndexForNestedTiling s ?n = Inr is"
      using False ck po [OF refl] S(2,4) dig off by (simp add: DelinearizeIndexForNestedTiling_def)
    moreover have "tiled_extent s = prod_list S" using False ck po [OF refl] S(2) by (simp add: tiled_extent_def)
    ultimately show thesis using that lin range by simp
  qed
qed

interpretation nested_tiling: linearisation tiled_array index_in tiled_extent
  LinearIndexForNestedTiling DelinearizeIndexForNestedTiling
proof
  fix s "is" assume s: "tiled_array s" and i: "index_in s is"
  show "\<exists>n. LinearIndexForNestedTiling s is = Inr n \<and> 0 \<le> n \<and> n < tiled_extent s"
    using nested_tiling_inverse [OF s i] by blast
  show "DelinearizeIndexForNestedTiling s n = Inr is" if "LinearIndexForNestedTiling s is = Inr n" for n
    using nested_tiling_inverse [OF s i] that by (metis sum.inject(2))
qed


definition tiled_shape :: "int list \<Rightarrow> int list \<Rightarrow> int list list \<Rightarrow> Shape" where
  "tiled_shape ds m2m tds = Shape F32 (ArrayState ds (replicate (length ds) False)
     (Some (Layout PRIMITIVE_TYPE_INVALID PRIMITIVE_TYPE_INVALID 0 0 m2m (map Tile tds) [] 1 None 0)))"


text \<open>
  The condition on later tiles is needed: a second tile with more dimensions than the shape after
  the first is padded by \<open>LinearIndexForNestedTiling\<close>, and the inverse does not drop the padding
  when it goes back to the first level. Validation accepts this layout.
\<close>

lemma nested_tiling_padding_not_inverted:
  "ValidateLayoutInShape False (tiled_shape [4] [0] [[2], [1, 2, 2]]) = Inr ()"
  "LinearIndexForNestedTiling (tiled_shape [4] [0] [[2], [1, 2, 2]]) [3] = Inr 3"
  "DelinearizeIndexForNestedTiling (tiled_shape [4] [0] [[2], [1, 2, 2]]) 3 = Inr [1]"
  by code_simp+

end
