(* ===== verification/ShapeUtil.thy ===== *)
theory ShapeUtil
  imports LayoutUtil OverflowUtil MathUtil
begin

text \<open>
  \<open>xla/shape_util.h\<close> and \<open>xla/shape_util.cc\<close>, first part: factories with validation, predicates
  and comparisons, sizes, and subshapes. The parameter \<open>L\<close> supplies the widths of the
  floating-point types, which come from \<open>ml_dtypes\<close>. Operations on dimensions are in
  \<open>ShapeUtilDims\<close>.
\<close>

section \<open>Predicates and comparisons\<close>

definition IsScalar :: "Shape \<Rightarrow> bool status_or" where
  "IsScalar s = (if \<not> IsArray s then Inr False else bindE (dimsE s) (\<lambda>ds. Inr (length ds = 0)))"

definition ElementIsIntegral :: "Shape \<Rightarrow> bool" where
  "ElementIsIntegral s = IsIntegralType (element_type s)"

definition ElementHasBitWidth :: "native_limits \<Rightarrow> Shape \<Rightarrow> int \<Rightarrow> bool status_or" where
  "ElementHasBitWidth L s bits =
     (if \<not> IsArray s then Inr False else bindE (BitWidth L (element_type s)) (\<lambda>w. Inr (w = bits)))"

definition ElementIsSigned :: "Shape \<Rightarrow> bool" where
  "ElementIsSigned s \<longleftrightarrow> IsSignedIntegralType (element_type s) \<or> IsFloatingPointType (element_type s)"

definition ElementIsComplex :: "Shape \<Rightarrow> bool" where
  "ElementIsComplex s = IsComplexType (element_type s)"

definition ElementIsFloating :: "Shape \<Rightarrow> bool" where
  "ElementIsFloating s = IsFloatingPointType (element_type s)"

definition SameElementType :: "Shape \<Rightarrow> Shape \<Rightarrow> bool" where
  "SameElementType lhs rhs \<longleftrightarrow> element_type lhs = element_type rhs"

definition SameElementTypeIgnoringFpPrecision :: "Shape \<Rightarrow> Shape \<Rightarrow> bool" where
  "SameElementTypeIgnoringFpPrecision a b =
     (if ElementIsFloating a \<and> ElementIsFloating b then True else SameElementType a b)"

definition SameRank :: "Shape \<Rightarrow> Shape \<Rightarrow> bool status_or" where
  "SameRank lhs rhs = bindE (dimsE lhs) (\<lambda>l. bindE (dimsE rhs) (\<lambda>r. Inr (length l = length r)))"

definition SameDimensions :: "Shape \<Rightarrow> Shape \<Rightarrow> bool status_or" where
  "SameDimensions lhs rhs =
     bindE (SameRank lhs rhs) (\<lambda>same.
     if \<not> same then Inr False
     else bindE (dimsE lhs) (\<lambda>ls. bindE (dimsE rhs) (\<lambda>rs.
       Inr (\<not> list_ex (\<lambda>(l, r). l \<noteq> kUnboundedSize \<and> r \<noteq> kUnboundedSize \<and> l \<noteq> r) (zip ls rs)))))"

definition Compatible :: "Shape \<Rightarrow> Shape \<Rightarrow> bool" where
  "Compatible lhs rhs =
     Shape_Equal (Shape_Equal_default\<lparr>ignore_dynamic_dimension := True, ignore_layout := True\<rparr>) lhs rhs"

definition CompatibleIgnoringElementType :: "Shape \<Rightarrow> Shape \<Rightarrow> bool" where
  "CompatibleIgnoringElementType lhs rhs =
     Shape_Equal (Shape_Equal_default\<lparr>ignore_dynamic_dimension := True, ignore_element_type := True,
       ignore_layout := True\<rparr>) lhs rhs"

definition CompatibleIgnoringFpPrecision :: "Shape \<Rightarrow> Shape \<Rightarrow> bool" where
  "CompatibleIgnoringFpPrecision lhs rhs =
     Shape_Equal (Shape_Equal_default\<lparr>ignore_dynamic_dimension := True, ignore_fp_precision := True,
       ignore_layout := True\<rparr>) lhs rhs"

definition CompatibleKind :: "Shape \<Rightarrow> Shape \<Rightarrow> bool \<Rightarrow> bool" where
  "CompatibleKind lhs rhs ib =
     Shape_Equal (Shape_Equal_default\<lparr>ignore_buffer := ib, ignore_element_type := True,
       ignore_layout := True, ignore_dimensions := True, ignore_dynamic_dimension := True\<rparr>) lhs rhs"

definition TrueNumDimensions :: "Shape \<Rightarrow> int status_or" where
  "TrueNumDimensions s =
     (if \<not> IsArray s then Inl (CheckFailed ''TrueNumDimensions called on non-array shape'')
      else bindE (dimsE s) (\<lambda>ds. Inr (int (length (filter (\<lambda>d. d \<noteq> 1) ds)))))"

definition GetDimensionNumber :: "Shape \<Rightarrow> int \<Rightarrow> int status_or" where
  "GetDimensionNumber s n =
     bindE (if n < 0 then bindE (dimsE s) (\<lambda>ds. Inr (n + int (length ds))) else Inr n) (\<lambda>n'.
       if \<not> n' \<ge> 0 then Inl (CheckFailed ''dimension_number >= 0'') else Inr n')"

definition GetDimension :: "Shape \<Rightarrow> int \<Rightarrow> int status_or" where
  "GetDimension s n = bindE (GetDimensionNumber s n) (\<lambda>k. bindE (dimsE s) (\<lambda>ds. at_index ds k))"

section \<open>Sizes\<close>

text \<open>The accumulation of \<open>ExtentProduct\<close>; \<open>skip\<close> leaves unbounded dimensions out.\<close>

fun extent_loop :: "bool \<Rightarrow> int \<Rightarrow> bool \<Rightarrow> int list \<Rightarrow> int \<times> bool" where
  "extent_loop skip product any_overflows [] = (product, any_overflows)"
| "extent_loop skip product any_overflows (d # ds) =
     (if skip \<and> d = kUnboundedSize then extent_loop skip product any_overflows ds
      else case OverflowSafeMultiply_int product d of
             (product', overflow) \<Rightarrow> extent_loop skip product' (any_overflows \<or> overflow) ds)"

definition ExtentProduct :: "bool \<Rightarrow> Shape \<Rightarrow> (int \<times> bool) status_or" where
  "ExtentProduct skip s = bindE (dimsE s) (\<lambda>ds. Inr (extent_loop skip 1 False ds))"

definition StaticExtentProduct :: "Shape \<Rightarrow> int status_or" where
  "StaticExtentProduct s = bindE (ExtentProduct True s) (\<lambda>(product, _). Inr product)"

definition ElementsIn :: "Shape \<Rightarrow> int status_or" where
  "ElementsIn s = bindE (ExtentProduct False s) (\<lambda>(product, _). Inr product)"

fun ElementsInRecursive :: "Shape \<Rightarrow> int status_or" where
  "ElementsInRecursive (Shape t st) =
     (if IsArray (Shape t st) then ElementsIn (Shape t st)
      else if t \<noteq> TUPLE then Inl (CheckFailed ''shape.IsArray() || shape.IsTuple()'')
      else case st of
             TupleState ss \<Rightarrow> bindE (mapE ElementsInRecursive ss) (\<lambda>ns. Inr (sum_list ns))
           | _ \<Rightarrow> Inl (CheckFailed ''Expected a tuple shape''))"

definition ByteSizeOfPrimitiveType :: "native_limits \<Rightarrow> PrimitiveType \<Rightarrow> int status_or" where
  "ByteSizeOfPrimitiveType L t = ByteWidth L t"

definition ByteSizeOfElements :: "native_limits \<Rightarrow> Shape \<Rightarrow> int status_or" where
  "ByteSizeOfElements L s =
     (if \<not> IsArray s then Inl (CheckFailed ''shape.IsArray()'')
      else bindE (ElementsIn s) (\<lambda>count.
        bindE (has_layout s) (\<lambda>h.
        bindE (if h then bindE (layoutE s) (\<lambda>l. Inr (element_size_in_bits l)) else Inr 0) (\<lambda>bits.
        if h \<and> bits \<noteq> 0 then CeilOfRatio (count * bits) 8
        else bindE (ByteSizeOfPrimitiveType L (element_type s)) (\<lambda>w. Inr (count * w))))))"

definition ByteSizeOfTupleIndexTable :: "Shape \<Rightarrow> int \<Rightarrow> int status_or" where
  "ByteSizeOfTupleIndexTable s pointer_size =
     (if element_type s \<noteq> TUPLE then Inl (CheckFailed ''TUPLE == shape.element_type()'')
      else if \<not> pointer_size > 0 then Inl (CheckFailed ''pointer_size > 0'')
      else Inr (pointer_size * int (length (tuple_shapes s))))"

definition ByteSizeOf :: "native_limits \<Rightarrow> Shape \<Rightarrow> int \<Rightarrow> int status_or" where
  "ByteSizeOf L s pointer_size =
     (if element_type s = TUPLE then ByteSizeOfTupleIndexTable s pointer_size
      else if IsBuffer s then
        (case shape_state s of BufferState b \<Rightarrow> ByteSizeOfElements L b
         | _ \<Rightarrow> Inl (CheckFailed ''Expected a buffer shape''))
      else if IsArrayExcludingBuffer s then ByteSizeOfElements L s
      else if element_type s = TOKEN then Inr 0
      else if element_type s = OPAQUE_TYPE then
        (if \<not> pointer_size > 0 then Inl (CheckFailed ''pointer_size > 0'') else Inr pointer_size)
      else Inl (CheckFailed ''primitive type has no definitive size''))"

fun ByteSizeOfElementsRecursive :: "native_limits \<Rightarrow> Shape \<Rightarrow> int status_or" where
  "ByteSizeOfElementsRecursive L (Shape t st) =
     (if IsToken (Shape t st) then Inr 0
      else if IsArray (Shape t st) then ByteSizeOfElements L (Shape t st)
      else if t \<noteq> TUPLE then Inl (CheckFailed ''shape.IsArray() || shape.IsTuple()'')
      else case st of
             TupleState ss \<Rightarrow> bindE (mapE (ByteSizeOfElementsRecursive L) ss) (\<lambda>ns. Inr (sum_list ns))
           | _ \<Rightarrow> Inl (CheckFailed ''Expected a tuple shape''))"

fun HasPrimitiveType :: "Shape \<Rightarrow> PrimitiveType \<Rightarrow> bool" where
  "HasPrimitiveType (Shape t st) primitive_type =
     (if element_type (Shape t st) = primitive_type then True
      else if t = TUPLE then
        (case st of TupleState ss \<Rightarrow> list_ex (\<lambda>s. HasPrimitiveType s primitive_type) ss | _ \<Rightarrow> False)
      else False)"

definition IsZeroElementArray :: "Shape \<Rightarrow> bool status_or" where
  "IsZeroElementArray s = (if \<not> IsArray s then Inr False else bindE (dimsE s) (\<lambda>ds. Inr (0 \<in> set ds)))"

section \<open>Validation\<close>

fun validate_dimensions_loop :: "int \<Rightarrow> bool \<Rightarrow> int list \<Rightarrow> unit status_or" where
  "validate_dimensions_loop product any_overflows [] =
     (if any_overflows then Inl (InvalidArgument ''Dimensions overflow.'') else Inr ())"
| "validate_dimensions_loop product any_overflows (d # ds) =
     (if d = kUnboundedSize then validate_dimensions_loop product any_overflows ds
      else if d < 0 then Inl (InvalidArgument ''Negative dimension'')
      else case OverflowSafeMultiply_int product d of
             (product', overflow) \<Rightarrow> validate_dimensions_loop product' (any_overflows \<or> overflow) ds)"

definition ValidateDimensions :: "Shape \<Rightarrow> unit status_or" where
  "ValidateDimensions s = bindE (dimsE s) (\<lambda>ds. validate_dimensions_loop 1 False ds)"

definition ValidateShapeSize :: "native_limits \<Rightarrow> Shape \<Rightarrow> unit status_or" where
  "ValidateShapeSize L s =
     (if \<not> IsArray s then Inr ()
      else bindE (ExtentProduct True s) (\<lambda>(extent_product, extent_overflow).
        bindE (ByteSizeOfPrimitiveType L (element_type s)) (\<lambda>w.
        case OverflowSafeMultiply_int extent_product w of
          (dense_shape_size, byte_width_overflow) \<Rightarrow>
            if extent_overflow \<or> byte_width_overflow
            then Inl (InvalidArgument ''Shape size may overflow int64_t.'') else Inr ())))"

fun ValidateNonLayoutProperties :: "native_limits \<Rightarrow> Shape \<Rightarrow> unit status_or" where
  "ValidateNonLayoutProperties L (Shape t st) =
     (if t = PRIMITIVE_TYPE_INVALID then Inl (InvalidArgument ''Invalid element type.'')
      else if t = TUPLE then
        (case st of
           TupleState ss \<Rightarrow> for_each (ValidateNonLayoutProperties L) ss
         | _ \<Rightarrow> Inl (InvalidArgument ''This type must have a tuple state.''))
      else if t = BUFFER then
        (case st of
           BufferState b \<Rightarrow> ValidateNonLayoutProperties L b
         | _ \<Rightarrow> Inl (InvalidArgument ''This type must have a buffer state.''))
      else if t = TOKEN then
        (if st = TokenState then Inr () else Inl (InvalidArgument ''This type must have a token state.''))
      else if t = OPAQUE_TYPE then
        (if st = OpaqueState then Inr () else Inl (InvalidArgument ''This type must have an opaque state.''))
      else if IsArrayType t then
        (case st of
           ArrayState _ _ _ \<Rightarrow>
             bindE (ValidateDimensions (Shape t st)) (\<lambda>_. ValidateShapeSize L (Shape t st))
         | _ \<Rightarrow> Inl (InvalidArgument ''This type must have an array state.''))
      else Inl (InvalidArgument ''Unsupported element type.''))"

definition ValidateShapeWithOptionalLayout :: "native_limits \<Rightarrow> Shape \<Rightarrow> unit status_or" where
  "ValidateShapeWithOptionalLayout L s =
     bindE (ValidateNonLayoutProperties L s) (\<lambda>_. ValidateLayoutInShape True s)"

definition ValidateShape :: "native_limits \<Rightarrow> Shape \<Rightarrow> unit status_or" where
  "ValidateShape L s = bindE (ValidateNonLayoutProperties L s) (\<lambda>_. ValidateLayoutInShape False s)"

section \<open>Factories\<close>

definition MakeDynamicDimensions :: "int list \<Rightarrow> bool list" where
  "MakeDynamicDimensions dims = map (\<lambda>d. d = kUnboundedSize) dims"

text \<open>
  The loop of \<open>MakeValidatedShape\<close>: the running product of the static extents with its overflow
  flag, and the shape with its layout growing by one entry per dimension.
\<close>

definition push_minor_to_major :: "Shape \<Rightarrow> int \<Rightarrow> Shape status_or" where
  "push_minor_to_major s k =
     bindE (layoutE s) (\<lambda>l. set_layout s (set_minor_to_major (minor_to_major l @ [k]) l))"

fun make_shape_loop :: "int \<Rightarrow> int \<Rightarrow> int \<Rightarrow> bool \<Rightarrow> Shape \<Rightarrow> (int \<times> bool) list \<Rightarrow> (bool \<times> Shape) status_or" where
  "make_shape_loop ndims i product any_overflows s [] = Inr (any_overflows, s)"
| "make_shape_loop ndims i product any_overflows s ((d, is_dynamic) # rest) =
     (if \<not> IsValidDimensionSize d is_dynamic then Inl (InvalidArgument ''Invalid dimension size'')
      else case (if d \<noteq> kUnboundedSize then OverflowSafeMultiply_int product d else (product, False)) of
             (product', overflow) \<Rightarrow>
               bindE (add_dimensions s d is_dynamic) (\<lambda>s'.
               bindE (push_minor_to_major s' (ndims - 1 - i)) (\<lambda>s''.
                 make_shape_loop ndims (i + 1) product' (any_overflows \<or> overflow) s'' rest)))"

definition MakeValidatedShape_dynamic ::
  "native_limits \<Rightarrow> PrimitiveType \<Rightarrow> int list \<Rightarrow> bool list \<Rightarrow> Shape status_or" where
  "MakeValidatedShape_dynamic L t dims dynamic_dims =
     (if length dynamic_dims \<noteq> length dims
      then Inl (InvalidArgument ''dynamic dimensions size did not match number of dimensions'')
      else bindE (if IsArrayType t then ByteWidth L t else Inr (-1)) (\<lambda>dense_shape_size.
           bindE (set_element_type default_shape t) (\<lambda>s.
           bindE (set_layout s (simple_layout [])) (\<lambda>s'.
           bindE (make_shape_loop (int (length dims)) 0 dense_shape_size False s' (zip dims dynamic_dims))
             (\<lambda>(any_overflows, shape).
               if any_overflows then Inl (InvalidArgument ''overflow in static extent product'')
               else Inr shape)))))"

definition MakeValidatedShape :: "native_limits \<Rightarrow> PrimitiveType \<Rightarrow> int list \<Rightarrow> Shape status_or" where
  "MakeValidatedShape L t dims = MakeValidatedShape_dynamic L t dims (MakeDynamicDimensions dims)"

definition MakeValidatedBufferShape :: "Shape \<Rightarrow> Shape status_or" where
  "MakeValidatedBufferShape s =
     (if \<not> IsArrayExcludingBuffer s
      then Inl (InternalError ''element_shape must be an array shape to create a buffer shape.'')
      else Inr (Shape BUFFER (BufferState s)))"

definition MakeValidatedShapeWithLayoutInternal ::
  "native_limits \<Rightarrow> PrimitiveType \<Rightarrow> int list \<Rightarrow> int list \<Rightarrow> Tile list \<Rightarrow> int \<Rightarrow> PrimitiveType \<Rightarrow> PrimitiveType \<Rightarrow>
   int \<Rightarrow> int \<Rightarrow> SplitConfig list \<Rightarrow> Shape option \<Rightarrow> Shape status_or" where
  "MakeValidatedShapeWithLayoutInternal L t dims m2m ts tail index_t pointer_t esize mspace scs phys =
     (if length dims \<noteq> length m2m then Inl (InvalidArgument ''Dimensions size is %ld, but layout size is %ld.'')
      else if t = OPAQUE_TYPE \<or> t = TUPLE \<or> t = TOKEN then Inl (InvalidArgument ''Unsupported element type'')
      else bindE (MakeValidatedShape L t dims) (\<lambda>s.
           bindE (ByteSizeOfPrimitiveType L t) (\<lambda>w.
           bindE (MakeLayout m2m ts tail index_t pointer_t (if esize = w * 8 then 0 else esize) mspace scs phys 0) (\<lambda>l.
           bindE (set_layout s l) (\<lambda>s'.
           bindE (ValidateShape L s') (\<lambda>_. Inr s'))))))"

definition MakeValidatedShapeWithDenseLayout ::
  "native_limits \<Rightarrow> PrimitiveType \<Rightarrow> int list \<Rightarrow> int list \<Rightarrow> Tile list \<Rightarrow> int \<Rightarrow> int \<Rightarrow> int \<Rightarrow> SplitConfig list \<Rightarrow> Shape status_or" where
  "MakeValidatedShapeWithDenseLayout L t dims m2m ts tail esize mspace scs =
     MakeValidatedShapeWithLayoutInternal L t dims m2m ts tail PRIMITIVE_TYPE_INVALID PRIMITIVE_TYPE_INVALID
       esize mspace scs None"

definition MakeValidatedShapeWithDescendingLayout :: "native_limits \<Rightarrow> PrimitiveType \<Rightarrow> int list \<Rightarrow> Shape status_or" where
  "MakeValidatedShapeWithDescendingLayout L t dims =
     MakeValidatedShapeWithDenseLayout L t dims (rev (map int [0..<length dims])) [] 1 0 0 []"

definition MakeValidatedTupleShape :: "native_limits \<Rightarrow> Shape list \<Rightarrow> Shape status_or" where
  "MakeValidatedTupleShape L shapes =
     (let r = Shape TUPLE (TupleState shapes)
      in bindE (ValidateShapeWithOptionalLayout L r) (\<lambda>_. Inr r))"

definition MakeValidatedMaybeTupleShape :: "native_limits \<Rightarrow> Shape list \<Rightarrow> Shape status_or" where
  "MakeValidatedMaybeTupleShape L shapes =
     (if length shapes = 1 then Inr (hd shapes) else MakeValidatedTupleShape L shapes)"

text \<open>\<open>MakeTupleShape\<close> takes \<open>.value()\<close> of the validated factory, which stops on an error.\<close>

definition value_or_die :: "'a status_or \<Rightarrow> 'a status_or" where
  "value_or_die m = (case m of Inr x \<Rightarrow> Inr x | Inl _ \<Rightarrow> Inl (CheckFailed ''value() of an error status''))"

definition MakeTupleShape :: "native_limits \<Rightarrow> Shape list \<Rightarrow> Shape status_or" where
  "MakeTupleShape L shapes = value_or_die (MakeValidatedTupleShape L shapes)"

definition set_element_size_in_bits :: "int \<Rightarrow> Layout \<Rightarrow> Layout" where
  "set_element_size_in_bits b l =
     (case l of Layout it pt ms es m2m ts scs tp ps dm \<Rightarrow> Layout it pt ms b m2m ts scs tp ps dm)"

fun ChangeElementType :: "native_limits \<Rightarrow> PrimitiveType \<Rightarrow> Shape \<Rightarrow> Shape status_or" where
  "ChangeElementType L ty (Shape t st) =
     (if t = TUPLE then
        (case st of
           TupleState ss \<Rightarrow> bindE (mapE (ChangeElementType L ty) ss) (MakeTupleShape L)
         | _ \<Rightarrow> Inl (CheckFailed ''Expected a tuple shape''))
      else bindE (set_element_type (Shape t st) ty) (\<lambda>s.
           bindE (has_layout s) (\<lambda>h.
           if h \<and> \<not> IsSubByteNonPredType L ty
           then bindE (layoutE s) (\<lambda>l. set_layout s (set_element_size_in_bits 0 l))
           else Inr s)))"

section \<open>Subshapes\<close>

fun IndexIsValid :: "Shape \<Rightarrow> int list \<Rightarrow> bool" where
  "IndexIsValid s [] = True"
| "IndexIsValid s (i # rest) =
     (if \<not> IsTuple s \<or> i \<ge> int (length (tuple_shapes s)) \<or> i < 0 then False
      else IndexIsValid (tuple_shapes s ! nat i) rest)"

fun GetSubshape :: "Shape \<Rightarrow> int list \<Rightarrow> Shape status_or" where
  "GetSubshape s [] = Inr s"
| "GetSubshape s (i # rest) =
     (if \<not> IsTuple s then Inl (CheckFailed ''Invalid index for shape'')
      else bindE (at_index (tuple_shapes s) i) (\<lambda>s'. GetSubshape s' rest))"

fun TryGetSubshape :: "Shape \<Rightarrow> int list \<Rightarrow> Shape status_or" where
  "TryGetSubshape s [] = Inr s"
| "TryGetSubshape s (i # rest) =
     (if \<not> IsTuple s \<or> i < 0 \<or> i \<ge> int (length (tuple_shapes s))
      then Inl (InvalidArgument ''Shape index not a valid subshape index for tuple with shape'')
      else TryGetSubshape (tuple_shapes s ! nat i) rest)"

definition IsLeafIndex :: "Shape \<Rightarrow> int list \<Rightarrow> bool status_or" where
  "IsLeafIndex s i = bindE (GetSubshape s i) (\<lambda>sub. Inr (\<not> IsTuple sub))"

fun GetLeafCount :: "Shape \<Rightarrow> nat" where
  "GetLeafCount (Shape t st) =
     (if t \<noteq> TUPLE then 1
      else case st of TupleState ss \<Rightarrow> sum_list (map GetLeafCount ss) | _ \<Rightarrow> 0)"

text \<open>\<open>ForEachSubshape\<close> visits a shape and then its tuple elements, with their paths.\<close>

fun subshapes :: "Shape \<Rightarrow> int list \<Rightarrow> (int list \<times> Shape) list" where
  "subshapes (Shape t st) path =
     (path, Shape t st) #
     (case st of
        TupleState ss \<Rightarrow> concat (map (\<lambda>(s, i). subshapes s (path @ [i])) (zip ss (map int [0..<length ss])))
      | _ \<Rightarrow> [])"

definition GetLeafShapes :: "Shape \<Rightarrow> (int list \<times> Shape) list" where
  "GetLeafShapes s = filter (\<lambda>(i, sub). \<not> IsTuple sub) (subshapes s [])"

definition EqualStructure :: "Shape \<Rightarrow> Shape \<Rightarrow> bool" where
  "EqualStructure lhs rhs \<longleftrightarrow>
     list_all (\<lambda>(i, _). IndexIsValid rhs i) (subshapes lhs []) \<and>
     list_all (\<lambda>(i, _). IndexIsValid lhs i) (subshapes rhs [])"

section \<open>Factories make valid shapes\<close>

text \<open>Every partial product of the static extents, started at \<open>p\<close>, fits in 64 bits.\<close>

fun extents_fit :: "int \<Rightarrow> int list \<Rightarrow> bool" where
  "extents_fit p [] = True"
| "extents_fit p (d # ds) \<longleftrightarrow>
     (if d = kUnboundedSize then extents_fit p ds else in_int64 (p * d) \<and> extents_fit (p * d) ds)"

definition static_extent :: "int list \<Rightarrow> int" where
  "static_extent ds = prod_list (filter (\<lambda>d. d \<noteq> kUnboundedSize) ds)"

abbreviation size_ok :: "int \<Rightarrow> bool" where
  "size_ok d \<equiv> d = kUnboundedSize \<or> 0 \<le> d \<and> in_int64 d"

lemma kUnboundedSize_neg: "kUnboundedSize < 0"
  by (simp add: kUnboundedSize_def kint64min_def)

lemma OverflowSafeMultiply_int_nonneg:
  assumes "0 \<le> x" "in_int64 x" "0 \<le> y" "in_int64 y"
  shows "in_int64 (x * y) \<Longrightarrow> OverflowSafeMultiply_int x y = (x * y, False)"
    "\<not> in_int64 (x * y) \<Longrightarrow> snd (OverflowSafeMultiply_int x y)"
  using OverflowSafeMultiply_int_ok [OF assms(2,4)] assms by (auto simp: prod_eq_iff)

lemma extents_fit_mono:
  assumes "extents_fit (w * p) ds" "1 \<le> w" "0 \<le> p" "list_all size_ok ds"
  shows "extents_fit p ds"
  using assms
proof (induction ds arbitrary: p)
  case (Cons d ds)
  show ?case
  proof (cases "d = kUnboundedSize")
    case False
    then have d: "0 \<le> d" "in_int64 (w * p * d)" "extents_fit (w * (p * d)) ds" using Cons.prems by (auto simp: mult.assoc)
    have "p * d \<le> w * (p * d)" using d(1) Cons.prems(2,3) mult_right_mono [of 1 w "p * d"] by simp
    moreover have "0 \<le> p * d" using d(1) Cons.prems(3) by simp
    ultimately have "in_int64 (p * d)" using d(2) by (simp add: in_int64_def kint64min_def mult.assoc)
    then show ?thesis using False d Cons by simp
  qed (use Cons in simp)
qed simp

lemma extent_loop_fit:
  assumes "extents_fit p ds" "0 \<le> p" "in_int64 p" "list_all size_ok ds"
  shows "extent_loop True p b ds = (p * static_extent ds, b)"
  using assms
proof (induction ds arbitrary: p)
  case (Cons d ds)
  then show ?case
    by (cases "d = kUnboundedSize") (auto simp: OverflowSafeMultiply_int_nonneg static_extent_def mult.assoc)
qed (simp add: static_extent_def)

lemma extent_loop_unskipped: "kUnboundedSize \<notin> set ds \<Longrightarrow> extent_loop False p b ds = extent_loop True p b ds"
  by (induction ds arbitrary: p b) (auto split: prod.splits)

lemma validate_dimensions_loop_fit:
  assumes "extents_fit p ds" "0 \<le> p" "in_int64 p" "list_all size_ok ds"
  shows "validate_dimensions_loop p False ds = Inr ()"
  using assms
proof (induction ds arbitrary: p)
  case (Cons d ds)
  then show ?case
    by (cases "d = kUnboundedSize") (auto simp: OverflowSafeMultiply_int_nonneg)
qed simp

lemma make_shape_loop_overflow:
  "make_shape_loop n i p True s dims = Inr (b, s') \<Longrightarrow> b"
  by (induction n i p True s dims rule: make_shape_loop.induct)
    (auto simp: bindE_eq_Inr split: if_splits prod.splits)

lemma push_minor_to_major_array:
  "push_minor_to_major (Shape t (ArrayState ds dy (Some (simple_layout m)))) k =
   Inr (Shape t (ArrayState ds dy (Some (simple_layout (m @ [k])))))"
  by (simp add: push_minor_to_major_def layoutE_def array_state_maybe_underneath_buffer_def set_layout_def
      put_array_state_def) (simp add: simple_layout_def)

lemma add_dimensions_array:
  "IsValidDimensionSize d b \<Longrightarrow> length ds = length dy \<Longrightarrow>
   add_dimensions (Shape t (ArrayState ds dy l)) d b = Inr (Shape t (ArrayState (ds @ [d]) (dy @ [b]) l))"
  by (auto simp: add_dimensions_def UnsafeAddDimension_def IsValidDimensionSize_def
      array_state_maybe_underneath_buffer_def put_array_state_def)

lemma make_shape_loop_ok:
  assumes "length ds = length dy" "0 \<le> p" "in_int64 p" "\<forall>d\<in>set (map fst dims). in_int64 d"
    "make_shape_loop n i p False (Shape t (ArrayState ds dy (Some (simple_layout m)))) dims = Inr (False, s')"
  shows "s' = Shape t (ArrayState (ds @ map fst dims) (dy @ map snd dims)
            (Some (simple_layout (m @ map (\<lambda>k. n - 1 - (i + int k)) [0..<length dims])))) \<and>
         list_all2 IsValidDimensionSize (map fst dims) (map snd dims) \<and> extents_fit p (map fst dims)"
  using assms
proof (induction dims arbitrary: ds dy p i m)
  case (Cons db dims)
  obtain d b where db: "db = (d, b)" by (cases db)
  have v: "IsValidDimensionSize d b" using Cons.prems(5) db by (auto split: if_splits)
  have up: "map (\<lambda>k. n - 1 - (i + int k)) [0..<Suc (length dims)] =
      (n - 1 - i) # map (\<lambda>k. n - 1 - (i + 1 + int k)) [0..<length dims]"
    by (simp add: upt_conv_Cons map_Suc_upt [symmetric] del: upt_Suc)
  let ?s = "Shape t (ArrayState (ds @ [d]) (dy @ [b]) (Some (simple_layout (m @ [n - 1 - i]))))"
  obtain p' bad where mul: "(if d \<noteq> kUnboundedSize then OverflowSafeMultiply_int p d else (p, False)) = (p', bad)"
    by (cases "if d \<noteq> kUnboundedSize then OverflowSafeMultiply_int p d else (p, False)")
  have loop: "make_shape_loop n (i + 1) p' (False \<or> bad) ?s dims = Inr (False, s')"
    using Cons.prems(1,5) db v mul by (simp add: add_dimensions_array push_minor_to_major_array)
  have bad: "\<not> bad" using make_shape_loop_overflow [of n "i + 1" p' ?s dims False s'] loop by auto
  have p': "0 \<le> p'" "in_int64 p'" "d \<noteq> kUnboundedSize \<longrightarrow> p' = p * d" "d = kUnboundedSize \<longrightarrow> p' = p"
    "d \<noteq> kUnboundedSize \<longrightarrow> in_int64 (p * d)"
    using mul bad Cons.prems(2-4) db OverflowSafeMultiply_int_ok [of p d]
    by (auto split: if_splits)
  have "s' = Shape t (ArrayState ((ds @ [d]) @ map fst dims) ((dy @ [b]) @ map snd dims)
      (Some (simple_layout ((m @ [n - 1 - i]) @ map (\<lambda>k. n - 1 - (i + 1 + int k)) [0..<length dims])))) \<and>
      list_all2 IsValidDimensionSize (map fst dims) (map snd dims) \<and> extents_fit p' (map fst dims)"
    by (rule Cons.IH) (use Cons.prems db loop bad p' in auto)
  then show ?case using db v p' up by auto
qed simp

lemma valid_sizes: "list_all2 IsValidDimensionSize dims dyn \<Longrightarrow> \<forall>d\<in>set dims. in_int64 d \<Longrightarrow> list_all size_ok dims"
  by (auto simp: list_all2_conv_all_nth list_all_length IsValidDimensionSize_def)

lemma MakeValidatedShape_result:
  assumes "IsArrayType t" "ByteWidth L t = Inr w" "1 \<le> w" "in_int64 w" "\<forall>d\<in>set dims. in_int64 d"
    "MakeValidatedShape_dynamic L t dims dyn = Inr s"
  shows "s = Shape t (ArrayState dims dyn (Some (simple_layout (SetDefaultLayoutToContainer (length dims)))))"
    "list_all2 IsValidDimensionSize dims dyn" "extents_fit w dims" "list_all size_ok dims"
proof -
  have len: "length dyn = length dims" using assms(6) by (auto simp: MakeValidatedShape_dynamic_def split: if_splits)
  have "make_shape_loop (int (length dims)) 0 w False (Shape t (ArrayState [] [] (Some (simple_layout []))))
      (zip dims dyn) = Inr (False, s)"
    using assms len
    by (auto simp: MakeValidatedShape_dynamic_def set_element_type_default bindE_eq_Inr set_layout_def
        array_state_maybe_underneath_buffer_def put_array_state_def split: if_splits)
  from make_shape_loop_ok [OF _ _ assms(4) _ this] assms len
  show "s = Shape t (ArrayState dims dyn (Some (simple_layout (SetDefaultLayoutToContainer (length dims)))))"
    and v: "list_all2 IsValidDimensionSize dims dyn" and "extents_fit w dims"
    by (auto simp: SetDefaultLayoutToContainer_def diff_diff_eq)
  show "list_all size_ok dims" using valid_sizes [OF v assms(5)] .
qed

lemma static_extent_all: "kUnboundedSize \<notin> set ds \<Longrightarrow> static_extent ds = prod_list ds"
  unfolding static_extent_def by (subst filter_True) auto

lemma extents_fit_in_int64:
  "extents_fit p ds \<Longrightarrow> in_int64 p \<Longrightarrow> in_int64 (p * static_extent ds)"
proof (induction ds arbitrary: p)
  case (Cons d ds)
  then show ?case by (cases "d = kUnboundedSize") (auto simp: static_extent_def mult.assoc [symmetric])
qed (simp add: static_extent_def)

text \<open>
  C14. A shape that \<open>MakeValidatedShape\<close> returns has the given type, sizes and dynamic flags with the
  row-major layout, passes \<open>ValidateShape\<close>, and its sizes are exact: when no dimension is unbounded,
  \<open>ElementsIn\<close> and \<open>ByteSizeOfElements\<close> are the mathematical products and fit in 64 bits.
\<close>

theorem MakeValidatedShape_valid:
  assumes "IsArrayType t" "ByteWidth L t = Inr w" "1 \<le> w" "in_int64 w" "\<forall>d\<in>set dims. in_int64 d"
    "MakeValidatedShape_dynamic L t dims dyn = Inr s"
  shows "s = Shape t (ArrayState dims dyn (Some (simple_layout (SetDefaultLayoutToContainer (length dims))))) \<and>
    ValidateShape L s = Inr () \<and> list_all2 IsValidDimensionSize dims dyn \<and>
    (kUnboundedSize \<notin> set dims \<longrightarrow>
       ElementsIn s = Inr (prod_list dims) \<and> ByteSizeOfElements L s = Inr (prod_list dims * w) \<and>
       0 \<le> prod_list dims \<and> in_int64 (prod_list dims * w))"
proof -
  note r = MakeValidatedShape_result [OF assms]
  let ?l = "simple_layout (SetDefaultLayoutToContainer (length dims))"
  have st: "array_state_maybe_underneath_buffer s = Inr (dims, dyn, Some ?l)"
    unfolding r(1) by (simp add: array_state_maybe_underneath_buffer_def)
  have arr: "IsArray s" "elt_type s = t" "element_type s = t" unfolding r(1) using assms(1) by (simp_all add: shape_class_defs)
  have t: "t \<noteq> TUPLE" "t \<noteq> BUFFER" "t \<noteq> TOKEN" "t \<noteq> OPAQUE_TYPE" "t \<noteq> PRIMITIVE_TYPE_INVALID"
    using assms(1) special_not_array by blast+
  have one: "in_int64 1" by (simp add: in_int64_def kint64max_def kint64min_def)
  have fit: "extents_fit 1 dims" using extents_fit_mono [of w 1 dims] r(3,4) assms(3) by simp
  have prod: "extent_loop True 1 False dims = (static_extent dims, False)"
    using extent_loop_fit [OF fit _ one r(4)] by simp
  have nn: "0 \<le> static_extent dims"
    unfolding static_extent_def by (rule prod_list_nonneg) (use r(4) in \<open>auto simp: list_all_iff\<close>)
  have big: "in_int64 (static_extent dims * w)" using extents_fit_in_int64 [OF r(3) assms(4)] by (simp add: mult.commute)
  have small: "in_int64 (static_extent dims)" using extents_fit_in_int64 [OF fit one] by simp
  have "ValidateShapeSize L s = Inr ()"
    using OverflowSafeMultiply_int_nonneg(1) [OF nn small _ assms(4) big] assms(2,3)
    by (simp add: ValidateShapeSize_def arr ExtentProduct_def dimsE_array [OF st] prod ByteSizeOfPrimitiveType_def)
  moreover have "ValidateDimensions s = Inr ()"
    using validate_dimensions_loop_fit [OF fit _ one r(4)] by (simp add: ValidateDimensions_def dimsE_array [OF st])
  moreover have "ValidateNonLayoutProperties L s = bindE (ValidateDimensions s) (\<lambda>_. ValidateShapeSize L s)"
    unfolding r(1) ValidateNonLayoutProperties.simps using t assms(1) by (simp only: if_False if_True simp_thms State.case)
  ultimately have "ValidateNonLayoutProperties L s = Inr ()" by (simp only: bindE_Inr)
  moreover have "ValidateLayoutInShape False s = Inr ()"
    using ValidateLayoutInShape_array [OF arr(1) st] layout_ok_default by simp
  ultimately have "ValidateShape L s = Inr ()" by (simp only: ValidateShape_def bindE_Inr)
  moreover have "ElementsIn s = Inr (prod_list dims) \<and> ByteSizeOfElements L s = Inr (prod_list dims * w) \<and>
       0 \<le> prod_list dims \<and> in_int64 (prod_list dims * w)" if "kUnboundedSize \<notin> set dims"
  proof -
    have e: "static_extent dims = prod_list dims" by (rule static_extent_all [OF that])
    have n: "ElementsIn s = Inr (prod_list dims)"
      using extent_loop_unskipped [OF that, of 1 False] prod e
      by (simp add: ElementsIn_def ExtentProduct_def dimsE_array [OF st])
    have "element_size_in_bits ?l = 0" by (simp add: simple_layout_def)
    then have "ByteSizeOfElements L s = Inr (prod_list dims * w)"
      using arr(1,3) assms(2)
      by (simp add: ByteSizeOfElements_def n has_layout_array [OF st] layoutE_array [OF st] ByteSizeOfPrimitiveType_def)
    then show ?thesis using n nn big e by simp
  qed
  ultimately show ?thesis using r(1,2) by blast
qed

theorem MakeValidatedShape_valid_witness:
  "\<exists>s. MakeValidatedShape_dynamic ieee_limits S32 [2, 3] [False, True] = Inr s \<and>
     ValidateShape ieee_limits s = Inr () \<and> ElementsIn s = Inr 6 \<and> ByteSizeOfElements ieee_limits s = Inr 24"
proof -
  let ?s = "Shape S32 (ArrayState [2, 3] [False, True] (Some (simple_layout [1, 0])))"
  have m: "MakeValidatedShape_dynamic ieee_limits S32 [2, 3] [False, True] = Inr ?s" by code_simp
  have "IsArrayType S32" "ByteWidth ieee_limits S32 = Inr 4" by code_simp+
  then show ?thesis
    using MakeValidatedShape_valid [OF _ _ _ _ _ m, of 4] m
    by (auto simp: in_int64_def kint64max_def kint64min_def kUnboundedSize_def)
qed

text \<open>Non-array element types stop the process instead of returning a status.\<close>

lemma MakeValidatedShape_token_crashes:
  "MakeValidatedShape_dynamic L TOKEN [] [] = Inl (CheckFailed ''buffer != nullptr'')"
  by (simp add: MakeValidatedShape_dynamic_def set_element_type_def default_state_def set_layout_def
      array_state_maybe_underneath_buffer_def default_shape_def CheckStateIsEmpty_def Let_def)

section \<open>Subshapes\<close>

text \<open>The three ways to address a subshape agree: exactly the valid indices have one.\<close>

lemma TryGetSubshape_iff:
  "IndexIsValid s i \<longleftrightarrow> (\<exists>sub. TryGetSubshape s i = Inr sub)"
  "IndexIsValid s i \<Longrightarrow> GetSubshape s i = TryGetSubshape s i"
  by (induction s i rule: IndexIsValid.induct) (auto simp: at_index_def split: if_splits)

lemma IndexIsValid_append:
  "IndexIsValid s (i @ j) \<longleftrightarrow> IndexIsValid s i \<and> IndexIsValid (projr (TryGetSubshape s i)) j"
  by (induction s i rule: IndexIsValid.induct) auto

end
