(* ===== verification/ShapeUtilDims.thy ===== *)
theory ShapeUtilDims
  imports ShapeUtil TiledIndex
begin

text \<open>
  \<open>xla/shape_util.cc\<close>, second part: operations that insert, delete and permute dimensions together
  with their layout, and the transposes and reshapes that move no data.
\<close>

section \<open>Editing dimensions\<close>

definition UpdateTupleShape :: "Shape \<Rightarrow> int \<Rightarrow> Shape \<Rightarrow> Shape status_or" where
  "UpdateTupleShape s index tuple_shape =
     (if \<not> index < int (length (tuple_shapes tuple_shape)) then Inl (CheckFailed ''index < tuple_shapes().size()'')
      else bindE (at_index (tuple_shapes tuple_shape) index) (\<lambda>_.
        Inr (Shape (elt_type tuple_shape) (TupleState ((tuple_shapes tuple_shape)[nat index := s])))))"

fun UpdateDynamicDimension :: "Shape \<Rightarrow> int list \<Rightarrow> int \<Rightarrow> bool \<Rightarrow> Shape status_or" where
  "UpdateDynamicDimension s [] dim is_dynamic =
     (if IsTuple s then Inl (CheckFailed ''!shape->IsTuple()'') else set_dynamic_dimension s dim is_dynamic)"
| "UpdateDynamicDimension s (i # rest) dim is_dynamic =
     (case shape_state s of
        TupleState ss \<Rightarrow>
          bindE (at_index ss i) (\<lambda>sub.
          bindE (UpdateDynamicDimension sub rest dim is_dynamic) (\<lambda>sub'.
            Inr (Shape (elt_type s) (TupleState (ss[nat i := sub'])))))
      | _ \<Rightarrow> Inl (CheckFailed ''Expected a tuple shape''))"

text \<open>The bounds of \<open>AppendMajorDimension\<close> and \<open>AppendMinorDimension\<close> are of type \<open>int\<close>.\<close>

definition AppendMajorDimension :: "int \<Rightarrow> Shape \<Rightarrow> Shape status_or" where
  "AppendMajorDimension bound s =
     (if \<not> IsArray s then Inl (CheckFailed ''shape->IsArray()'')
      else bindE (has_layout s) (\<lambda>h.
           bindE (dimsE s) (\<lambda>ds.
           bindE (if h then push_minor_to_major s (int (length ds)) else Inr s) (\<lambda>s'.
             add_dimensions s' bound False))))"

definition AppendMinorDimension :: "int \<Rightarrow> Shape \<Rightarrow> Shape status_or" where
  "AppendMinorDimension bound s =
     (if \<not> IsArray s then Inl (CheckFailed ''shape->IsArray()'')
      else bindE (add_dimensions s bound False) (\<lambda>s'.
           bindE (has_layout s') (\<lambda>h.
           if \<not> h then Inr s'
           else bindE (dimsE s') (\<lambda>ds.
                bindE (layoutE s') (\<lambda>l.
                  set_layout s' (set_minor_to_major ((int (length ds) - 1) # minor_to_major l) l))))))"

definition PrependMajorDimension :: "int \<Rightarrow> Shape \<Rightarrow> Shape status_or" where
  "PrependMajorDimension bound s =
     bindE (Shape_array (element_type s) [] []) (\<lambda>n0.
     bindE (add_dimensions n0 bound False) (\<lambda>n1.
     bindE (dimsE s) (\<lambda>ds.
     bindE (foldE (\<lambda>n d. add_dimensions n d False) n1 ds) (\<lambda>n2.
     bindE (has_layout s) (\<lambda>h.
     if \<not> h then Inr n2
     else bindE (layoutE s) (\<lambda>l.
       set_layout n2 (simple_layout (map (\<lambda>d. d + 1) (minor_to_major l) @ [0]))))))))"

text \<open>The layout loop of \<open>InsertDimensionsAtIndex\<close>; \<open>k\<close> is the number of inserted dimensions.\<close>

definition inserted_descending :: "int \<Rightarrow> nat \<Rightarrow> int list" where
  "inserted_descending dim_idx k = map (\<lambda>i. dim_idx + int i) (rev [0..<k])"

fun insert_layout_loop :: "int \<Rightarrow> nat \<Rightarrow> int list \<Rightarrow> int list" where
  "insert_layout_loop dim_idx k [] = []"
| "insert_layout_loop dim_idx k (d # rest) =
     (if d \<ge> dim_idx then d + int k else d) #
     (if d = dim_idx then inserted_descending dim_idx k else []) @ insert_layout_loop dim_idx k rest"

definition InsertDimensionsAtIndex :: "Shape \<Rightarrow> int \<Rightarrow> int list \<Rightarrow> Shape status_or" where
  "InsertDimensionsAtIndex s dim_idx bounds =
     (if \<not> IsArray s then Inl (CheckFailed ''shape.IsArray()'')
      else if \<not> dim_idx \<ge> 0 then Inl (CheckFailed ''dim_idx >= 0'')
      else bindE (dimsE s) (\<lambda>ds.
        if \<not> dim_idx \<le> int (length ds) then Inl (CheckFailed ''dim_idx <= shape.dimensions().size()'')
        else bindE (Shape_array (element_type s) (take (nat dim_idx) ds @ bounds @ drop (nat dim_idx) ds) []) (\<lambda>n.
             bindE (has_layout s) (\<lambda>h.
             if \<not> h then Inr n
             else bindE (layoutE s) (\<lambda>l.
               set_layout n (simple_layout
                 ((if dim_idx = int (length ds) then inserted_descending dim_idx (length bounds) else []) @
                  insert_layout_loop dim_idx (length bounds) (minor_to_major l))))))))"

definition CopyDynamicDimensions :: "Shape \<Rightarrow> Shape \<Rightarrow> Shape status_or" where
  "CopyDynamicDimensions to_shape from_shape =
     bindE (dimsE to_shape) (\<lambda>td.
     bindE (array_state_maybe_underneath_buffer from_shape) (\<lambda>(fd, fdy, _).
       if length td \<noteq> length fd then Inl (CheckFailed ''to->dimensions().size() == from.dimensions().size()'')
       else foldE (\<lambda>s i. bindE (at_index fdy (int i)) (\<lambda>b. set_dynamic_dimension s (int i) b)) to_shape [0..<length fd]))"

fun most_major_loop :: "Layout \<Rightarrow> int list \<Rightarrow> int \<Rightarrow> nat list \<Rightarrow> bool status_or" where
  "most_major_loop l ds dimension [] = Inr False"
| "most_major_loop l ds dimension (i # rest) =
     bindE (Major l (int i)) (\<lambda>major_dimension.
       if major_dimension = dimension then Inr True
       else bindE (at_index ds major_dimension) (\<lambda>d.
         if d \<noteq> 1 then Inr False else most_major_loop l ds dimension rest))"

definition IsEffectivelyMostMajorDimension :: "Shape \<Rightarrow> int \<Rightarrow> bool status_or" where
  "IsEffectivelyMostMajorDimension s dimension =
     bindE (dimsE s) (\<lambda>ds.
     if ds = [] then Inr False
     else bindE (layoutE s) (\<lambda>l. most_major_loop l ds dimension [0..<length ds]))"

definition FilterDimensions :: "(int \<Rightarrow> bool) \<Rightarrow> Shape \<Rightarrow> Shape status_or" where
  "FilterDimensions p s =
     (if \<not> IsArray s then Inl (CheckFailed ''shape.IsArray()'')
      else bindE (dimsE s) (\<lambda>ds. DeleteDimensions s (filter (\<lambda>i. \<not> p i) (map int [0..<length ds]))))"

definition DropDegenerateDimensions :: "Shape \<Rightarrow> Shape status_or" where
  "DropDegenerateDimensions s = FilterDimensions (\<lambda>d. dimensions s ! nat d \<noteq> 1) s"

definition HasDegenerateDimensions :: "Shape \<Rightarrow> bool status_or" where
  "HasDegenerateDimensions s =
     (if \<not> IsArray s then Inl (CheckFailed ''shape.IsArray()'') else bindE (dimsE s) (\<lambda>ds. Inr (1 \<in> set ds)))"

section \<open>Transposes\<close>

definition PermuteDimensionsIgnoringLayout :: "int list \<Rightarrow> Shape \<Rightarrow> Shape status_or" where
  "PermuteDimensionsIgnoringLayout permutation s =
     bindE (clear_dimensions s) (\<lambda>new_shape.
     bindE (array_state_maybe_underneath_buffer s) (\<lambda>(ds, dy, _).
     bindE (Permute ds permutation) (\<lambda>permuted_dims.
     bindE (Permute dy permutation) (\<lambda>permuted_dynamic_dims.
       foldE (\<lambda>n (d, b). add_dimensions n d b) new_shape (zip permuted_dims permuted_dynamic_dims)))))"

definition TransposeIsBitcast :: "Shape \<Rightarrow> Shape \<Rightarrow> int list \<Rightarrow> bool \<Rightarrow> bool status_or" where
  "TransposeIsBitcast input_shape output_shape dimension_mapping ignore_elt_type =
     (if \<not> IsArray input_shape then Inl (CheckFailed ''input_shape.IsArray()'')
      else if \<not> IsArray output_shape then Inl (CheckFailed ''output_shape.IsArray()'')
      else bindE (layoutE input_shape) (\<lambda>li.
           bindE (layoutE output_shape) (\<lambda>lo.
           if \<not> ignore_elt_type \<and> \<not> SameElementType input_shape output_shape then Inr False
           else bindE (ComposePermutations dimension_mapping (minor_to_major lo)) (\<lambda>c.
             Inr (c = minor_to_major li)))))"

definition PermuteDimensions :: "int list \<Rightarrow> Shape \<Rightarrow> Shape status_or" where
  "PermuteDimensions permutation s =
     bindE (PermuteDimensionsIgnoringLayout permutation s) (\<lambda>new_shape.
     bindE (has_layout s) (\<lambda>h.
     if \<not> h then Inr new_shape
     else if \<not> IsArray s then Inl (CheckFailed ''shape.IsArray()'')
     else bindE (layoutE s) (\<lambda>l.
          bindE (layoutE new_shape) (\<lambda>nl.
          bindE (ComposePermutations (InversePermutation permutation) (minor_to_major l)) (\<lambda>m.
          bindE (set_layout new_shape (set_minor_to_major m nl)) (\<lambda>result.
          bindE (TransposeIsBitcast s result permutation False) (\<lambda>ok.
            if \<not> ok then Inl (CheckFailed ''TransposeIsBitcast(shape, new_shape, permutation)'')
            else Inr result)))))))"

definition ReorderLogicalDimensions :: "Shape \<Rightarrow> int list \<Rightarrow> Shape status_or" where
  "ReorderLogicalDimensions s permutation =
     (if \<not> IsArray s then Inl (CheckFailed ''shape.IsArray()'')
      else bindE (array_state_maybe_underneath_buffer s) (\<lambda>(ds, dy, _).
           bindE (Permute dy permutation) (\<lambda>pdy.
           bindE (Permute ds permutation) (\<lambda>pds.
           bindE (Shape_array (element_type s) pds pdy) (\<lambda>new_shape.
           bindE (has_layout s) (\<lambda>h.
           if \<not> h then Inr new_shape
           else bindE (layoutE s) (\<lambda>l.
                bindE (mapE (\<lambda>dim. at_index permutation dim) (minor_to_major l)) (\<lambda>m.
                  set_layout new_shape (set_minor_to_major m l)))))))))"

definition DeduceTransposeDimensionsForBitcast :: "native_limits \<Rightarrow> Shape \<Rightarrow> Shape \<Rightarrow> int list option status_or" where
  "DeduceTransposeDimensionsForBitcast L input_shape output_shape =
     bindE (dimsE output_shape) (\<lambda>od.
     bindE (dimsE input_shape) (\<lambda>ds.
     if length od \<noteq> length ds then Inr None
     else bindE (layoutE input_shape) (\<lambda>li.
          bindE (layoutE output_shape) (\<lambda>lo.
          bindE (ComposePermutations (minor_to_major li) (InversePermutation (minor_to_major lo))) (\<lambda>perm.
          bindE (Permute ds perm) (\<lambda>new_dims.
          if od \<noteq> new_dims then Inr None
          else bindE (ChangeElementType L (element_type input_shape) output_shape) (\<lambda>changed.
               bindE (TransposeIsBitcast input_shape changed perm False) (\<lambda>ok.
                 if \<not> ok then Inl (CheckFailed ''TransposeIsBitcast'') else Inr (Some perm)))))))))"

section \<open>Reshapes\<close>

text \<open>
  \<open>ReshapeIsBitcast\<close>: the unit index of every dimension larger than one keeps its physical place,
  in both directions. The two row-major shapes of the lambda only convert logical indices.
\<close>

fun check_unit_indices_loop :: "Shape \<Rightarrow> Shape \<Rightarrow> Shape \<Rightarrow> Shape \<Rightarrow> int list \<Rightarrow> nat list \<Rightarrow> bool status_or" where
  "check_unit_indices_loop si so si_major so_major ds [] = Inr True"
| "check_unit_indices_loop si so si_major so_major ds (d # rest) =
     (if ds ! d \<le> 1 then check_unit_indices_loop si so si_major so_major ds rest
      else
        let unit_index = (replicate (length ds) 0)[d := 1] in
        bindE (MultidimensionalIndexToLinearIndex si_major unit_index) (\<lambda>logical_linear_index.
        bindE (LinearIndexToMultidimensionalIndex so_major logical_linear_index) (\<lambda>output_index.
        bindE (MultidimensionalIndexToLinearIndex si unit_index) (\<lambda>pi.
        bindE (MultidimensionalIndexToLinearIndex so output_index) (\<lambda>po.
          if pi \<noteq> po then Inr False
          else check_unit_indices_loop si so si_major so_major ds rest)))))"

definition check_input_unit_indices :: "native_limits \<Rightarrow> Shape \<Rightarrow> Shape \<Rightarrow> bool status_or" where
  "check_input_unit_indices L input_shape output_shape =
     bindE (dimsE input_shape) (\<lambda>ds.
     bindE (dimsE output_shape) (\<lambda>od.
     bindE (value_or_die (MakeValidatedShapeWithDescendingLayout L (element_type input_shape) ds)) (\<lambda>si_major.
     bindE (value_or_die (MakeValidatedShapeWithDescendingLayout L (element_type output_shape) od)) (\<lambda>so_major.
       check_unit_indices_loop input_shape output_shape si_major so_major ds [0..<length ds]))))"

definition ReshapeIsBitcast :: "native_limits \<Rightarrow> Shape \<Rightarrow> Shape \<Rightarrow> bool \<Rightarrow> bool status_or" where
  "ReshapeIsBitcast L input_shape output_shape ignore_elt_type =
     (if \<not> IsArray input_shape then Inl (CheckFailed ''input_shape.IsArray()'')
      else if \<not> IsArray output_shape then Inl (CheckFailed ''output_shape.IsArray()'')
      else bindE (layoutE input_shape) (\<lambda>_.
           bindE (layoutE output_shape) (\<lambda>_.
           if \<not> ignore_elt_type \<and> \<not> SameElementType input_shape output_shape then Inr False
           else bindE (ElementsIn input_shape) (\<lambda>ni.
                bindE (ElementsIn output_shape) (\<lambda>no.
                if ni \<noteq> no then Inr False
                else if ni = 0 then Inr True
                else bindE (check_input_unit_indices L input_shape output_shape) (\<lambda>b.
                  if \<not> b then Inr False else check_input_unit_indices L output_shape input_shape))))))"

section \<open>Transposes move no data\<close>

lemma add_dimensions_fold:
  "array_state_maybe_underneath_buffer s = Inr (ds, dy, l) \<Longrightarrow> length ds = length dy \<Longrightarrow>
   list_all2 IsValidDimensionSize ds' dy' \<Longrightarrow>
   foldE (\<lambda>n (d, b). add_dimensions n d b) s (zip ds' dy') = Inr (put_array_state s (ds @ ds', dy @ dy', l))"
proof (induction ds' dy' arbitrary: s ds dy rule: list_induct2')
  case 1
  then show ?case by (simp add: put_array_state_same)
next
  case (4 d ds' b dy')
  have "add_dimensions s d b = Inr (put_array_state s (ds @ [d], dy @ [b], l))"
    using 4 by (auto simp: add_dimensions_def UnsafeAddDimension_def IsValidDimensionSize_def kUnboundedSize_neg)
  then show ?case using 4 by (simp add: put_array_state_read)
qed simp_all

lemma element_type_put:
  "array_state_maybe_underneath_buffer s = Inr b \<Longrightarrow> element_type (put_array_state s a) = element_type s"
  by (cases s; cases "shape_state s")
    (auto simp: array_state_maybe_underneath_buffer_def put_array_state_def split: State.splits prod.splits,
     metis Shape.collapse element_type.simps(5))

lemma minor_to_major_set [simp]: "minor_to_major (set_minor_to_major m l) = m"
  by (cases l) (simp add: set_minor_to_major_def)

lemma pick_permutation_valid:
  assumes "list_all2 V ds dy" "IsPermutation p" "length p = length ds"
  shows "list_all2 V (pick ds p) (pick dy p)"
  using assms IsPermutation_nth [OF assms(2)] by (auto simp: pick_def list_all2_conv_all_nth)

text \<open>The permutation that undoes \<open>p\<close> renames the dimensions of the layout.\<close>

lemma pick_renamed:
  assumes "IsPermutation p" "length p = length xs" "\<forall>d\<in>set m. 0 \<le> d \<and> d < int (length xs)"
  shows "pick (pick xs p) (map (\<lambda>d. InversePermutation p ! nat d) m) = pick xs m"
  unfolding pick_def map_map o_def
proof (rule map_cong [OF refl])
  fix d assume "d \<in> set m"
  then have "nat d < length p" "0 \<le> d" using assms by auto
  with nth_InversePermutation [OF assms(1), of "nat d"]
  show "map (\<lambda>d. xs ! nat d) p ! nat (InversePermutation p ! nat d) = xs ! nat d" by simp
qed

lemma ComposePermutations_renamed:
  assumes "length p = length m"
  shows "ComposePermutations p m = Inr (map (\<lambda>d. p ! nat d) m)"
proof -
  have "map (\<lambda>i. p ! nat (m ! i)) [0..<length p] = map (\<lambda>d. p ! nat d) m"
    by (rule nth_equalityI) (use assms in auto)
  then show ?thesis using assms by (simp add: ComposePermutations_def)
qed

lemma rename_back:
  assumes "IsPermutation p" "\<forall>d\<in>set m. 0 \<le> d \<and> d < int (length p)"
  shows "map (\<lambda>d. p ! nat d) (map (\<lambda>d. InversePermutation p ! nat d) m) = m"
  unfolding map_map o_def
proof (rule map_idI)
  fix d assume "d \<in> set m"
  with assms(2) have "nat d < length p" "0 \<le> d" by auto
  with nth_InversePermutation [OF assms(1), of "nat d"]
  show "p ! nat (InversePermutation p ! nat d) = d" by simp
qed

lemma PermuteDimensions_array:
  assumes s: "array_state_maybe_underneath_buffer s = Inr (ds, dy, Some l)" "IsArray s"
    and v: "list_all2 IsValidDimensionSize ds dy"
    and p: "IsPermutation p" "length p = length ds"
    and m: "length (minor_to_major l) = length ds" "IsPermutation (minor_to_major l)"
  shows "PermuteDimensions p s = Inr (put_array_state s (pick ds p, pick dy p,
    Some (set_minor_to_major (map (\<lambda>d. InversePermutation p ! nat d) (minor_to_major l)) l)))"
proof -
  let ?m = "minor_to_major l" and ?n = "put_array_state s (pick ds p, pick dy p, Some l)"
  let ?q = "map (\<lambda>d. InversePermutation p ! nat d) ?m"
  let ?r = "put_array_state s (pick ds p, pick dy p, Some (set_minor_to_major ?q l))"
  have len: "length dy = length ds" using v by (simp add: list_all2_lengthD)
  have c: "clear_dimensions s = Inr (put_array_state s ([], [], Some l))" using s by (simp add: clear_dimensions_def)
  have f: "foldE (\<lambda>n (d, b). add_dimensions n d b) (put_array_state s ([], [], Some l)) (zip (pick ds p) (pick dy p)) = Inr ?n"
    using add_dimensions_fold [of "put_array_state s ([], [], Some l)" "[]" "[]" "Some l", OF _ _ pick_permutation_valid [OF v p]] s
    by simp
  have n: "PermuteDimensionsIgnoringLayout p s = Inr ?n"
    using p len by (simp add: PermuteDimensionsIgnoringLayout_def c s(1) Permute_def f flip: pick_def)
  have r: "set_layout ?n (set_minor_to_major ?q l) = Inr ?r" using s by (simp add: set_layout_def)
  have rng: "\<forall>d\<in>set ?m. 0 \<le> d \<and> d < int (length p)" using m p by (auto simp: IsPermutation_iff)
  have lr: "layoutE ?r = Inr (set_minor_to_major ?q l)" "layoutE ?n = Inr l" "layoutE s = Inr l"
    using s by (simp_all add: layoutE_def)
  have b: "TransposeIsBitcast s ?r p False = Inr True"
    using rename_back [OF p(1) rng] p m s
    by (simp add: TransposeIsBitcast_def lr ComposePermutations_renamed SameElementType_def element_type_put [OF s(1)])
  have h: "has_layout s = Inr True" using has_layout_array [OF s(1)] by simp
  show ?thesis
    unfolding PermuteDimensions_def n h lr bindE_Inr
    using p m s(2) by (simp only: ComposePermutations_renamed length_InversePermutation bindE_Inr r b) simp
qed

lemma IsPermutation_renamed:
  assumes "IsPermutation q" "IsPermutation m" "length m = length q"
  shows "IsPermutation (map (\<lambda>d. q ! nat d) m)"
proof -
  have "map (\<lambda>d. q ! nat d) m = pick q m" by (simp add: pick_def)
  moreover have "mset (pick q m) = mset q"
  proof -
    have "mset (pick q m) = mset (map (\<lambda>d. q ! nat d) (map int [0..<length m]))"
      using assms(2) unfolding pick_def IsPermutation_mset by (metis mset_map)
    also have "map (\<lambda>d. q ! nat d) (map int [0..<length m]) = q"
      by (rule nth_equalityI) (use assms in auto)
    finally show ?thesis .
  qed
  ultimately show ?thesis using assms(1) by (simp add: IsPermutation_mset pick_def assms(3))
qed



text \<open>
  \<open>ReorderLogicalDimensions\<close> renames the dimensions of the layout by the permutation and not by its
  inverse, so that the physical order changes unless the permutation is its own inverse: on
  \<open>[2, 3, 5]\<close> with \<open>[2, 1, 0]\<close> the sizes from minor to major were 5, 3, 2 and become 3, 2, 5.
\<close>

lemma ReorderLogicalDimensions_moves_data:
  fixes s defines "s \<equiv> Shape F32 (ArrayState [2, 3, 5] [False, False, False] (Some (simple_layout [2, 1, 0])))"
  shows "bindE (ReorderLogicalDimensions s [1, 2, 0]) (\<lambda>s'. bindE (layoutE s') (\<lambda>l.
      Inr (dimensions s', pick (dimensions s') (minor_to_major l)))) = Inr ([3, 5, 2], [3, 2, 5])"
    and "bindE (PermuteDimensions [1, 2, 0] s) (\<lambda>s'. bindE (layoutE s') (\<lambda>l.
      Inr (dimensions s', pick (dimensions s') (minor_to_major l)))) = Inr ([3, 5, 2], [5, 3, 2])"
  unfolding s_def by code_simp+

lemma Shape_array_Inr:
  "IsArrayType t \<Longrightarrow> dy = [] \<or> length ds = length dy \<Longrightarrow>
   Shape_array t ds dy = Inr (Shape t (ArrayState ds (if dy = [] then replicate (length ds) False else dy) None))"
  by (cases "t = TOKEN \<or> t = OPAQUE_TYPE \<or> t = TUPLE \<or> t = BUFFER")
    (auto simp: Shape_array_def set_element_type_def default_state_def put_array_state_def
      default_shape_def CheckStateIsEmpty_def Let_def)

lemma ReorderLogicalDimensions_involution:
  assumes s: "s = Shape t (ArrayState ds dy (Some l))" "shape_inv s" "length (minor_to_major l) = length ds"
    "IsPermutation (minor_to_major l)" and p: "IsPermutation p" "length p = length ds" "InversePermutation p = p"
  shows "ReorderLogicalDimensions s p = PermuteDimensions p s"
proof -
  have a: "array_state_maybe_underneath_buffer s = Inr (ds, dy, Some l)"
    using s by (simp add: array_state_maybe_underneath_buffer_def)
  have t: "IsArrayType t" and v: "list_all2 IsValidDimensionSize ds dy" using s by auto
  then have arr: "IsArray s" "element_type s = t" using s by (auto simp: shape_class_defs)
  have len: "length dy = length ds" using v by (simp add: list_all2_lengthD)
  have rng: "\<forall>d\<in>set (minor_to_major l). 0 \<le> d \<and> d < int (length p)" using s p by (auto simp: IsPermutation_iff)
  have n: "Shape_array t (pick ds p) (pick dy p) = Inr (Shape t (ArrayState (pick ds p) (pick dy p) None))"
    using t len p(2) by (cases p) (auto simp: Shape_array_Inr pick_def)
  have m: "mapE (at_index p) (minor_to_major l) = Inr (map (\<lambda>d. p ! nat d) (minor_to_major l))"
    by (rule mapE_all_Inr) (use rng in \<open>auto simp: at_index_def\<close>)
  have pm: "Permute ds p = Inr (pick ds p)" "Permute dy p = Inr (pick dy p)"
    using p len by (simp_all add: Permute_def pick_def)
  have st: "set_layout (Shape t (ArrayState a b None)) k = Inr (Shape t (ArrayState a b (Some k)))" for a b k
    by (simp add: set_layout_def array_state_maybe_underneath_buffer_def put_array_state_def)
  have h: "has_layout s = Inr True" using has_layout_array [OF a] by simp
  have "ReorderLogicalDimensions s p = Inr (Shape t (ArrayState (pick ds p) (pick dy p)
      (Some (set_minor_to_major (map (\<lambda>d. p ! nat d) (minor_to_major l)) l))))"
    using arr by (simp add: ReorderLogicalDimensions_def a pm n h m st layoutE_array [OF a])
  also have "\<dots> = PermuteDimensions p s"
    using PermuteDimensions_array [OF a arr(1) v p(1,2) s(3,4)] p(3) s(1) by (simp add: put_array_state_def)
  finally show ?thesis .
qed

section \<open>Inserting dimensions\<close>

lemma inserted_descending_props [simp]:
  "length (inserted_descending d k) = k" "distinct (inserted_descending d k)"
  "set (inserted_descending d k) = {d..<d + int k}"
proof -
  show "set (inserted_descending d k) = {d..<d + int k}"
  proof (rule set_eqI)
    fix x show "x \<in> set (inserted_descending d k) \<longleftrightarrow> x \<in> {d..<d + int k}"
      by (auto simp: inserted_descending_def image_iff intro!: bexI [of _ "nat (x - d)"])
  qed
qed (auto simp: inserted_descending_def distinct_map inj_on_def)

lemma insert_layout_loop_mset:
  "mset (insert_layout_loop d k m) =
     mset (map (\<lambda>x. if x \<ge> d then x + int k else x) m) + repeat_mset (count (mset m) d) (mset (inserted_descending d k))"
  by (induction d k m rule: insert_layout_loop.induct) auto

text \<open>Inserting \<open>k\<close> dimensions at \<open>d\<close> turns a permutation of \<open>n\<close> dimensions into one of \<open>n + k\<close>.\<close>

lemma insert_layout:
  assumes "IsPermutation m" "0 \<le> d" "d \<le> int (length m)"
  shows insert_layout_permutation:
      "IsPermutation ((if d = int (length m) then inserted_descending d k else []) @ insert_layout_loop d k m)"
      (is "IsPermutation ?r")
    and insert_layout_length:
      "length ((if d = int (length m) then inserted_descending d k else []) @ insert_layout_loop d k m) = length m + k"
proof -
  let ?s = "\<lambda>x. if x \<ge> d then x + int k else x"
  have m: "distinct m" "set m = {0..<int (length m)}"
    using assms(1) by (simp_all only: IsPermutation_iff IsPermutation_set [OF assms(1)])
  have c: "count (mset m) d = (if d = int (length m) then 0 else 1)"
    using m assms(2,3) by (auto simp: distinct_count_atmost_1 count_mset_0_iff)
  have e: "mset ?r = mset (map ?s m @ inserted_descending d k)"
    by (simp add: insert_layout_loop_mset c)
  show len: "length ?r = length m + k" using mset_eq_length [OF e] by simp
  have "distinct (map ?s m @ inserted_descending d k)"
    using m(1) by (auto simp: distinct_map inj_on_def split: if_splits)
  moreover have "set (map ?s m @ inserted_descending d k) \<subseteq> {0..<int (length m + k)}"
    using m(2) assms(2,3) by auto
  ultimately show "IsPermutation ?r"
    unfolding IsPermutation_iff len mset_eq_imp_distinct_iff [OF e] mset_eq_setD [OF e] by (auto simp only: atLeastLessThan_iff subset_iff)
qed



end
