(* ===== verification/Util.thy ===== *)
theory Util
  imports MathUtil MixedRadix "HOL-Library.Multiset"
begin

unbundle bit_operations_syntax

text \<open>
  \<open>xla/util.h\<close> and \<open>xla/util.cc\<close>: how the dimensions of two shapes with the same number of elements
  correspond under a reshape, packing of small integers into bytes, and digits in a mixed radix.
  Products of sizes are exact integers; the sizes the callers pass have an element count in
  \<open>int64_t\<close>.
\<close>

section \<open>Common factors\<close>

definition Product :: "int list \<Rightarrow> int" where
  "Product xs = foldl (*) 1 xs"

definition ElemwiseProduct :: "int list \<Rightarrow> int list \<Rightarrow> int list status_or" where
  "ElemwiseProduct a b =
     (if length a \<noteq> length b then Inl (CheckFailed ''a.size() == b.size()'') else Inr (map2 (*) a b))"

text \<open>The number of iterations of the loop over equal leading sizes.\<close>

fun common_prefix :: "int list \<Rightarrow> int list \<Rightarrow> nat" where
  "common_prefix (x # xs) (y # ys) = (if x = y then Suc (common_prefix xs ys) else 0)"
| "common_prefix _ _ = 0"

definition next_a :: "int list \<Rightarrow> int list \<Rightarrow> nat \<Rightarrow> nat \<Rightarrow> int \<Rightarrow> int \<Rightarrow> bool" where
  "next_a a b i j partial_size_a partial_size_b \<longleftrightarrow>
     partial_size_a < partial_size_b \<or>
     (i < length a \<and> (\<not> j < length b \<or> (partial_size_a = partial_size_b \<and> a ! i \<le> b ! j)))"

text \<open>
  The loop without a condition: a boundary is recorded where the partial products meet, then one or
  both sides advance. \<open>next_b\<close> is \<open>next_a\<close> with the sides exchanged. A read past the end stops.
\<close>

function factors_loop :: "int list \<Rightarrow> int list \<Rightarrow> nat \<Rightarrow> nat \<Rightarrow> int \<Rightarrow> int \<Rightarrow> int \<Rightarrow> int \<Rightarrow> (nat \<times> nat) list \<Rightarrow>
    (nat \<times> nat) list status_or" where
  "factors_loop a b i j prior_i prior_j partial_size_a partial_size_b bounds =
     (if partial_size_a = partial_size_b \<and> (int i > prior_i \<or> int j > prior_j)
      then factors_loop a b i j (int i) (int j) partial_size_a partial_size_b (bounds @ [(i, j)])
      else if \<not> (i < length a \<or> j < length b) then Inr bounds
      else
        let na = next_a a b i j partial_size_a partial_size_b;
            nb = next_a b a j i partial_size_b partial_size_a in
        if na \<and> \<not> i < length a \<or> nb \<and> \<not> j < length b then Inl (CheckFailed ''index out of range'')
        else factors_loop a b (if na then i + 1 else i) (if nb then j + 1 else j) prior_i prior_j
               (if na then partial_size_a * a ! i else partial_size_a)
               (if nb then partial_size_b * b ! j else partial_size_b) bounds)"
  by pat_completeness auto
termination
proof (relation "measure (\<lambda>(a, b, i, j, pi, pj, pa, pb, bs).
    2 * ((length a - i) + (length b - j)) + (if int i > pi \<or> int j > pj then 1 else 0))", goal_cases)
  case (3 a b i j prior_i prior_j pa pb bounds na nb)
  then have p: "i < length a \<or> j < length b" "na = next_a a b i j pa pb" "nb = next_a b a j i pb pa"
    "\<not> (na \<and> \<not> i < length a \<or> nb \<and> \<not> j < length b)" by simp_all
  from p(1) have "next_a a b i j pa pb \<or> next_a b a j i pb pa"
    unfolding next_a_def by (metis linorder_less_linear linorder_linear)
  then have "na \<or> nb" by (simp add: p(2,3))
  with p(4) show ?case by auto
qed auto

declare factors_loop.simps [simp del]

definition CommonFactors :: "int list \<Rightarrow> int list \<Rightarrow> (nat \<times> nat) list status_or" where
  "CommonFactors a b =
     (if Product a \<noteq> Product b then Inl (CheckFailed ''Product(a) == Product(b)'')
      else if a = b then Inr (map (\<lambda>i. (i, i)) [0..<length a + 1])
      else
        let i = common_prefix a b; bounds = map (\<lambda>k. (k, k)) [0..<i] in
        if Product (drop i a) \<noteq> Product (drop i b) then Inr [(0, 0), (length a, length b)]
        else if 0 = Product (drop i a) then Inr (bounds @ [(i, i)] @ [(length a, length b)])
        else factors_loop a b i i (int i - 1) (int i - 1) 1 1 bounds)"

record ConvertedDimensionNumbers =
  transformed_from_dimensions :: "int list"
  untransformed_from_dimensions :: "int list"
  to_dimensions :: "int list"
  split_from_dimensions :: "int list"
  split_from_sizes :: "int list"
  split_to_dimensions :: "int list"

text \<open>The loop over \<open>to_dim\<close>, from the last one of the group down; it returns the remaining size.\<close>

fun split_to_loop :: "int list \<Rightarrow> nat list \<Rightarrow> int \<Rightarrow> int list \<Rightarrow> (int \<times> int list) status_or" where
  "split_to_loop to_sizes [] from_size acc = Inr (from_size, acc)"
| "split_to_loop to_sizes (to_dim # rest) from_size acc =
     bindE (cmod from_size (to_sizes ! to_dim)) (\<lambda>r.
       if r = 0
       then bindE (cdiv from_size (to_sizes ! to_dim)) (\<lambda>q. split_to_loop to_sizes rest q (acc @ [int to_dim]))
       else Inr (from_size, acc))"

definition convert_group :: "int list \<Rightarrow> int list \<Rightarrow> int list \<Rightarrow> ConvertedDimensionNumbers \<Rightarrow>
    (nat \<times> nat) \<times> (nat \<times> nat) \<Rightarrow> ConvertedDimensionNumbers status_or" where
  "convert_group from_dimensions from_sizes to_sizes dims g =
     (case g of ((i, j), (i', j')) \<Rightarrow>
      let group = [i..<i'] in
      if list_all (\<lambda>d. int d \<in> set from_dimensions) group
      then Inr (dims\<lparr>to_dimensions := to_dimensions dims @ map int [j..<j'],
                     transformed_from_dimensions := transformed_from_dimensions dims @ map int group\<rparr>)
      else if list_ex (\<lambda>d. int d \<in> set from_dimensions) group
      then
        bindE
          (if i + 2 = i' \<and> int (i + 1) \<in> set from_dimensions
           then bindE (split_to_loop to_sizes (rev [j..<j']) (from_sizes ! (i' - 1)) []) (\<lambda>(from_size, tos).
             if tos \<noteq> []
             then Inr (dims\<lparr>to_dimensions := to_dimensions dims @ tos,
                            split_from_sizes := split_from_sizes dims @ [from_size],
                            split_from_dimensions := split_from_dimensions dims @ [int (i + 1)]\<rparr>)
             else Inr dims)
           else Inr dims) (\<lambda>dims'.
        Inr (dims'\<lparr>untransformed_from_dimensions := untransformed_from_dimensions dims' @
                     map int (filter (\<lambda>d. int d \<in> set from_dimensions) group)\<rparr>))
      else Inr dims)"

definition ConvertDimensionNumbers :: "int list \<Rightarrow> int list \<Rightarrow> int list \<Rightarrow> ConvertedDimensionNumbers status_or" where
  "ConvertDimensionNumbers from_dimensions from_sizes to_sizes =
     bindE (CommonFactors from_sizes to_sizes) (\<lambda>common_factors.
     bindE (foldE (convert_group from_dimensions from_sizes to_sizes)
         \<lparr>transformed_from_dimensions = [], untransformed_from_dimensions = [], to_dimensions = [],
          split_from_dimensions = [], split_from_sizes = [], split_to_dimensions = []\<rparr>
         (zip common_factors (tl common_factors))) (\<lambda>dims.
       Inr (dims\<lparr>to_dimensions := sort (to_dimensions dims)\<rparr>)))"

definition GetNonContractingDims :: "int \<Rightarrow> int list \<Rightarrow> int list \<Rightarrow> int list" where
  "GetNonContractingDims rank contracting_dim_numbers batch_dim_numbers =
     filter (\<lambda>i. i \<notin> set contracting_dim_numbers \<and> i \<notin> set batch_dim_numbers) (map int [0..<nat rank])"

text \<open>The difference is compared with the unsigned \<open>seq.size() - 1\<close>; the range of an empty sequence does not exist.\<close>

definition DistinctNumbersAreConsecutiveIfSorted :: "int list \<Rightarrow> bool status_or" where
  "DistinctNumbersAreConsecutiveIfSorted seq =
     (if seq = [] then Inl (CheckFailed ''dereferenced end iterator'')
      else Inr (foldl max (hd seq) seq - foldl min (hd seq) seq = int (length seq) - 1))"

section \<open>Small integers in bytes\<close>

type_synonym byte = "8 word"

definition LsbMask :: "nat \<Rightarrow> byte" where
  "LsbMask width = (if width = 0 then 0 else drop_bit (8 - width) (- 1))"

definition KeepLowerBits :: "byte \<Rightarrow> nat \<Rightarrow> byte" where
  "KeepLowerBits value width = value AND LsbMask width"

text \<open>The byte built from the elements \<open>j, j + 1, ...\<close> of one group.\<close>

fun pack_byte :: "nat \<Rightarrow> nat \<Rightarrow> byte \<Rightarrow> byte list \<Rightarrow> byte" where
  "pack_byte k j byte [] = byte"
| "pack_byte k j byte (x # xs) = pack_byte k (j + 1) (byte OR push_bit (k * j) (x AND LsbMask k)) xs"

definition PackIntN :: "nat \<Rightarrow> byte list \<Rightarrow> byte list \<Rightarrow> byte list status_or" where
  "PackIntN k input output =
     (let per_byte = 8 div k; aligned_inputs = length input div per_byte; remainder = length input mod per_byte in
      if length output < (length input + per_byte - 1) div per_byte
      then Inl (CheckFailed ''output.size() >= required_output_size'')
      else
        let whole = map (\<lambda>i. pack_byte k 0 0 (take per_byte (drop (i * per_byte) input))) [0..<aligned_inputs];
            last = (if remainder \<noteq> 0 then [pack_byte k 0 0 (take remainder (drop (aligned_inputs * per_byte) input))] else [])
        in Inr (whole @ last @ drop (length whole + length last) output))"

text \<open>\<open>char\<close> is signed, so the shift to the right copies the sign bit.\<close>

definition unpack_element :: "nat \<Rightarrow> byte \<Rightarrow> nat \<Rightarrow> byte" where
  "unpack_element k byte j = signed_drop_bit (k * j) byte AND LsbMask k"

definition UnpackIntN :: "nat \<Rightarrow> byte list \<Rightarrow> byte list \<Rightarrow> byte list status_or" where
  "UnpackIntN k input output =
     (let per_byte = 8 div k; aligned_outputs = length output div per_byte; remainder = length output mod per_byte in
      if length input < (length output + per_byte - 1) div per_byte
      then Inl (CheckFailed ''input.size() >= required_input_size'')
      else Inr (concat (map (\<lambda>i. map (unpack_element k (input ! i)) [0..<per_byte]) [0..<aligned_outputs]) @
                (if remainder \<noteq> 0 then map (unpack_element k (input ! aligned_outputs)) [0..<remainder] else [])))"

text \<open>The overloads that take the width as an argument.\<close>

definition PackIntN_bits :: "nat \<Rightarrow> byte list \<Rightarrow> byte list \<Rightarrow> byte list status_or" where
  "PackIntN_bits bits_per_element input output =
     (if bits_per_element = 1 \<or> bits_per_element = 2 \<or> bits_per_element = 4 then PackIntN bits_per_element input output
      else Inl (CheckFailed ''Invalid bits_per_element''))"

definition UnpackIntN_bits :: "nat \<Rightarrow> byte list \<Rightarrow> byte list \<Rightarrow> byte list status_or" where
  "UnpackIntN_bits bits_per_element input output =
     (if bits_per_element = 1 \<or> bits_per_element = 2 \<or> bits_per_element = 4 then UnpackIntN bits_per_element input output
      else Inl (CheckFailed ''Invalid bits_per_element''))"

section \<open>Mixed radix\<close>

fun mixed_radix_loop :: "int \<Rightarrow> int \<Rightarrow> int list \<Rightarrow> int list status_or" where
  "mixed_radix_loop divisor remainder [] = Inr []"
| "mixed_radix_loop divisor remainder (radix # rest) =
     (if \<not> radix > 0 then Inl (CheckFailed ''radix > 0'')
      else bindE (cdiv divisor radix) (\<lambda>divisor'.
        if \<not> divisor' > 0 then Inl (CheckFailed ''divisor > 0'')
        else bindE (cdiv remainder divisor') (\<lambda>q.
             bindE (cmod remainder divisor') (\<lambda>r.
             bindE (mixed_radix_loop divisor' r rest) (\<lambda>qs. Inr (q # qs))))))"

definition ToMixedRadix :: "int \<Rightarrow> int list \<Rightarrow> int list status_or" where
  "ToMixedRadix n bounds =
     (if bounds = [] then Inr []
      else if \<not> Product bounds > 0 then Inl (CheckFailed ''divisor > 0'')
      else bindE (cmod n (Product bounds)) (\<lambda>r. mixed_radix_loop (Product bounds) r bounds))"

section \<open>Groups of equal product\<close>

lemma Product_prod_list [simp]: "Product xs = prod_list xs"
proof -
  have "foldl (*) k xs = k * prod_list xs" for k :: int
    by (induction xs arbitrary: k) (auto simp: mult.assoc)
  then show ?thesis by (simp add: Product_def)
qed

definition slice_prod :: "int list \<Rightarrow> nat \<Rightarrow> nat \<Rightarrow> int" where
  "slice_prod xs i j = prod_list (take (j - i) (drop i xs))"

lemma slice_prod_self [simp]: "slice_prod xs i i = 1"
  by (simp add: slice_prod_def)

lemma slice_prod_Suc: "i \<le> j \<Longrightarrow> j < length xs \<Longrightarrow> slice_prod xs i (Suc j) = slice_prod xs i j * xs ! j"
  by (simp add: slice_prod_def Suc_diff_le take_Suc_conv_app_nth)

lemma slice_prod_split: "i \<le> j \<Longrightarrow> j \<le> k \<Longrightarrow> slice_prod xs i k = slice_prod xs i j * slice_prod xs j k"
proof -
  assume a: "i \<le> j" "j \<le> k"
  then have "take (k - i) (drop i xs) = take (j - i) (drop i xs) @ take (k - j) (drop j xs)"
    using take_add [of "j - i" "k - j" "drop i xs"] by simp
  then show ?thesis by (simp add: slice_prod_def)
qed

lemma slice_prod_all: "slice_prod xs i (length xs) = prod_list (drop i xs)"
  by (simp add: slice_prod_def)

lemma slice_prod_pos: "\<forall>x\<in>set (drop i xs). 0 < x \<Longrightarrow> i \<le> j \<Longrightarrow> 0 < slice_prod xs j k"
  unfolding slice_prod_def by (rule prod_list_pos) (metis in_mono set_drop_subset_set_drop set_take_subset)

text \<open>Two boundaries in succession delimit a group of sizes on either side with the same product.\<close>

definition equal_groups :: "int list \<Rightarrow> int list \<Rightarrow> nat \<times> nat \<Rightarrow> nat \<times> nat \<Rightarrow> bool" where
  "equal_groups a b p q \<longleftrightarrow> fst p \<le> fst q \<and> snd p \<le> snd q \<and> p \<noteq> q \<and>
     slice_prod a (fst p) (fst q) = slice_prod b (snd p) (snd q)"

definition grouping :: "int list \<Rightarrow> int list \<Rightarrow> (nat \<times> nat) list \<Rightarrow> bool" where
  "grouping a b bounds \<longleftrightarrow> bounds \<noteq> [] \<and> hd bounds = (0, 0) \<and> last bounds = (length a, length b) \<and>
     successively (equal_groups a b) bounds"

lemma slice_prod_le: "\<forall>x\<in>set (drop k xs). 0 < x \<Longrightarrow> k \<le> j \<Longrightarrow> j \<le> length xs \<Longrightarrow> slice_prod xs k j \<le> prod_list (drop k xs)"
  using slice_prod_split [of k j "length xs" xs] slice_prod_pos [of k xs k j] slice_prod_pos [of k xs j "length xs"]
  by (simp add: slice_prod_all)

lemma next_a_in_bounds:
  assumes "\<forall>x\<in>set (drop k b). 0 < x" "prod_list (drop k a) = prod_list (drop k b)"
    "k \<le> j" "i \<le> length a" "j \<le> length b"
    "next_a a b i j (slice_prod a k i) (slice_prod b k j)"
  shows "i < length a"
proof (rule ccontr)
  assume "\<not> i < length a"
  with assms have "slice_prod a k (length a) < slice_prod b k j" by (auto simp: next_a_def)
  with slice_prod_le [OF assms(1,3,5)] assms(2) show False by (simp add: slice_prod_all)
qed

lemma equal_groups_between:
  assumes "\<forall>x\<in>set (drop k a). 0 < x" "k \<le> pi" "k \<le> pj" "pi \<le> i" "pj \<le> j" "(pi, pj) \<noteq> (i, j)"
    "slice_prod a k pi = slice_prod b k pj" "slice_prod a k i = slice_prod b k j"
  shows "equal_groups a b (pi, pj) (i, j)"
proof -
  have "slice_prod a k pi * slice_prod a pi i = slice_prod a k pi * slice_prod b pj j"
    using assms slice_prod_split [of k pi i a] slice_prod_split [of k pj j b] by simp
  moreover have "0 < slice_prod a k pi" using slice_prod_pos [OF assms(1), of k pi] by simp
  ultimately show ?thesis using assms(4-6) by (simp add: equal_groups_def)
qed

lemma factors_loop_grouping:
  assumes "\<forall>x\<in>set (drop k a). 0 < x" "\<forall>x\<in>set (drop k b). 0 < x" "prod_list (drop k a) = prod_list (drop k b)"
    "k \<le> pi" "k \<le> pj" "pi \<le> i" "pj \<le> j" "i \<le> length a" "j \<le> length b"
    "prior_i = int pi" "prior_j = int pj" "slice_prod a k pi = slice_prod b k pj"
    "pa = slice_prod a k i" "pb = slice_prod b k j"
    "bounds \<noteq> []" "hd bounds = (0, 0)" "last bounds = (pi, pj)" "successively (equal_groups a b) bounds"
  shows "\<exists>bs. factors_loop a b i j prior_i prior_j pa pb bounds = Inr bs \<and> grouping a b bs"
  using assms
proof (induction a b i j prior_i prior_j pa pb bounds arbitrary: pi pj rule: factors_loop.induct)
  case (1 a b i j prior_i prior_j pa pb bounds)
  note P = "1.prems"
  let ?meet = "pa = pb \<and> (int i > prior_i \<or> int j > prior_j)"
  consider (boundary) "?meet" | (stop) "\<not> ?meet" "\<not> (i < length a \<or> j < length b)"
    | (advance) "\<not> ?meet" "i < length a \<or> j < length b" by blast
  then show ?case
  proof cases
    case boundary
    have "equal_groups a b (pi, pj) (i, j)"
      by (rule equal_groups_between [OF P(1) P(4-7) _ P(12)]) (use boundary P in auto)
    then have "successively (equal_groups a b) (bounds @ [(i, j)])"
      using P(15-18) by (simp add: successively_append_iff)
    moreover have "factors_loop a b i j prior_i prior_j pa pb bounds =
        factors_loop a b i j (int i) (int j) pa pb (bounds @ [(i, j)])"
      using boundary by (subst factors_loop.simps) (simp only: if_True simp_thms)
    ultimately show ?thesis
      using "1.IH"(1) [OF boundary, of i j] P boundary by simp
  next
    case stop
    then have e: "i = length a" "j = length b" using P by auto
    then have "pa = pb" using P(3,13,14) by (simp add: slice_prod_all)
    with stop P have "pi = i" "pj = j" by auto
    moreover have "factors_loop a b i j prior_i prior_j pa pb bounds = Inr bounds"
      using stop by (subst factors_loop.simps) (simp only: if_False if_True simp_thms)
    ultimately show ?thesis using P e by (simp add: grouping_def)
  next
    case advance
    let ?na = "next_a a b i j pa pb" and ?nb = "next_a b a j i pb pa"
    have na: "?na \<Longrightarrow> i < length a" and nb: "?nb \<Longrightarrow> j < length b"
      using next_a_in_bounds [OF P(2,3), of j i] next_a_in_bounds [OF P(1) P(3) [symmetric], of i j] P by auto
    have "factors_loop a b i j prior_i prior_j pa pb bounds =
        factors_loop a b (if ?na then i + 1 else i) (if ?nb then j + 1 else j) prior_i prior_j
          (if ?na then pa * a ! i else pa) (if ?nb then pb * b ! j else pb) bounds"
      using advance na nb by (subst factors_loop.simps) (simp only: if_False Let_def simp_thms split: if_splits, auto)
    moreover have "\<exists>bs. factors_loop a b (if ?na then i + 1 else i) (if ?nb then j + 1 else j) prior_i prior_j
          (if ?na then pa * a ! i else pa) (if ?nb then pb * b ! j else pb) bounds = Inr bs \<and> grouping a b bs"
    proof (rule "1.IH"(2) [of ?na ?nb pi pj])
      show "(if ?na then pa * a ! i else pa) = slice_prod a k (if ?na then i + 1 else i)"
        using P na by (auto simp: slice_prod_Suc)
      show "(if ?nb then pb * b ! j else pb) = slice_prod b k (if ?nb then j + 1 else j)"
        using P nb by (auto simp: slice_prod_Suc)
    qed (use P advance na nb in auto)
    ultimately show ?thesis by simp
  qed
qed

lemma common_prefix_props:
  "common_prefix a b \<le> length a" "common_prefix a b \<le> length b"
  "take (common_prefix a b) a = take (common_prefix a b) b"
  by (induction a b rule: common_prefix.induct) auto

lemma prefix_groups:
  assumes "take i a = take i b" "i \<le> length a" "i \<le> length b"
  shows "successively (equal_groups a b) (map (\<lambda>k. (k, k)) [0..<i + 1])"
  unfolding successively_conv_nth
proof (intro allI impI)
  fix k assume "Suc k < length (map (\<lambda>k. (k, k)) [0..<i + 1])"
  then have k: "k < i" by simp
  then have "a ! k = b ! k" using assms(1) by (metis nth_take)
  with k assms show "equal_groups a b (map (\<lambda>k. (k, k)) [0..<i + 1] ! k) (map (\<lambda>k. (k, k)) [0..<i + 1] ! Suc k)"
    by (simp add: equal_groups_def slice_prod_Suc del: upt_Suc)
qed

lemma pos_of_nonneg_prod:
  assumes "\<forall>x\<in>set xs. 0 \<le> (x::int)" "prod_list (drop k xs) \<noteq> 0"
  shows "\<forall>x\<in>set (drop k xs). 0 < x"
  using assms by (metis in_set_dropD order_le_less prod_list_zero_iff)

lemma CommonFactors_groups:
  assumes nn: "\<forall>x\<in>set a. 0 \<le> x" "\<forall>x\<in>set b. 0 \<le> x" and e: "Product a = Product b"
  shows "\<exists>bounds. CommonFactors a b = Inr bounds \<and> grouping a b bounds"
proof -
  let ?k = "common_prefix a b"
  note k = common_prefix_props [of a b]
  have pre: "successively (equal_groups a b) (map (\<lambda>i. (i, i)) [0..<?k] @ [(?k, ?k)])"
    using prefix_groups [OF k(3,1,2)] by simp
  have ends: "last (map (\<lambda>i. (i, i)) [0..<?k] @ [(?k, ?k)]) = (?k, ?k)" "hd (map (\<lambda>i. (i, i)) [0..<?k] @ [(?k, ?k)]) = (0, 0)"
    by (auto simp: hd_append hd_map)
  consider (equal) "a = b" | (whole) "a \<noteq> b" "Product (drop ?k a) \<noteq> Product (drop ?k b)"
    | (zero) "a \<noteq> b" "Product (drop ?k a) = Product (drop ?k b)" "0 = Product (drop ?k a)"
    | (loop) "a \<noteq> b" "Product (drop ?k a) = Product (drop ?k b)" "0 \<noteq> Product (drop ?k a)" by blast
  then show ?thesis
  proof cases
    case equal
    have "grouping a a (map (\<lambda>i. (i, i)) [0..<length a + 1])"
      using prefix_groups [of "length a" a a] by (simp add: grouping_def hd_append hd_map)
    with equal show ?thesis by (simp add: CommonFactors_def)
  next
    case whole
    then have "grouping a b [(0, 0), (length a, length b)]"
      using e by (auto simp: grouping_def equal_groups_def slice_prod_all)
    with whole e show ?thesis by (auto simp: CommonFactors_def Let_def)
  next
    case zero
    have ne: "(?k, ?k) \<noteq> (length a, length b)" using zero k by (metis prod.inject take_all_iff)
    have "grouping a b (map (\<lambda>i. (i, i)) [0..<?k] @ [(?k, ?k)] @ [(length a, length b)])"
      using pre ends zero k ne
      by (auto simp: grouping_def successively_append_iff equal_groups_def slice_prod_all hd_append)
    with zero e show ?thesis by (auto simp: CommonFactors_def Let_def)
  next
    case loop
    have "factors_loop a b ?k ?k (int ?k - 1) (int ?k - 1) 1 1 (map (\<lambda>i. (i, i)) [0..<?k]) =
        factors_loop a b ?k ?k (int ?k) (int ?k) 1 1 (map (\<lambda>i. (i, i)) [0..<?k] @ [(?k, ?k)])"
      by (subst factors_loop.simps) simp
    moreover have "\<forall>x\<in>set (drop ?k a). 0 < x" "\<forall>x\<in>set (drop ?k b). 0 < x"
      using pos_of_nonneg_prod [OF nn(1), of ?k] pos_of_nonneg_prod [OF nn(2), of ?k] loop by simp_all
    then have "\<exists>bs. factors_loop a b ?k ?k (int ?k) (int ?k) 1 1 (map (\<lambda>i. (i, i)) [0..<?k] @ [(?k, ?k)]) = Inr bs
        \<and> grouping a b bs"
      by (rule factors_loop_grouping [of ?k a b ?k ?k])
        (use loop k pre ends in auto)
    ultimately show ?thesis using loop e by (auto simp: CommonFactors_def Let_def)
  qed
qed

text \<open>
  C22. \<open>CommonFactors\<close> of two lists of sizes with the same product always returns, and returns what its
  comment promises: the boundaries start at \<open>(0, 0)\<close>, end behind both lists, advance with every step,
  and the sizes between two successive boundaries have the same product on both sides.
\<close>

theorem CommonFactors_grouping:
  assumes "\<forall>x\<in>set a. 0 \<le> x" "\<forall>x\<in>set b. 0 \<le> x" "Product a = Product b"
  shows "\<exists>bounds. CommonFactors a b = Inr bounds \<and> bounds \<noteq> [] \<and> hd bounds = (0, 0) \<and>
    last bounds = (length a, length b) \<and>
    (\<forall>k. Suc k < length bounds \<longrightarrow> (case (bounds ! k, bounds ! Suc k) of ((i, j), (i', j')) \<Rightarrow>
       i \<le> i' \<and> j \<le> j' \<and> (i, j) \<noteq> (i', j') \<and>
       prod_list (take (i' - i) (drop i a)) = prod_list (take (j' - j) (drop j b))))"
proof -
  obtain bounds where "CommonFactors a b = Inr bounds" "grouping a b bounds"
    using CommonFactors_groups [OF assms] by blast
  then show ?thesis
    by (auto simp: grouping_def successively_conv_nth equal_groups_def slice_prod_def split: prod.splits)
qed

theorem CommonFactors_grouping_witness:
  "\<exists>bounds. CommonFactors [2, 6, 5] [4, 3, 5] = Inr bounds \<and> hd bounds = (0, 0) \<and> last bounds = (3, 3)"
  using CommonFactors_grouping [of "[2, 6, 5]" "[4, 3, 5]"] by (auto simp: Product_def)

lemma CommonFactors_zero_keeps_prefix: "CommonFactors [3, 2, 0] [3, 5, 0] = Inr [(0, 0), (1, 1), (3, 3)]"
  by code_simp

lemma ConvertDimensionNumbers_divides_by_zero:
  "ConvertDimensionNumbers [1] [2, 0] [0, 5] = Inl (CheckFailed ''division by zero'')"
  by code_simp

section \<open>Dimensions under a reshape\<close>

text \<open>What is known of the result after the groups before the boundary \<open>(i, j)\<close>.\<close>

definition converted_upto :: "int list \<Rightarrow> nat \<times> nat \<Rightarrow> ConvertedDimensionNumbers \<Rightarrow> bool" where
  "converted_upto from_dims p r \<longleftrightarrow>
     set (transformed_from_dimensions r) \<union> set (untransformed_from_dimensions r) = set from_dims \<inter> {0..<int (fst p)} \<and>
     set (transformed_from_dimensions r) \<inter> set (untransformed_from_dimensions r) = {} \<and>
     set (to_dimensions r) \<subseteq> {0..<int (snd p)} \<and> distinct (to_dimensions r)"

lemma split_to_loop_result:
  "\<forall>d\<in>set ds. 0 < ts ! d \<Longrightarrow> distinct ds \<Longrightarrow> distinct acc \<Longrightarrow> set acc \<inter> int ` set ds = {} \<Longrightarrow>
   \<exists>n tos. split_to_loop ts ds sz acc = Inr (n, tos) \<and> distinct tos \<and> set tos \<subseteq> set acc \<union> int ` set ds"
proof (induction ts ds sz acc rule: split_to_loop.induct)
  case (2 ts d ds sz acc)
  have c: "cmod sz (ts ! d) = Inr (sz smod ts ! d)" "cdiv sz (ts ! d) = Inr (sz sdiv ts ! d)"
    using "2.prems"(1) by (auto simp: cmod_def cdiv_def)
  show ?case
  proof (cases "sz smod ts ! d = 0")
    case True
    have "\<exists>n tos. split_to_loop ts ds (sz sdiv ts ! d) (acc @ [int d]) = Inr (n, tos) \<and> distinct tos \<and>
        set tos \<subseteq> set (acc @ [int d]) \<union> int ` set ds"
      by (rule "2.IH" [OF c(1) True c(2)]) (use "2.prems" in auto)
    with True c show ?thesis by auto
  qed (use c "2.prems" in auto)
qed auto

lemma converted_upto_transformed:
  assumes "converted_upto F (i, j) dims" "i \<le> i'" "j \<le> j'" "\<forall>d\<in>set [i..<i']. int d \<in> set F"
  shows "converted_upto F (i', j') (dims\<lparr>to_dimensions := to_dimensions dims @ map int [j..<j'],
    transformed_from_dimensions := transformed_from_dimensions dims @ map int [i..<i']\<rparr>)"
proof -
  have im: "int ` {i..<i'} = {int i..<int i'}" "int ` {j..<j'} = {int j..<int j'}"
    by (simp_all add: image_int_atLeastLessThan)
  have sub: "{int i..<int i'} \<subseteq> set F" using assms(4) unfolding im(1) [symmetric] by auto
  have "set (transformed_from_dimensions dims) \<subseteq> {0..<int i}"
    "set (untransformed_from_dimensions dims) \<subseteq> {0..<int i}" "set (to_dimensions dims) \<subseteq> {0..<int j}"
    using assms(1) by (auto simp: converted_upto_def)
  with assms(1-3) sub show ?thesis
    by (auto simp: converted_upto_def im distinct_map inj_on_def)
qed

lemma converted_upto_untransformed:
  assumes "converted_upto F (i, j) dims" "i \<le> i'" "j \<le> j'"
    "set tos \<subseteq> int ` {j..<j'}" "distinct tos" "to_dimensions dims' = to_dimensions dims @ tos"
    "transformed_from_dimensions dims' = transformed_from_dimensions dims"
    "untransformed_from_dimensions dims' = untransformed_from_dimensions dims"
  shows "converted_upto F (i', j') (dims'\<lparr>untransformed_from_dimensions := untransformed_from_dimensions dims' @
           map int (filter (\<lambda>d. int d \<in> set F) [i..<i'])\<rparr>)"
proof -
  have "set (map int (filter (\<lambda>d. int d \<in> set F) [i..<i'])) = set F \<inter> {int i..<int i'}"
  proof (rule set_eqI)
    fix x show "x \<in> set (map int (filter (\<lambda>d. int d \<in> set F) [i..<i'])) \<longleftrightarrow> x \<in> set F \<inter> {int i..<int i'}"
      by (auto intro!: image_eqI [of _ _ "nat x"])
  qed
  moreover have "set (transformed_from_dimensions dims) \<subseteq> {0..<int i}" "set (to_dimensions dims) \<subseteq> {0..<int j}"
    using assms(1) by (auto simp: converted_upto_def)
  moreover have "set tos \<inter> {0..<int j} = {}" using assms(4) by auto
  ultimately show ?thesis using assms by (auto simp: converted_upto_def image_int_atLeastLessThan)
qed

lemma convert_group_step:
  assumes c: "converted_upto F (i, j) dims" "i \<le> i'" "j \<le> j'" and pos: "\<forall>d\<in>{j..<j'}. 0 < ts ! d"
  shows "\<exists>r. convert_group F fs ts dims ((i, j), (i', j')) = Inr r \<and> converted_upto F (i', j') r"
proof -
  let ?grp = "[i..<i']"
  obtain n tos where s: "split_to_loop ts (rev [j..<j']) (fs ! (i' - 1)) [] = Inr (n, tos)" "distinct tos"
    "set tos \<subseteq> int ` {j..<j'}"
    using split_to_loop_result [of "rev [j..<j']" ts "[]" "fs ! (i' - 1)"] pos by auto
  consider (all) "list_all (\<lambda>d. int d \<in> set F) ?grp" | (split) "\<not> list_all (\<lambda>d. int d \<in> set F) ?grp"
      "list_ex (\<lambda>d. int d \<in> set F) ?grp" "i + 2 = i' \<and> int (i + 1) \<in> set F" "tos \<noteq> []"
    | (some) "\<not> list_all (\<lambda>d. int d \<in> set F) ?grp"
      "list_ex (\<lambda>d. int d \<in> set F) ?grp" "\<not> (i + 2 = i' \<and> int (i + 1) \<in> set F) \<or> tos = []"
    | (none) "\<not> list_all (\<lambda>d. int d \<in> set F) ?grp" "\<not> list_ex (\<lambda>d. int d \<in> set F) ?grp" by blast
  then show ?thesis
  proof cases
    case all
    then show ?thesis using converted_upto_transformed [OF c] by (simp add: convert_group_def Let_def list_all_iff)
  next
    case split
    let ?d = "dims\<lparr>to_dimensions := to_dimensions dims @ tos, split_from_sizes := split_from_sizes dims @ [n],
      split_from_dimensions := split_from_dimensions dims @ [int (i + 1)]\<rparr>"
    have "converted_upto F (i', j') (?d\<lparr>untransformed_from_dimensions := untransformed_from_dimensions ?d @
           map int (filter (\<lambda>d. int d \<in> set F) [i..<i'])\<rparr>)"
      by (rule converted_upto_untransformed [OF c s(3,2)]) simp_all
    with split s(1) show ?thesis by (simp only: convert_group_def Let_def prod.case simp_thms if_False if_True bindE_Inr) blast
  next
    case some
    have "converted_upto F (i', j') (dims\<lparr>untransformed_from_dimensions := untransformed_from_dimensions dims @
           map int (filter (\<lambda>d. int d \<in> set F) [i..<i'])\<rparr>)"
      by (rule converted_upto_untransformed [OF c, of "[]"]) simp_all
    moreover have "(if i + 2 = i' \<and> int (i + 1) \<in> set F
           then bindE (split_to_loop ts (rev [j..<j']) (fs ! (i' - 1)) []) (\<lambda>(from_size, tos).
             if tos \<noteq> [] then Inr (dims\<lparr>to_dimensions := to_dimensions dims @ tos,
                            split_from_sizes := split_from_sizes dims @ [from_size],
                            split_from_dimensions := split_from_dimensions dims @ [int (i + 1)]\<rparr>)
             else Inr dims)
           else Inr dims) = Inr dims" using some(3) s(1) by auto
    ultimately show ?thesis using some(1,2) by (simp only: convert_group_def Let_def prod.case simp_thms if_False if_True bindE_Inr) blast
  next
    case none
    then have "set F \<inter> {int i..<int i'} = {}"
      by (auto simp: list_ex_iff) (metis atLeastLessThan_iff nat_int nat_le_iff of_nat_less_iff zero_le_imp_eq_int order_trans of_nat_0_le_iff of_nat_le_iff)
    then have "set F \<inter> {0..<int i'} = set F \<inter> {0..<int i}" using c(2) by auto
    with none c show ?thesis by (auto simp: convert_group_def Let_def converted_upto_def)
  qed
qed

lemma convert_groups:
  assumes "successively (equal_groups a b) (p # bs)" "converted_upto F p dims" "snd (last (p # bs)) \<le> length ts"
    "\<forall>t\<in>set ts. 0 < t"
  shows "\<exists>r. foldE (convert_group F fs ts) dims (zip (p # bs) bs) = Inr r \<and> converted_upto F (last (p # bs)) r"
  using assms
proof (induction bs arbitrary: p dims)
  case (Cons q bs)
  have g: "fst p \<le> fst q" "snd p \<le> snd q" "successively (equal_groups a b) (q # bs)"
    using Cons.prems(1) by (auto simp: equal_groups_def)
  have "snd q \<le> snd (last (q # bs))" using g(3)
  proof (induction bs arbitrary: q)
    case (Cons r bs)
    then have "snd q \<le> snd r" "snd r \<le> snd (last (r # bs))" by (auto simp: equal_groups_def)
    then show ?case by simp
  qed simp
  then have "snd q \<le> length ts" using Cons.prems(3) by simp
  then have "\<forall>d\<in>{snd p..<snd q}. 0 < ts ! d" using Cons.prems(4) by auto
  then obtain r where r: "convert_group F fs ts dims (p, q) = Inr r" "converted_upto F q r"
    using convert_group_step [of F "fst p" "snd p" dims "fst q" "snd q" ts fs] g(1,2) Cons.prems(2) by auto
  have "\<exists>r'. foldE (convert_group F fs ts) r (zip (q # bs) bs) = Inr r' \<and> converted_upto F (last (q # bs)) r'"
    by (rule Cons.IH [OF g(3) r(2)]) (use Cons.prems in auto)
  with r show ?case by simp
qed auto



section \<open>Packing is inverted by unpacking\<close>

lemma LsbMask_mask: "k \<le> 8 \<Longrightarrow> LsbMask k = mask k"
  by (rule bit_eqI) (auto simp: LsbMask_def bit_simps possible_bit_word)

lemma bit_pack_byte:
  "k \<le> 8 \<Longrightarrow> n < 8 \<Longrightarrow> bit (pack_byte k j b xs) n \<longleftrightarrow>
     bit b n \<or> (\<exists>i<length xs. k * (j + i) \<le> n \<and> n < k * (j + i) + k \<and> bit (xs ! i) (n - k * (j + i)))"
proof (induction k j b xs rule: pack_byte.induct)
  case (2 k j b x xs)
  have "(\<exists>i<length (x # xs). k * (j + i) \<le> n \<and> n < k * (j + i) + k \<and> bit ((x # xs) ! i) (n - k * (j + i))) \<longleftrightarrow>
     k * j \<le> n \<and> n < k * j + k \<and> bit x (n - k * j) \<or>
     (\<exists>i<length xs. k * (j + 1 + i) \<le> n \<and> n < k * (j + 1 + i) + k \<and> bit (xs ! i) (n - k * (j + 1 + i)))"
    by (simp add: Ex_less_Suc2)
  then show ?case using 2
    by (auto simp: bit_simps LsbMask_mask possible_bit_word less_diff_conv2 add.commute)
qed simp

text \<open>Elements of one byte do not overlap.\<close>

lemma same_position:
  fixes k :: nat
  assumes "0 < k" "n < k" "k * i \<le> k * j + n" "k * j + n < k * i + k"
  shows "i = j"
proof (rule linorder_cases [of i j])
  assume "i < j"
  then have "k * (i + 1) \<le> k * j" by (intro mult_le_mono2) simp
  with assms show ?thesis by simp
next
  assume "j < i"
  then have "k * (j + 1) \<le> k * i" by (intro mult_le_mono2) simp
  with assms show ?thesis by simp
qed

lemma unpack_pack_byte:
  assumes "0 < k" "k * length xs \<le> 8" "j < length xs"
  shows "unpack_element k (pack_byte k 0 0 xs) j = xs ! j AND LsbMask k"
proof (rule bit_eqI)
  have "k * 1 \<le> k * length xs" using assms(3) by (intro mult_le_mono2) simp
  then have k: "k \<le> 8" using assms(2) by linarith
  have "k * (j + 1) \<le> k * length xs" using assms(3) by (intro mult_le_mono2) simp
  then have kj: "k * j + k \<le> 8" using assms(2) by simp
  fix n
  show "bit (unpack_element k (pack_byte k 0 0 xs) j) n \<longleftrightarrow> bit (xs ! j AND LsbMask k) n"
  proof (cases "n < k")
    case True
    then have n: "k * j + n < 8" using kj by simp
    have "bit (unpack_element k (pack_byte k 0 0 xs) j) n \<longleftrightarrow> bit (pack_byte k 0 0 xs) (k * j + n)"
      using True k n by (auto simp: unpack_element_def LsbMask_mask bit_simps possible_bit_word add.commute)
    also have "\<dots> \<longleftrightarrow> (\<exists>i<length xs. k * i \<le> k * j + n \<and> k * j + n < k * i + k \<and> bit (xs ! i) (k * j + n - k * i))"
      using bit_pack_byte [OF k n, of 0 0 xs] by simp
    also have "\<dots> \<longleftrightarrow> bit (xs ! j) n"
      using same_position [OF assms(1) True] True assms(3) by (metis add_diff_cancel_left' le_add1 nat_add_left_cancel_less)
    finally show ?thesis using True k by (simp add: LsbMask_mask bit_simps possible_bit_word)
  qed (use k in \<open>simp add: unpack_element_def LsbMask_mask bit_simps possible_bit_word\<close>)
qed

lemma map_unpack_pack:
  assumes "0 < k" "k * length xs \<le> 8"
  shows "map (unpack_element k (pack_byte k 0 0 xs)) [0..<length xs] = map (\<lambda>x. KeepLowerBits x k) xs"
  by (rule nth_equalityI) (use unpack_pack_byte [OF assms] in \<open>auto simp: KeepLowerBits_def\<close>)

lemma concat_chunks:
  assumes "m * e \<le> length xs"
  shows "concat (map (\<lambda>i. take e (drop (i * e) xs)) [0..<m]) = take (m * e) xs"
  using assms
proof (induction m)
  case (Suc m)
  then show ?case by (simp add: take_add [symmetric] add.commute)
qed simp

text \<open>
  C36. Unpacking what \<open>PackIntN\<close> wrote gives every element back, cut to its low bits, for every width
  from 1 to 7 and any number of elements, when the packed buffer is large enough for the check.
\<close>

theorem PackIntN_roundtrip:
  assumes "1 \<le> k" "k \<le> 7" "(length input + 8 div k - 1) div (8 div k) \<le> length packed" "length unpacked = length input"
  shows "bindE (PackIntN k input packed) (\<lambda>bytes. UnpackIntN k bytes unpacked) =
    Inr (map (\<lambda>x. KeepLowerBits x k) input)"
proof -
  let ?e = "8 div k" let ?m = "length input div ?e" and ?r = "length input mod ?e"
  let ?chunk = "\<lambda>i. take ?e (drop (i * ?e) input)" and ?rest = "take ?r (drop (?m * ?e) input)"
  let ?whole = "map (\<lambda>i. pack_byte k 0 0 (?chunk i)) [0..<?m]"
  let ?tail = "if ?r \<noteq> 0 then [pack_byte k 0 0 ?rest] else []"
  let ?bytes = "?whole @ ?tail @ drop (length ?whole + length ?tail) packed"
  have e: "0 < ?e" "k * ?e \<le> 8" using assms(1,2) by (auto simp: div_greater_zero_iff)
  have sz: "?m * ?e + ?r = length input" by (rule div_mult_mod_eq)
  have pk: "PackIntN k input packed = Inr ?bytes" using assms(3) by (simp add: PackIntN_def Let_def)
  have ch: "length (?chunk i) = ?e" if "i < ?m" for i
  proof -
    have "(i + 1) * ?e \<le> ?m * ?e" using that by (intro mult_le_mono1) simp
    then show ?thesis using sz by simp
  qed
  have lr: "length ?rest = ?r" using sz by simp
  have kr: "k * ?r \<le> 8" using e mod_less_divisor [OF e(1), of "length input"]
    by (meson le_trans less_imp_le mult_le_mono2)
  have u1: "map (unpack_element k (?bytes ! i)) [0..<?e] = map (\<lambda>x. KeepLowerBits x k) (?chunk i)" if "i < ?m" for i
    using map_unpack_pack [of k "?chunk i"] ch [OF that] e assms(1) that by (simp add: nth_append)
  have u2: "map (unpack_element k (?bytes ! ?m)) [0..<?r] = map (\<lambda>x. KeepLowerBits x k) ?rest" if "?r \<noteq> 0"
    using map_unpack_pack [of k ?rest] lr kr assms(1) that by (simp add: nth_append)
  have "(length input + ?e - 1) div ?e \<le> length ?bytes" using assms(3) by auto
  moreover have "length (unpacked) = length input" by (rule assms(4))
  ultimately have "UnpackIntN k ?bytes unpacked =
      Inr (concat (map (\<lambda>i. map (unpack_element k (?bytes ! i)) [0..<?e]) [0..<?m]) @
           (if ?r \<noteq> 0 then map (unpack_element k (?bytes ! ?m)) [0..<?r] else []))"
    unfolding UnpackIntN_def Let_def by (simp only: not_less if_False linorder_not_le [symmetric] not_not if_True simp_thms)
  also have "concat (map (\<lambda>i. map (unpack_element k (?bytes ! i)) [0..<?e]) [0..<?m]) =
      concat (map (\<lambda>i. map (\<lambda>x. KeepLowerBits x k) (?chunk i)) [0..<?m])"
    using u1 by (intro arg_cong [where f = concat] map_cong) auto
  also have "\<dots> = map (\<lambda>x. KeepLowerBits x k) (concat (map ?chunk [0..<?m]))"
    by (simp add: map_concat o_def)
  also have "concat (map ?chunk [0..<?m]) = take (?m * ?e) input"
    using concat_chunks [of ?m ?e input] sz by linarith
  also have "(if ?r \<noteq> 0 then map (unpack_element k (?bytes ! ?m)) [0..<?r] else []) =
      map (\<lambda>x. KeepLowerBits x k) (drop (?m * ?e) input)"
  proof (cases "?r = 0")
    case True
    then show ?thesis using sz by simp
  next
    case False
    have "?rest = drop (?m * ?e) input" by (rule take_all) (use sz in simp)
    with u2 [OF False] False show ?thesis by (simp only: if_True simp_thms)
  qed
  also have "map (\<lambda>x. KeepLowerBits x k) (take (?m * ?e) input) @ map (\<lambda>x. KeepLowerBits x k) (drop (?m * ?e) input) =
      map (\<lambda>x. KeepLowerBits x k) input"
    by (metis append_take_drop_id map_append)
  finally show ?thesis using pk by simp
qed

theorem PackIntN_roundtrip_witness:
  "bindE (PackIntN 3 [1, 2, 13, 7, 6] [0, 0, 0]) (\<lambda>bytes. UnpackIntN 3 bytes [9, 9, 9, 9, 9]) =
   Inr (map (\<lambda>x. KeepLowerBits x 3) [1, 2, 13, 7, 6])"
  by (rule PackIntN_roundtrip) simp_all

section \<open>Digits\<close>

lemma mixed_radix_loop_digits:
  "\<forall>r\<in>set rs. 0 < r \<Longrightarrow> 0 \<le> n \<Longrightarrow> n < prod_list rs \<Longrightarrow>
   \<exists>qs. mixed_radix_loop (prod_list rs) n rs = Inr qs \<and> in_box rs qs \<and> weigh (rev rs) (rev qs) = n"
proof (induction rs arbitrary: n)
  case (Cons r rs)
  let ?p = "prod_list rs"
  have p: "0 < ?p" "0 < r" using Cons.prems(1) by (auto intro: prod_list_pos)
  have d: "cdiv (r * ?p) r = Inr ?p" using p by (simp add: cdiv_pos)
  have "n mod ?p < ?p" "0 \<le> n mod ?p" using p by simp_all
  then obtain qs where qs: "mixed_radix_loop ?p (n mod ?p) rs = Inr qs" "in_box rs qs" "weigh (rev rs) (rev qs) = n mod ?p"
    using Cons.IH [of "n mod ?p"] Cons.prems(1) by auto
  have q: "0 \<le> n div ?p" "n div ?p < r"
    using Cons.prems p by (simp_all add: pos_imp_zdiv_nonneg_iff div_less_prod mult.commute)
  have "mixed_radix_loop (prod_list (r # rs)) n (r # rs) = Inr (n div ?p # qs)"
    using p d qs(1) Cons.prems(2) by (simp add: cdiv_pos cmod_pos)
  moreover have "weigh (rev (r # rs)) (rev (n div ?p # qs)) = n"
    using qs(2,3) in_box_length [OF qs(2)] by (simp add: weigh_append prod_list.rev)
  ultimately show ?case using q qs by simp
qed simp

text \<open>\<open>ToMixedRadix\<close> writes \<open>n\<close>, reduced to the range of the bounds, most significant digit first.\<close>

lemma ToMixedRadix_digits:
  assumes "\<forall>r\<in>set bounds. 0 < r" "0 \<le> n"
  shows "\<exists>qs. ToMixedRadix n bounds = Inr qs \<and> in_box bounds qs \<and>
    weigh (rev bounds) (rev qs) = n mod prod_list bounds"
proof (cases "bounds = []")
  case False
  have p: "0 < prod_list bounds" using assms(1) by (rule prod_list_pos)
  then show ?thesis
    using mixed_radix_loop_digits [OF assms(1), of "n mod prod_list bounds"] False assms(2)
    by (simp add: ToMixedRadix_def cmod_pos)
qed (simp add: ToMixedRadix_def)

end
