(* ===== verification/HloOpcode.thy ===== *)
theory HloOpcode
  imports Prelude
begin

text \<open>
  \<open>xla/hlo/ir/hlo_opcode.h\<close> and \<open>xla/hlo/ir/hlo_opcode.cc\<close>: the opcodes of the intermediate
  representation. The macro list \<open>HLO_OPCODE_LIST\<close> is the table from which the names, the arities and
  the reverse lookup are generated.
\<close>

text \<open>
  \<open>enum class HloOpcode : uint8_t\<close>: an enumerator is its value, the position in the macro list.
\<close>

datatype HloOpcode = HloOpcode (opcode_value: nat)

abbreviation kAbs :: HloOpcode where "kAbs \<equiv> HloOpcode 0"
abbreviation kAcos :: HloOpcode where "kAcos \<equiv> HloOpcode 1"
abbreviation kAcosh :: HloOpcode where "kAcosh \<equiv> HloOpcode 2"
abbreviation kAdd :: HloOpcode where "kAdd \<equiv> HloOpcode 3"
abbreviation kAddDependency :: HloOpcode where "kAddDependency \<equiv> HloOpcode 4"
abbreviation kAfterAll :: HloOpcode where "kAfterAll \<equiv> HloOpcode 5"
abbreviation kAllGather :: HloOpcode where "kAllGather \<equiv> HloOpcode 6"
abbreviation kAllGatherDone :: HloOpcode where "kAllGatherDone \<equiv> HloOpcode 7"
abbreviation kAllGatherStart :: HloOpcode where "kAllGatherStart \<equiv> HloOpcode 8"
abbreviation kAllReduce :: HloOpcode where "kAllReduce \<equiv> HloOpcode 9"
abbreviation kAllReduceDone :: HloOpcode where "kAllReduceDone \<equiv> HloOpcode 10"
abbreviation kAllReduceStart :: HloOpcode where "kAllReduceStart \<equiv> HloOpcode 11"
abbreviation kAllToAll :: HloOpcode where "kAllToAll \<equiv> HloOpcode 12"
abbreviation kAnd :: HloOpcode where "kAnd \<equiv> HloOpcode 13"
abbreviation kAsin :: HloOpcode where "kAsin \<equiv> HloOpcode 14"
abbreviation kAsinh :: HloOpcode where "kAsinh \<equiv> HloOpcode 15"
abbreviation kAsyncDone :: HloOpcode where "kAsyncDone \<equiv> HloOpcode 16"
abbreviation kAsyncStart :: HloOpcode where "kAsyncStart \<equiv> HloOpcode 17"
abbreviation kAsyncUpdate :: HloOpcode where "kAsyncUpdate \<equiv> HloOpcode 18"
abbreviation kAtan2 :: HloOpcode where "kAtan2 \<equiv> HloOpcode 19"
abbreviation kAtanh :: HloOpcode where "kAtanh \<equiv> HloOpcode 20"
abbreviation kBatchNormGrad :: HloOpcode where "kBatchNormGrad \<equiv> HloOpcode 21"
abbreviation kBatchNormInference :: HloOpcode where "kBatchNormInference \<equiv> HloOpcode 22"
abbreviation kBatchNormTraining :: HloOpcode where "kBatchNormTraining \<equiv> HloOpcode 23"
abbreviation kBitcast :: HloOpcode where "kBitcast \<equiv> HloOpcode 24"
abbreviation kBitcastConvert :: HloOpcode where "kBitcastConvert \<equiv> HloOpcode 25"
abbreviation kBroadcast :: HloOpcode where "kBroadcast \<equiv> HloOpcode 26"
abbreviation kCall :: HloOpcode where "kCall \<equiv> HloOpcode 27"
abbreviation kCbrt :: HloOpcode where "kCbrt \<equiv> HloOpcode 28"
abbreviation kCeil :: HloOpcode where "kCeil \<equiv> HloOpcode 29"
abbreviation kCholesky :: HloOpcode where "kCholesky \<equiv> HloOpcode 30"
abbreviation kClamp :: HloOpcode where "kClamp \<equiv> HloOpcode 31"
abbreviation kClz :: HloOpcode where "kClz \<equiv> HloOpcode 32"
abbreviation kCollectiveBroadcast :: HloOpcode where "kCollectiveBroadcast \<equiv> HloOpcode 33"
abbreviation kCollectivePermute :: HloOpcode where "kCollectivePermute \<equiv> HloOpcode 34"
abbreviation kCollectivePermuteDone :: HloOpcode where "kCollectivePermuteDone \<equiv> HloOpcode 35"
abbreviation kCollectivePermuteStart :: HloOpcode where "kCollectivePermuteStart \<equiv> HloOpcode 36"
abbreviation kCompare :: HloOpcode where "kCompare \<equiv> HloOpcode 37"
abbreviation kComplex :: HloOpcode where "kComplex \<equiv> HloOpcode 38"
abbreviation kConcatenate :: HloOpcode where "kConcatenate \<equiv> HloOpcode 39"
abbreviation kConditional :: HloOpcode where "kConditional \<equiv> HloOpcode 40"
abbreviation kConstant :: HloOpcode where "kConstant \<equiv> HloOpcode 41"
abbreviation kConvert :: HloOpcode where "kConvert \<equiv> HloOpcode 42"
abbreviation kConvolution :: HloOpcode where "kConvolution \<equiv> HloOpcode 43"
abbreviation kCopy :: HloOpcode where "kCopy \<equiv> HloOpcode 44"
abbreviation kCopyDone :: HloOpcode where "kCopyDone \<equiv> HloOpcode 45"
abbreviation kCopyStart :: HloOpcode where "kCopyStart \<equiv> HloOpcode 46"
abbreviation kCos :: HloOpcode where "kCos \<equiv> HloOpcode 47"
abbreviation kCosh :: HloOpcode where "kCosh \<equiv> HloOpcode 48"
abbreviation kCustomCall :: HloOpcode where "kCustomCall \<equiv> HloOpcode 49"
abbreviation kDivide :: HloOpcode where "kDivide \<equiv> HloOpcode 50"
abbreviation kDomain :: HloOpcode where "kDomain \<equiv> HloOpcode 51"
abbreviation kDot :: HloOpcode where "kDot \<equiv> HloOpcode 52"
abbreviation kDynamicReshape :: HloOpcode where "kDynamicReshape \<equiv> HloOpcode 53"
abbreviation kDynamicSlice :: HloOpcode where "kDynamicSlice \<equiv> HloOpcode 54"
abbreviation kDynamicUpdateSlice :: HloOpcode where "kDynamicUpdateSlice \<equiv> HloOpcode 55"
abbreviation kErf :: HloOpcode where "kErf \<equiv> HloOpcode 56"
abbreviation kExp :: HloOpcode where "kExp \<equiv> HloOpcode 57"
abbreviation kExpm1 :: HloOpcode where "kExpm1 \<equiv> HloOpcode 58"
abbreviation kFft :: HloOpcode where "kFft \<equiv> HloOpcode 59"
abbreviation kFloor :: HloOpcode where "kFloor \<equiv> HloOpcode 60"
abbreviation kFusion :: HloOpcode where "kFusion \<equiv> HloOpcode 61"
abbreviation kGather :: HloOpcode where "kGather \<equiv> HloOpcode 62"
abbreviation kGetDimensionSize :: HloOpcode where "kGetDimensionSize \<equiv> HloOpcode 63"
abbreviation kGetTupleElement :: HloOpcode where "kGetTupleElement \<equiv> HloOpcode 64"
abbreviation kImag :: HloOpcode where "kImag \<equiv> HloOpcode 65"
abbreviation kInfeed :: HloOpcode where "kInfeed \<equiv> HloOpcode 66"
abbreviation kIota :: HloOpcode where "kIota \<equiv> HloOpcode 67"
abbreviation kIsFinite :: HloOpcode where "kIsFinite \<equiv> HloOpcode 68"
abbreviation kLog :: HloOpcode where "kLog \<equiv> HloOpcode 69"
abbreviation kLog1p :: HloOpcode where "kLog1p \<equiv> HloOpcode 70"
abbreviation kLogistic :: HloOpcode where "kLogistic \<equiv> HloOpcode 71"
abbreviation kMap :: HloOpcode where "kMap \<equiv> HloOpcode 72"
abbreviation kMaximum :: HloOpcode where "kMaximum \<equiv> HloOpcode 73"
abbreviation kMinimum :: HloOpcode where "kMinimum \<equiv> HloOpcode 74"
abbreviation kMulhi :: HloOpcode where "kMulhi \<equiv> HloOpcode 75"
abbreviation kMultiply :: HloOpcode where "kMultiply \<equiv> HloOpcode 76"
abbreviation kNegate :: HloOpcode where "kNegate \<equiv> HloOpcode 77"
abbreviation kNot :: HloOpcode where "kNot \<equiv> HloOpcode 78"
abbreviation kOptimizationBarrier :: HloOpcode where "kOptimizationBarrier \<equiv> HloOpcode 79"
abbreviation kOr :: HloOpcode where "kOr \<equiv> HloOpcode 80"
abbreviation kOutfeed :: HloOpcode where "kOutfeed \<equiv> HloOpcode 81"
abbreviation kPad :: HloOpcode where "kPad \<equiv> HloOpcode 82"
abbreviation kParameter :: HloOpcode where "kParameter \<equiv> HloOpcode 83"
abbreviation kPartitionId :: HloOpcode where "kPartitionId \<equiv> HloOpcode 84"
abbreviation kPopulationCount :: HloOpcode where "kPopulationCount \<equiv> HloOpcode 85"
abbreviation kPower :: HloOpcode where "kPower \<equiv> HloOpcode 86"
abbreviation kRaggedAllToAll :: HloOpcode where "kRaggedAllToAll \<equiv> HloOpcode 87"
abbreviation kRaggedDot :: HloOpcode where "kRaggedDot \<equiv> HloOpcode 88"
abbreviation kReal :: HloOpcode where "kReal \<equiv> HloOpcode 89"
abbreviation kRecv :: HloOpcode where "kRecv \<equiv> HloOpcode 90"
abbreviation kRecvDone :: HloOpcode where "kRecvDone \<equiv> HloOpcode 91"
abbreviation kReduce :: HloOpcode where "kReduce \<equiv> HloOpcode 92"
abbreviation kReducePrecision :: HloOpcode where "kReducePrecision \<equiv> HloOpcode 93"
abbreviation kReduceScatter :: HloOpcode where "kReduceScatter \<equiv> HloOpcode 94"
abbreviation kReduceWindow :: HloOpcode where "kReduceWindow \<equiv> HloOpcode 95"
abbreviation kRemainder :: HloOpcode where "kRemainder \<equiv> HloOpcode 96"
abbreviation kReplicaId :: HloOpcode where "kReplicaId \<equiv> HloOpcode 97"
abbreviation kReshape :: HloOpcode where "kReshape \<equiv> HloOpcode 98"
abbreviation kReverse :: HloOpcode where "kReverse \<equiv> HloOpcode 99"
abbreviation kRng :: HloOpcode where "kRng \<equiv> HloOpcode 100"
abbreviation kRngBitGenerator :: HloOpcode where "kRngBitGenerator \<equiv> HloOpcode 101"
abbreviation kRngGetAndUpdateState :: HloOpcode where "kRngGetAndUpdateState \<equiv> HloOpcode 102"
abbreviation kRoundNearestAfz :: HloOpcode where "kRoundNearestAfz \<equiv> HloOpcode 103"
abbreviation kRoundNearestEven :: HloOpcode where "kRoundNearestEven \<equiv> HloOpcode 104"
abbreviation kRsqrt :: HloOpcode where "kRsqrt \<equiv> HloOpcode 105"
abbreviation kScaledDot :: HloOpcode where "kScaledDot \<equiv> HloOpcode 106"
abbreviation kScan :: HloOpcode where "kScan \<equiv> HloOpcode 107"
abbreviation kScatter :: HloOpcode where "kScatter \<equiv> HloOpcode 108"
abbreviation kSelect :: HloOpcode where "kSelect \<equiv> HloOpcode 109"
abbreviation kSelectAndScatter :: HloOpcode where "kSelectAndScatter \<equiv> HloOpcode 110"
abbreviation kSend :: HloOpcode where "kSend \<equiv> HloOpcode 111"
abbreviation kSendDone :: HloOpcode where "kSendDone \<equiv> HloOpcode 112"
abbreviation kSetDimensionSize :: HloOpcode where "kSetDimensionSize \<equiv> HloOpcode 113"
abbreviation kShiftLeft :: HloOpcode where "kShiftLeft \<equiv> HloOpcode 114"
abbreviation kShiftRightArithmetic :: HloOpcode where "kShiftRightArithmetic \<equiv> HloOpcode 115"
abbreviation kShiftRightLogical :: HloOpcode where "kShiftRightLogical \<equiv> HloOpcode 116"
abbreviation kSign :: HloOpcode where "kSign \<equiv> HloOpcode 117"
abbreviation kSin :: HloOpcode where "kSin \<equiv> HloOpcode 118"
abbreviation kSinh :: HloOpcode where "kSinh \<equiv> HloOpcode 119"
abbreviation kSlice :: HloOpcode where "kSlice \<equiv> HloOpcode 120"
abbreviation kSort :: HloOpcode where "kSort \<equiv> HloOpcode 121"
abbreviation kSqrt :: HloOpcode where "kSqrt \<equiv> HloOpcode 122"
abbreviation kStochasticConvert :: HloOpcode where "kStochasticConvert \<equiv> HloOpcode 123"
abbreviation kSubtract :: HloOpcode where "kSubtract \<equiv> HloOpcode 124"
abbreviation kTan :: HloOpcode where "kTan \<equiv> HloOpcode 125"
abbreviation kTanh :: HloOpcode where "kTanh \<equiv> HloOpcode 126"
abbreviation kTopK :: HloOpcode where "kTopK \<equiv> HloOpcode 127"
abbreviation kTranspose :: HloOpcode where "kTranspose \<equiv> HloOpcode 128"
abbreviation kTriangularSolve :: HloOpcode where "kTriangularSolve \<equiv> HloOpcode 129"
abbreviation kTuple :: HloOpcode where "kTuple \<equiv> HloOpcode 130"
abbreviation kWhile :: HloOpcode where "kWhile \<equiv> HloOpcode 131"
abbreviation kXor :: HloOpcode where "kXor \<equiv> HloOpcode 132"

definition kHloOpcodeIsVariadic :: int where "kHloOpcodeIsVariadic = - 1"

definition HLO_OPCODE_LIST :: "(HloOpcode \<times> string \<times> int) list" where
  "HLO_OPCODE_LIST =
    [(kAbs, ''abs'', 1), (kAcos, ''acos'', 1), (kAcosh, ''acosh'', 1), (kAdd, ''add'', 2),
     (kAddDependency, ''add-dependency'', 2), (kAfterAll, ''after-all'', kHloOpcodeIsVariadic),
     (kAllGather, ''all-gather'', kHloOpcodeIsVariadic), (kAllGatherDone, ''all-gather-done'', 1),
     (kAllGatherStart, ''all-gather-start'', kHloOpcodeIsVariadic),
     (kAllReduce, ''all-reduce'', kHloOpcodeIsVariadic), (kAllReduceDone, ''all-reduce-done'', 1),
     (kAllReduceStart, ''all-reduce-start'', kHloOpcodeIsVariadic),
     (kAllToAll, ''all-to-all'', kHloOpcodeIsVariadic), (kAnd, ''and'', 2), (kAsin, ''asin'', 1),
     (kAsinh, ''asinh'', 1), (kAsyncDone, ''async-done'', 1),
     (kAsyncStart, ''async-start'', kHloOpcodeIsVariadic), (kAsyncUpdate, ''async-update'', 1),
     (kAtan2, ''atan2'', 2), (kAtanh, ''atanh'', 1), (kBatchNormGrad, ''batch-norm-grad'', 5),
     (kBatchNormInference, ''batch-norm-inference'', 5),
     (kBatchNormTraining, ''batch-norm-training'', 3), (kBitcast, ''bitcast'', 1),
     (kBitcastConvert, ''bitcast-convert'', 1), (kBroadcast, ''broadcast'', 1),
     (kCall, ''call'', kHloOpcodeIsVariadic), (kCbrt, ''cbrt'', 1), (kCeil, ''ceil'', 1),
     (kCholesky, ''cholesky'', 1), (kClamp, ''clamp'', 3), (kClz, ''count-leading-zeros'', 1),
     (kCollectiveBroadcast, ''collective-broadcast'', kHloOpcodeIsVariadic),
     (kCollectivePermute, ''collective-permute'', kHloOpcodeIsVariadic),
     (kCollectivePermuteDone, ''collective-permute-done'', 1),
     (kCollectivePermuteStart, ''collective-permute-start'', kHloOpcodeIsVariadic),
     (kCompare, ''compare'', 2), (kComplex, ''complex'', 2),
     (kConcatenate, ''concatenate'', kHloOpcodeIsVariadic),
     (kConditional, ''conditional'', kHloOpcodeIsVariadic), (kConstant, ''constant'', 0),
     (kConvert, ''convert'', 1), (kConvolution, ''convolution'', 2), (kCopy, ''copy'', 1),
     (kCopyDone, ''copy-done'', 1), (kCopyStart, ''copy-start'', 1), (kCos, ''cosine'', 1),
     (kCosh, ''cosh'', 1), (kCustomCall, ''custom-call'', kHloOpcodeIsVariadic),
     (kDivide, ''divide'', 2), (kDomain, ''domain'', 1), (kDot, ''dot'', 2),
     (kDynamicReshape, ''dynamic-reshape'', kHloOpcodeIsVariadic),
     (kDynamicSlice, ''dynamic-slice'', kHloOpcodeIsVariadic),
     (kDynamicUpdateSlice, ''dynamic-update-slice'', kHloOpcodeIsVariadic), (kErf, ''erf'', 1),
     (kExp, ''exponential'', 1), (kExpm1, ''exponential-minus-one'', 1), (kFft, ''fft'', 1),
     (kFloor, ''floor'', 1), (kFusion, ''fusion'', kHloOpcodeIsVariadic), (kGather, ''gather'', 2),
     (kGetDimensionSize, ''get-dimension-size'', 1), (kGetTupleElement, ''get-tuple-element'', 1),
     (kImag, ''imag'', 1), (kInfeed, ''infeed'', 1), (kIota, ''iota'', 0),
     (kIsFinite, ''is-finite'', 1), (kLog, ''log'', 1), (kLog1p, ''log-plus-one'', 1),
     (kLogistic, ''logistic'', 1), (kMap, ''map'', kHloOpcodeIsVariadic), (kMaximum, ''maximum'', 2),
     (kMinimum, ''minimum'', 2), (kMulhi, ''mulhi'', 2), (kMultiply, ''multiply'', 2),
     (kNegate, ''negate'', 1), (kNot, ''not'', 1), (kOptimizationBarrier, ''opt-barrier'', 1),
     (kOr, ''or'', 2), (kOutfeed, ''outfeed'', 2), (kPad, ''pad'', 2), (kParameter, ''parameter'', 0),
     (kPartitionId, ''partition-id'', 0), (kPopulationCount, ''popcnt'', 1), (kPower, ''power'', 2),
     (kRaggedAllToAll, ''ragged-all-to-all'', 6), (kRaggedDot, ''ragged-dot'', 3), (kReal, ''real'', 1),
     (kRecv, ''recv'', 1), (kRecvDone, ''recv-done'', 1), (kReduce, ''reduce'', kHloOpcodeIsVariadic),
     (kReducePrecision, ''reduce-precision'', 1),
     (kReduceScatter, ''reduce-scatter'', kHloOpcodeIsVariadic),
     (kReduceWindow, ''reduce-window'', kHloOpcodeIsVariadic), (kRemainder, ''remainder'', 2),
     (kReplicaId, ''replica-id'', 0), (kReshape, ''reshape'', 1), (kReverse, ''reverse'', 1),
     (kRng, ''rng'', kHloOpcodeIsVariadic), (kRngBitGenerator, ''rng-bit-generator'', 1),
     (kRngGetAndUpdateState, ''rng-get-and-update-state'', 0),
     (kRoundNearestAfz, ''round-nearest-afz'', 1), (kRoundNearestEven, ''round-nearest-even'', 1),
     (kRsqrt, ''rsqrt'', 1), (kScaledDot, ''scaled-dot'', 4), (kScan, ''scan'', kHloOpcodeIsVariadic),
     (kScatter, ''scatter'', kHloOpcodeIsVariadic), (kSelect, ''select'', 3),
     (kSelectAndScatter, ''select-and-scatter'', 3), (kSend, ''send'', 2),
     (kSendDone, ''send-done'', 1), (kSetDimensionSize, ''set-dimension-size'', 2),
     (kShiftLeft, ''shift-left'', 2), (kShiftRightArithmetic, ''shift-right-arithmetic'', 2),
     (kShiftRightLogical, ''shift-right-logical'', 2), (kSign, ''sign'', 1), (kSin, ''sine'', 1),
     (kSinh, ''sinh'', 1), (kSlice, ''slice'', 1), (kSort, ''sort'', kHloOpcodeIsVariadic),
     (kSqrt, ''sqrt'', 1), (kStochasticConvert, ''stochastic-convert'', 2),
     (kSubtract, ''subtract'', 2), (kTan, ''tan'', 1), (kTanh, ''tanh'', 1), (kTopK, ''topk'', 1),
     (kTranspose, ''transpose'', 1), (kTriangularSolve, ''triangular-solve'', 2),
     (kTuple, ''tuple'', kHloOpcodeIsVariadic), (kWhile, ''while'', 1), (kXor, ''xor'', 2)]"

definition HloOpcodeString :: "HloOpcode \<Rightarrow> string" where
  "HloOpcodeString opcode = fst (the (map_of HLO_OPCODE_LIST opcode))"

text \<open>The table built from the macro list; \<open>find\<close> in the hash map.\<close>

definition StringToHloOpcode :: "string \<Rightarrow> HloOpcode status_or" where
  "StringToHloOpcode opcode_name =
     (case map_of (map (\<lambda>(opcode, name, _). (name, opcode)) HLO_OPCODE_LIST) opcode_name of
        None \<Rightarrow> Inl (InvalidArgument ''Unknown opcode'')
      | Some opcode \<Rightarrow> Inr opcode)"

definition HloOpcodeArity :: "HloOpcode \<Rightarrow> int option" where
  "HloOpcodeArity opcode =
     (let arity = snd (the (map_of HLO_OPCODE_LIST opcode))
      in if arity = kHloOpcodeIsVariadic then None else Some arity)"

definition HloOpcodeIsAsync :: "HloOpcode \<Rightarrow> bool" where
  "HloOpcodeIsAsync opcode \<longleftrightarrow> opcode \<in> {kAsyncStart, kAsyncUpdate, kAsyncDone}"

definition HloOpcodeIsBinaryCommutative :: "HloOpcode \<Rightarrow> bool" where
  "HloOpcodeIsBinaryCommutative opcode \<longleftrightarrow>
     opcode \<in> {kAdd, kMultiply, kMulhi, kMaximum, kMinimum, kAnd, kOr, kXor}"

definition HloOpcodeCount :: nat where
  "HloOpcodeCount = length HLO_OPCODE_LIST"

datatype CallContext = kEmbedded | kControlFlow | kBoth | kNone

fun CallContextToString :: "CallContext \<Rightarrow> string" where
  "CallContextToString kNone = ''kNone''"
| "CallContextToString kControlFlow = ''kControlFlow''"
| "CallContextToString kEmbedded = ''kEmbedded''"
| "CallContextToString kBoth = ''kBoth''"

definition GetInstructionCallContext :: "HloOpcode \<Rightarrow> CallContext" where
  "GetInstructionCallContext opcode =
     (if opcode \<in> {kCall, kConditional, kWhile, kAsyncStart, kAsyncUpdate, kAsyncDone} then kControlFlow
      else if opcode \<in> {kAllReduce, kReduceScatter, kAllReduceStart, kMap, kReduce, kReduceWindow, kScan, kScatter,
        kSelectAndScatter, kSort, kFusion, kCustomCall} then kEmbedded
      else kNone)"

section \<open>Names\<close>

lemma opcodes_in_order: "map fst HLO_OPCODE_LIST = map HloOpcode [0..<HloOpcodeCount]"
  by code_simp

lemma opcode_names_distinct: "distinct (map (fst \<circ> snd) HLO_OPCODE_LIST)"
  by code_simp

lemma HloOpcodeCount_uint8: "HloOpcodeCount < 256"
  by code_simp

text \<open>The reverse lookup finds every opcode under its name.\<close>

lemma StringToHloOpcode_roundtrip:
  assumes "opcode_value opcode < HloOpcodeCount"
  shows "StringToHloOpcode (HloOpcodeString opcode) = Inr opcode"
proof -
  have "opcode \<in> set (map fst HLO_OPCODE_LIST)"
    using assms unfolding opcodes_in_order by (cases opcode) auto
  then obtain name arity where e: "map_of HLO_OPCODE_LIST opcode = Some (name, arity)"
    by (metis list.set_map map_of_eq_None_iff not_None_eq prod.exhaust)
  then have "(name, opcode) \<in> set (map (\<lambda>(opcode, name, _). (name, opcode)) HLO_OPCODE_LIST)"
    by (force dest: map_of_SomeD)
  moreover have "map fst (map (\<lambda>(opcode, name, _). (name, opcode)) HLO_OPCODE_LIST) = map (fst \<circ> snd) HLO_OPCODE_LIST"
    by (simp add: case_prod_unfold comp_def)
  ultimately have "map_of (map (\<lambda>(opcode, name, _). (name, opcode)) HLO_OPCODE_LIST) name = Some opcode"
    using opcode_names_distinct by (metis map_of_eq_Some_iff)
  then show ?thesis using e by (simp add: StringToHloOpcode_def HloOpcodeString_def)
qed

text \<open>Only operations of two operands are called commutative.\<close>

lemma commutative_binary: "HloOpcodeIsBinaryCommutative opcode \<Longrightarrow> HloOpcodeArity opcode = Some 2"
  unfolding HloOpcodeIsBinaryCommutative_def by (elim insertE; simp; code_simp)

end
