(* ===== verification/ShapeInference.thy ===== *)
theory ShapeInference
  imports ShapeUtilDims HloOpcode Util
begin

text \<open>
  \<open>xla/service/shape_inference.cc\<close>, first part: shared helpers, elementwise operations with
  their two broadcasts, conversions, selection and clamping, tuples, map, call and control flow.
  \<open>DCHECK\<close>s and logging are left out. \<open>TF_RET_CHECK\<close> returns an internal error;
  \<open>ShapeUtil::MakeShape\<close> takes the value of a status and stops on an error.
\<close>

section \<open>Helpers\<close>

abbreviation array_of :: "Shape \<Rightarrow> (int list \<times> bool list \<times> Layout option) status_or" where
  "array_of \<equiv> array_state_maybe_underneath_buffer"

definition MakeShape :: "native_limits \<Rightarrow> PrimitiveType \<Rightarrow> int list \<Rightarrow> Shape status_or" where
  "MakeShape L t dims = value_or_die (MakeValidatedShape L t dims)"

definition MakeShape_dynamic :: "native_limits \<Rightarrow> PrimitiveType \<Rightarrow> int list \<Rightarrow> bool list \<Rightarrow> Shape status_or" where
  "MakeShape_dynamic L t dims dyn = value_or_die (MakeValidatedShape_dynamic L t dims dyn)"

definition HigherPrecisionElementType :: "native_limits \<Rightarrow> Shape \<Rightarrow> Shape \<Rightarrow> PrimitiveType status_or" where
  "HigherPrecisionElementType L a b = HigherPrecisionType L (element_type a) (element_type b)"

definition ComplexComponentShape :: "native_limits \<Rightarrow> Shape \<Rightarrow> Shape status_or" where
  "ComplexComponentShape L s =
     (if \<not> ElementIsComplex s then Inl (CheckFailed ''ElementIsComplex(complex_shape)'')
      else bindE (ComplexComponentType (element_type s)) (\<lambda>t. ChangeElementType L t s))"

definition EqualIgnoringElementType :: "Shape \<Rightarrow> Shape \<Rightarrow> bool" where
  "EqualIgnoringElementType lhs rhs = Shape_Equal (Shape_Equal_default\<lparr>ignore_element_type := True\<rparr>) lhs rhs"

definition AppendShapeToTuple :: "Shape \<Rightarrow> Shape \<Rightarrow> Shape status_or" where
  "AppendShapeToTuple s tuple_shape =
     bindE (add_tuple_shapes tuple_shape) (\<lambda>r.
       Inr (Shape (elt_type r) (TupleState (butlast (tuple_shapes r) @ [s]))))"

definition AllUnique :: "int list \<Rightarrow> bool" where
  "AllUnique xs \<longleftrightarrow> card (set xs) = length xs"

definition IsUnboundedDynamicSize :: "int \<Rightarrow> bool" where
  "IsUnboundedDynamicSize sz \<longleftrightarrow> sz = kUnboundedSize"

definition CompatibleDimensionSizes :: "int \<Rightarrow> int \<Rightarrow> bool" where
  "CompatibleDimensionSizes a b \<longleftrightarrow> IsUnboundedDynamicSize a \<or> IsUnboundedDynamicSize b \<or> a = b"

definition ExpectArray :: "Shape \<Rightarrow> unit status_or" where
  "ExpectArray s = (if \<not> IsArrayExcludingBuffer s then Inl (InvalidArgument ''Expected array argument'') else Inr ())"

text \<open>The loops that call \<open>set_dynamic_dimension(i, true)\<close> where another shape is dynamic.\<close>

definition mark_flags :: "Shape \<Rightarrow> (nat \<times> bool) list \<Rightarrow> Shape status_or" where
  "mark_flags s fs = foldE (\<lambda>r (i, b). if b then set_dynamic_dimension r (int i) True else Inr r) s fs"

record DimAndBound =
  db_dimension :: int
  db_bound :: int

text \<open>
  A sum of \<open>int64_t\<close> values. Where the exact value does not fit the behaviour of the C++ code is undefined;
  the model stops there.
\<close>

definition signed64 :: "int \<Rightarrow> int status_or" where
  "signed64 x = (if in_int64 x then Inr x else Inl (CheckFailed ''signed integer overflow''))"

lemma signed64_eq_Inr [simp]: "signed64 x = Inr y \<longleftrightarrow> in_int64 x \<and> y = x"
  by (auto simp: signed64_def)

definition InferConcatenatedDimAndBound :: "int \<Rightarrow> int \<Rightarrow> int \<Rightarrow> int \<Rightarrow> DimAndBound status_or" where
  "InferConcatenatedDimAndBound left_size right_size left_bound right_bound =
     (let static_dims = \<not> IsUnboundedDynamicSize left_size \<and> \<not> IsUnboundedDynamicSize right_size;
          left_static_bound = \<not> IsUnboundedDynamicSize left_bound;
          right_static_bound = \<not> IsUnboundedDynamicSize right_bound;
          leftBoundOrSize = (if left_static_bound then left_bound else left_size);
          rightBoundOrSize = (if right_static_bound then right_bound else right_size)
      in bindE (if static_dims then signed64 (left_size + right_size) else Inr kUnboundedSize) (\<lambda>inferred_size.
         bindE (if (left_static_bound \<or> right_static_bound) \<and> \<not> IsUnboundedDynamicSize leftBoundOrSize \<and>
                  \<not> IsUnboundedDynamicSize rightBoundOrSize
                then signed64 (leftBoundOrSize + rightBoundOrSize) else Inr kUnboundedSize) (\<lambda>inferred_bound.
           Inr \<lparr>db_dimension = inferred_size, db_bound = inferred_bound\<rparr>)))"

definition InferMostSpecificDimAndBound :: "int \<Rightarrow> int \<Rightarrow> int \<Rightarrow> int \<Rightarrow> DimAndBound status_or" where
  "InferMostSpecificDimAndBound left_size right_size left_bound right_bound =
     (let left_static_dim = \<not> IsUnboundedDynamicSize left_size;
          right_static_dim = \<not> IsUnboundedDynamicSize right_size;
          left_static_bound = \<not> IsUnboundedDynamicSize left_bound;
          right_static_bound = \<not> IsUnboundedDynamicSize right_bound
      in if left_static_bound \<and> right_static_bound \<and> left_bound \<noteq> right_bound
         then Inl (InvalidArgument ''Mismatched bound sizes'')
         else
           let inferred_bound = (if left_static_bound then left_bound
                                 else if right_static_bound then right_bound else kUnboundedSize) in
           if left_static_dim \<or> right_static_dim
           then if left_static_dim \<and> right_static_dim \<and> left_size \<noteq> right_size
                then Inl (InvalidArgument ''Mismatched dimension sizes'')
                else let inferred_size = (if left_static_dim then left_size else right_size) in
                     if \<not> IsUnboundedDynamicSize inferred_bound \<and> inferred_size \<noteq> inferred_bound
                     then Inl (InvalidArgument ''Mismatched dimension size and bound'')
                     else Inr \<lparr>db_dimension = inferred_size, db_bound = inferred_bound\<rparr>
           else Inr \<lparr>db_dimension = kUnboundedSize, db_bound = inferred_bound\<rparr>)"

section \<open>Unary operations\<close>

definition InferUnaryOpShape :: "native_limits \<Rightarrow> HloOpcode \<Rightarrow> Shape \<Rightarrow> Shape status_or" where
  "InferUnaryOpShape L opcode s =
     (if opcode \<in> {kCopy, kDomain} then Inr s
      else bindE (ExpectArray s) (\<lambda>_.
        if opcode \<in> {kFloor, kCbrt, kCeil, kErf, kRoundNearestAfz, kRoundNearestEven}
        then if \<not> ElementIsFloating s then Inl (InvalidArgument ''Expected element type in shape to be floating'')
             else Inr s
        else if opcode \<in> {kAsin, kAsinh, kAcos, kAcosh, kAtanh, kCosh, kCos, kSinh, kSin, kExp, kExpm1, kLog, kLog1p,
               kLogistic, kRsqrt, kSqrt, kTan, kTanh}
        then if \<not> ElementIsFloating s \<and> \<not> ElementIsComplex s
             then Inl (InvalidArgument ''Expected element type in shape to be floating or complex'') else Inr s
        else if opcode \<in> {kReal, kImag}
        then if ElementIsComplex s then ComplexComponentShape L s
             else if ElementIsFloating s then Inr s
             else Inl (InvalidArgument ''Expected element type in shape to be floating or complex'')
        else if opcode = kAbs
        then if ElementIsComplex s then bindE (ComplexComponentType (element_type s)) (\<lambda>t. ChangeElementType L t s)
             else if ElementIsSigned s then Inr s
             else Inl (InvalidArgument ''Expected element type in shape to be floating or complex'')
        else if opcode = kClz
        then if \<not> ElementIsIntegral s then Inl (InvalidArgument ''Expected an integral element type in argument to Clz'')
             else Inr s
        else if opcode = kNegate
        then if \<not> ElementIsIntegral s \<and> \<not> ElementIsFloating s \<and> \<not> ElementIsComplex s
             then Inl (InvalidArgument ''Expected element type in shape to be integral, floating or complex'') else Inr s
        else if opcode = kPopulationCount
        then if \<not> ElementIsIntegral s
             then Inl (InvalidArgument ''Expected an integral element type in argument to PopulationCount'') else Inr s
        else if opcode = kSign
        then if \<not> ElementIsSigned s \<and> \<not> ElementIsComplex s
             then Inl (InvalidArgument ''Expected element type in shape to be signed or complex'') else Inr s
        else if opcode = kNot
        then if element_type s \<noteq> PRED \<and> \<not> IsIntegralType (element_type s)
             then Inl (InvalidArgument ''Expected pred or an integral element type in argument to Not'') else Inr s
        else if opcode = kIsFinite
        then if \<not> ElementIsFloating s
             then Inl (InvalidArgument ''Expected element type in shape to be floating point for IsFinite'')
             else ChangeElementType L PRED s
        else Inl (InvalidArgument ''Unknown operation for unary shape inference'')))"

section \<open>Broadcasts of binary operations\<close>

text \<open>One dimension of \<open>InferDegenerateDimensionBroadcastShape\<close>: size and dynamic flag of each side.\<close>

definition degenerate_dim :: "(int \<times> bool) \<times> (int \<times> bool) \<Rightarrow> (int \<times> bool) status_or" where
  "degenerate_dim p =
     (case p of ((l, l_dynamic), (r, r_dynamic)) \<Rightarrow>
      if l = 1 \<or> r = 1 then Inr (if l = 1 then (r, r_dynamic) else (l, l_dynamic))
      else if l = r then Inr (l, l_dynamic \<or> r_dynamic)
      else if IsUnboundedDynamicSize l \<or> IsUnboundedDynamicSize r
      then Inr (if IsUnboundedDynamicSize l then (r, r_dynamic) else (l, l_dynamic))
      else Inl (InvalidArgument ''Binary op with incompatible shapes''))"

definition InferDegenerateDimensionBroadcastShape :: "native_limits \<Rightarrow> Shape \<Rightarrow> Shape \<Rightarrow> Shape status_or" where
  "InferDegenerateDimensionBroadcastShape L lhs rhs =
     bindE (array_of lhs) (\<lambda>(ld, ldy, _).
     bindE (array_of rhs) (\<lambda>(rd, rdy, _).
       if length ld \<noteq> length rd then Inl (InternalError ''lhs.dimensions().size() == rhs.dimensions().size()'')
       else bindE (mapE degenerate_dim (zip (zip ld ldy) (zip rd rdy))) (\<lambda>out.
            bindE (HigherPrecisionElementType L lhs rhs) (\<lambda>t.
              MakeShape_dynamic L t (map fst out) (map snd out)))))"

text \<open>The loop of \<open>InferInDimBroadcastShape\<close> over the dimensions of the smaller shape.\<close>

fun in_dim_loop :: "int list \<times> bool list \<Rightarrow> int list \<times> bool list \<Rightarrow> int list \<Rightarrow> nat list \<Rightarrow> Shape \<Rightarrow> Shape status_or" where
  "in_dim_loop small large bds [] out = Inr out"
| "in_dim_loop small large bds (i # rest) out =
     bindE (at_index bds (int i)) (\<lambda>to_match.
     if to_match < 0 then Inl (InvalidArgument ''Broadcast dimension number cannot be negative.'')
     else if to_match \<ge> int (length (fst large)) then Inl (InvalidArgument ''Broadcast dimension number too large'')
     else
       bindE (at_index (fst small) (int i)) (\<lambda>small_size.
       bindE (at_index (fst large) to_match) (\<lambda>large_size.
       bindE (at_index (snd small) (int i)) (\<lambda>small_dynamic.
       bindE (at_index (snd large) to_match) (\<lambda>large_dynamic.
       if small_size \<noteq> large_size \<and> small_size \<noteq> 1 \<and> large_size \<noteq> 1
       then Inl (InvalidArgument ''Broadcast dimension mismatch'')
       else if small_dynamic \<noteq> large_dynamic \<and>
            \<not> (small_size = large_size \<or> (small_size = 1 \<and> \<not> small_dynamic) \<or> (large_size = 1 \<and> \<not> large_dynamic))
       then Inl (InvalidArgument ''Broadcast dimension dynamism mismatch'')
       else if i > 0 \<and> bds ! (i - 1) \<ge> to_match then Inl (InvalidArgument ''Broadcast dimensions order is wrong'')
       else bindE (set_dimensions out to_match small_size (Some small_dynamic)) (\<lambda>out'.
              in_dim_loop small large bds rest out'))))))"

definition InferInDimBroadcastShape :: "native_limits \<Rightarrow> Shape \<Rightarrow> Shape \<Rightarrow> int list \<Rightarrow> Shape status_or" where
  "InferInDimBroadcastShape L smaller_shape larger_shape broadcast_dimensions =
     bindE (IsScalar smaller_shape) (\<lambda>scalar.
     if broadcast_dimensions = [] \<and> \<not> scalar then Inl (InvalidArgument ''Shapes must be equal rank'')
     else bindE (array_of smaller_shape) (\<lambda>(sd, sdy, _).
       if length broadcast_dimensions \<noteq> length sd
       then Inl (InvalidArgument ''Size of broadcast_dimensions has to match lower-rank operand rank'')
       else bindE (HigherPrecisionElementType L larger_shape smaller_shape) (\<lambda>t.
            bindE (set_element_type larger_shape t) (\<lambda>out.
            bindE (array_of larger_shape) (\<lambda>(ld, ldy, _).
              in_dim_loop (sd, sdy) (ld, ldy) broadcast_dimensions [0..<length sd] out)))))"

definition InferElementwiseBinaryOpShape :: "native_limits \<Rightarrow> HloOpcode \<Rightarrow> Shape \<Rightarrow> Shape \<Rightarrow> int list \<Rightarrow> Shape status_or" where
  "InferElementwiseBinaryOpShape L operation lhs rhs broadcast_dimensions =
     bindE (ExpectArray lhs) (\<lambda>_.
     bindE (ExpectArray rhs) (\<lambda>_.
     if \<not> SameElementTypeIgnoringFpPrecision lhs rhs then Inl (InvalidArgument ''Binary op with different element types'')
     else
       bindE (array_of lhs) (\<lambda>(ld, ldy, _).
       bindE (array_of rhs) (\<lambda>(rd, rdy, _).
       if length ld = length rd \<and> broadcast_dimensions \<noteq> [] \<and> broadcast_dimensions \<noteq> map int [0..<length ld]
       then Inl (InvalidArgument ''Broadcast dimensions field must either be not set or be the identity'')
       else if operation = kAtan2 \<and> \<not> ElementIsFloating lhs \<and> \<not> ElementIsComplex lhs
       then Inl (InvalidArgument ''Expected input element type to be floating or complex'')
       else
         bindE (is_unbounded_dynamic lhs) (\<lambda>lu.
         bindE (is_unbounded_dynamic rhs) (\<lambda>ru.
         if CompatibleIgnoringFpPrecision lhs rhs \<and> \<not> lu \<and> \<not> ru
         then bindE (HigherPrecisionElementType L lhs rhs) (\<lambda>t.
              bindE (ChangeElementType L t lhs) (\<lambda>result.
                mark_flags result (zip [0..<length rd] rdy)))
         else if length ld = length rd then InferDegenerateDimensionBroadcastShape L lhs rhs
         else
           let larger_shape = (if length ld > length rd then lhs else rhs);
               smaller_shape = (if length ld > length rd then rhs else lhs) in
           bindE (InferInDimBroadcastShape L smaller_shape larger_shape broadcast_dimensions) (\<lambda>indim.
             InferDegenerateDimensionBroadcastShape L indim larger_shape)))))))"

definition InferBinaryOpShape :: "native_limits \<Rightarrow> HloOpcode \<Rightarrow> Shape \<Rightarrow> Shape \<Rightarrow> int list \<Rightarrow> Shape status_or" where
  "InferBinaryOpShape L opcode lhs rhs broadcast_dimensions =
     bindE (ExpectArray lhs) (\<lambda>_.
     bindE (ExpectArray rhs) (\<lambda>_.
     let elementwise = InferElementwiseBinaryOpShape L opcode lhs rhs broadcast_dimensions in
     if opcode \<in> {kAdd, kMaximum, kMinimum, kMultiply, kMulhi} then elementwise
     else if opcode \<in> {kSubtract, kAtan2, kPower, kDivide, kRemainder, kShiftLeft, kShiftRightArithmetic, kShiftRightLogical}
     then if element_type lhs = PRED \<or> element_type rhs = PRED
          then Inl (InvalidArgument ''Expected element type in shape to be arithmetic type'') else elementwise
     else if opcode = kComplex
     then if \<not> ElementIsFloating lhs
          then Inl (InvalidArgument ''Expected element type in shape to be floating for complex compose'')
          else bindE elementwise (\<lambda>s.
            if element_type lhs = F32 \<and> element_type rhs = F32 then ChangeElementType L C64 s
            else if element_type lhs = F64 \<and> element_type rhs = F64 then ChangeElementType L C128 s
            else Inl (Unimplemented ''Complex component type is not implemented.''))
     else if opcode \<in> {kAnd, kOr, kXor}
     then if element_type lhs \<noteq> PRED \<and> \<not> IsIntegralType (element_type lhs)
          then Inl (InvalidArgument ''Expected pred or integral type in argument to and/or operation'') else elementwise
     else if opcode = kCompare then bindE elementwise (ChangeElementType L PRED)
     else Inl (Unimplemented ''Binary op shape inference'')))"

text \<open>The loop of \<open>InferScalarBroadcastShape\<close>.\<close>

fun scalar_broadcast_loop :: "Shape option \<Rightarrow> Shape list \<Rightarrow> Shape option status_or" where
  "scalar_broadcast_loop acc [] = Inr acc"
| "scalar_broadcast_loop acc (s # rest) =
     (if \<not> IsArrayExcludingBuffer s then scalar_broadcast_loop acc rest
      else bindE (dimsE s) (\<lambda>ds.
        if ds = [] then scalar_broadcast_loop acc rest
        else let broadcasted = (case acc of None \<Rightarrow> s | Some b \<Rightarrow> b) in
             bindE (SameDimensions broadcasted s) (\<lambda>same.
               if \<not> same then Inl (InternalError ''Unimplemented implicit broadcast.'')
               else scalar_broadcast_loop (Some broadcasted) rest)))"

definition InferScalarBroadcastShape :: "Shape list \<Rightarrow> Shape option status_or" where
  "InferScalarBroadcastShape shapes = scalar_broadcast_loop None shapes"

section \<open>Conversions\<close>

definition InferConvertShape :: "native_limits \<Rightarrow> Shape \<Rightarrow> PrimitiveType \<Rightarrow> Shape status_or" where
  "InferConvertShape L operand_shape new_element_type =
     (if \<not> IsArrayExcludingBuffer operand_shape \<or> \<not> IsArrayType new_element_type
      then Inl (InvalidArgument ''Convert does not allow non-arrays'')
      else ChangeElementType L new_element_type operand_shape)"

definition InferBitcastConvertShape :: "native_limits \<Rightarrow> Shape \<Rightarrow> PrimitiveType \<Rightarrow> Shape status_or" where
  "InferBitcastConvertShape L operand_shape new_element_type =
     (let old_element_type = element_type operand_shape in
      if IsComplexType old_element_type \<noteq> IsComplexType new_element_type
      then Inl (InvalidArgument ''Conversion between complex and real type'')
      else if \<not> IsArrayExcludingBuffer operand_shape \<or> \<not> IsArrayType new_element_type
      then Inl (InvalidArgument ''Cannot convert from or to tuple type'')
      else
        bindE (StorageBitWidth L old_element_type) (\<lambda>input_bitwidth.
        bindE (StorageBitWidth L new_element_type) (\<lambda>output_bitwidth.
        bindE (cmod (max input_bitwidth output_bitwidth) (min input_bitwidth output_bitwidth)) (\<lambda>m.
        if m \<noteq> 0 then Inl (InvalidArgument ''Cannot bitcast types with undivisible bit-widths'')
        else
          bindE (cdiv (max output_bitwidth input_bitwidth) (min output_bitwidth input_bitwidth)) (\<lambda>ratio.
          bindE (set_element_type operand_shape new_element_type) (\<lambda>new_shape.
          if input_bitwidth > output_bitwidth then AppendMinorDimension ratio new_shape
          else if input_bitwidth < output_bitwidth
          then bindE (dimsE operand_shape) (\<lambda>ds.
               if ds = [] then Inl (CheckFailed ''index out of range'')
               else if last ds \<noteq> ratio
               then Inl (InvalidArgument ''Last dimension of input shape is not equal to ratio of bit-widths'')
               else DeleteDimension new_shape (int (length ds) - 1))
          else Inr new_shape))))))"

definition InferStochasticConvertShape :: "native_limits \<Rightarrow> Shape \<Rightarrow> Shape \<Rightarrow> PrimitiveType \<Rightarrow> Shape status_or" where
  "InferStochasticConvertShape L operand_shape random_shape new_element_type =
     bindE (ExpectArray operand_shape) (\<lambda>_.
     bindE (ExpectArray random_shape) (\<lambda>_.
     if \<not> IsUnsignedIntegralType (element_type random_shape)
     then Inl (InvalidArgument ''Random numbers for stochastic convert must be unsigned integers'')
     else if \<not> ElementIsFloating operand_shape
     then Inl (InvalidArgument ''Stochastic convert supports only floating point operand conversion'')
     else bindE (BitWidth L (element_type operand_shape)) (\<lambda>operand_bits.
          bindE (BitWidth L (element_type random_shape)) (\<lambda>random_bits.
          if operand_bits \<noteq> random_bits
          then Inl (InvalidArgument ''The random number is required to have same bits as the operand'')
          else if \<not> EqualIgnoringElementType operand_shape random_shape
          then Inl (InvalidArgument ''Stochastic convert operand shape does not match random tensor shape'')
          else ChangeElementType L new_element_type operand_shape))))"

definition InferReducePrecisionShape :: "Shape \<Rightarrow> int \<Rightarrow> int \<Rightarrow> Shape status_or" where
  "InferReducePrecisionShape operand_shape exponent_bits mantissa_bits =
     (if \<not> ElementIsFloating operand_shape
      then Inl (InvalidArgument ''Expected element type in shape to be floating point for ReducePrecision'')
      else if exponent_bits < 1 then Inl (InvalidArgument ''Expected exponent_bits >= 1'')
      else if mantissa_bits < 0 then Inl (InvalidArgument ''Expected non-negative mantissa_bits'')
      else Inr operand_shape)"

section \<open>Ternary operations\<close>

definition InferClampShape :: "Shape \<Rightarrow> Shape \<Rightarrow> Shape \<Rightarrow> Shape status_or" where
  "InferClampShape lo operand hi =
     bindE (ExpectArray lo) (\<lambda>_.
     bindE (ExpectArray operand) (\<lambda>_.
     bindE (ExpectArray hi) (\<lambda>_.
     if \<not> SameElementTypeIgnoringFpPrecision lo operand \<or> \<not> SameElementTypeIgnoringFpPrecision hi operand \<or>
        \<not> SameElementTypeIgnoringFpPrecision lo hi
     then Inl (InvalidArgument ''Clamp with incompatible element types'')
     else bindE (IsScalar lo) (\<lambda>lo_scalar.
          bindE (IsScalar hi) (\<lambda>hi_scalar.
          if (\<not> lo_scalar \<and> \<not> CompatibleIgnoringFpPrecision lo operand) \<or>
             (\<not> hi_scalar \<and> \<not> CompatibleIgnoringFpPrecision hi operand) \<or>
             (\<not> lo_scalar \<and> \<not> hi_scalar \<and> \<not> CompatibleIgnoringFpPrecision lo hi)
          then Inl (InvalidArgument ''Clamp with incompatible shapes'') else Inr operand)))))"

text \<open>One dimension of the result of a select.\<close>

definition select_dim :: "bool \<Rightarrow> bool list \<Rightarrow> int list \<times> bool list \<Rightarrow> int list \<times> bool list \<Rightarrow> Shape \<Rightarrow> nat \<Rightarrow> Shape status_or" where
  "select_dim scalar_pred pred_dynamic on_true on_false out i =
     bindE (at_index (fst on_true) (int i)) (\<lambda>t.
     bindE (at_index (fst on_false) (int i)) (\<lambda>f.
     bindE (at_index (snd on_true) (int i)) (\<lambda>t_dynamic.
     bindE (at_index (snd on_false) (int i)) (\<lambda>f_dynamic.
     if IsUnboundedDynamicSize t \<or> IsUnboundedDynamicSize f
     then bindE (value_or_die (InferMostSpecificDimAndBound t f t f)) (\<lambda>inferred.
            set_dimensions out (int i) (db_dimension inferred) (Some (t_dynamic \<and> f_dynamic)))
     else bindE (if scalar_pred then Inr False else at_index pred_dynamic (int i)) (\<lambda>p_dynamic.
            set_dynamic_dimension out (int i) (p_dynamic \<or> t_dynamic \<or> f_dynamic))))))"

definition InferSelectShape :: "native_limits \<Rightarrow> Shape \<Rightarrow> Shape \<Rightarrow> Shape \<Rightarrow> Shape status_or" where
  "InferSelectShape L pred on_true on_false =
     bindE (ExpectArray pred) (\<lambda>_.
     bindE (ExpectArray on_true) (\<lambda>_.
     bindE (ExpectArray on_false) (\<lambda>_.
     if \<not> CompatibleIgnoringFpPrecision on_true on_false
     then Inl (InvalidArgument ''Operands to select must be the same shape'')
     else if element_type pred \<noteq> PRED
     then Inl (InvalidArgument ''Select pred operand must have PRED element type'')
     else bindE (IsScalar pred) (\<lambda>scalar_pred.
       if (\<not> scalar_pred \<and> (\<not> CompatibleIgnoringElementType pred on_true \<or> \<not> CompatibleIgnoringElementType pred on_false)) \<or>
          \<not> CompatibleIgnoringFpPrecision on_true on_false
       then Inl (InvalidArgument ''Operands to select and predicate must be the same shape'')
       else
         let full_rank_shape = (if scalar_pred then on_true else pred) in
         bindE (HigherPrecisionElementType L on_true on_false) (\<lambda>ty.
         bindE (ChangeElementType L ty full_rank_shape) (\<lambda>result.
         bindE (array_of full_rank_shape) (\<lambda>(fd, _, _).
         bindE (array_of pred) (\<lambda>(_, pdy, _).
         bindE (array_of on_true) (\<lambda>(td, tdy, _).
         bindE (array_of on_false) (\<lambda>(od, ody, _).
         bindE (foldE (select_dim scalar_pred pdy (td, tdy) (od, ody)) result [0..<length fd]) (\<lambda>r.
         bindE (has_layout r) (\<lambda>h.
         if h
         then bindE (layoutE on_true) (\<lambda>tl.
              bindE (layoutE r) (\<lambda>rl. set_layout r (set_element_size_in_bits (element_size_in_bits tl) rl)))
         else Inr r))))))))))))"

definition InferTernaryOpShape :: "native_limits \<Rightarrow> HloOpcode \<Rightarrow> Shape \<Rightarrow> Shape \<Rightarrow> Shape \<Rightarrow> Shape status_or" where
  "InferTernaryOpShape L opcode lhs rhs ehs =
     (if opcode = kClamp then InferClampShape lhs rhs ehs
      else if opcode = kSelect then InferSelectShape L lhs rhs ehs
      else Inl (InvalidArgument ''Unknown operation''))"

section \<open>Tuples, calls and control flow\<close>

definition InferVariadicOpShape :: "native_limits \<Rightarrow> HloOpcode \<Rightarrow> Shape list \<Rightarrow> Shape status_or" where
  "InferVariadicOpShape L opcode operand_shapes =
     (if opcode = kTuple
      then bindE (MakeTupleShape L []) (\<lambda>result. foldE (\<lambda>r s. AppendShapeToTuple s r) result operand_shapes)
      else if opcode = kSort
      then if length operand_shapes = 1 then Inr (operand_shapes ! 0)
           else bindE (for_each (\<lambda>s. bindE (SameDimensions (operand_shapes ! 0) s) (\<lambda>same.
                  if \<not> same then Inl (InvalidArgument ''Sort keys and values dimensions must match.'') else Inr ()))
                (tl operand_shapes)) (\<lambda>_. MakeTupleShape L operand_shapes)
      else Inl (InvalidArgument ''Unknown operation''))"

definition InferGetTupleElementShape :: "Shape \<Rightarrow> int \<Rightarrow> Shape status_or" where
  "InferGetTupleElementShape arg index =
     (if \<not> IsTuple arg then Inl (InvalidArgument ''attempting to index into non-tuple'')
      else if index < 0 \<or> index \<ge> int (length (tuple_shapes arg))
      then Inl (InvalidArgument ''attempt to index out of tuple bounds'')
      else Inr (tuple_shapes arg ! nat index))"

definition InferWhileShape :: "native_limits \<Rightarrow> ProgramShape \<Rightarrow> ProgramShape \<Rightarrow> Shape \<Rightarrow> Shape status_or" where
  "InferWhileShape L condition body init =
     (if length (parameters condition) \<noteq> 1 then Inl (InvalidArgument ''Condition must take 1 arguments'')
      else if length (parameters body) \<noteq> 1 then Inl (InvalidArgument ''Body must take 1 arguments'')
      else bindE (MakeShape L PRED []) (\<lambda>boolean.
        if \<not> Compatible (result condition) boolean then Inl (InvalidArgument ''Condition must return a boolean'')
        else if \<not> Compatible (result body) (parameters condition ! 0) \<or>
                \<not> Compatible (result body) (parameters body ! 0) \<or> \<not> Compatible (result body) init
        then Inl (InvalidArgument ''The parameter of condition and body, the result of the body, and init must all have the same shape'')
        else Inr init))"

text \<open>
  \<open>ForEachMutableSubshape\<close> of \<open>InferConditionalShape\<close>: an array of the result becomes dynamic where the
  array at the same path of any branch result is.
\<close>

definition mark_dynamic :: "Shape \<Rightarrow> Shape \<Rightarrow> Shape status_or" where
  "mark_dynamic branch_subshape s =
     bindE (array_of branch_subshape) (\<lambda>(ds, dy, _).
       mark_flags s (zip [0..<length ds] dy))"

fun conditional_result :: "Shape list \<Rightarrow> int list \<Rightarrow> Shape \<Rightarrow> Shape status_or" where
  "conditional_result branches path (Shape t st) =
     (if IsArrayType t
      then foldE (\<lambda>r b. bindE (GetSubshape b path) (\<lambda>sub. mark_dynamic sub r)) (Shape t st) branches
      else case st of
             TupleState ss \<Rightarrow>
               bindE (mapE (\<lambda>(s, i). conditional_result branches (path @ [i]) s) (zip ss (map int [0..<length ss])))
                 (\<lambda>ss'. Inr (Shape t (TupleState ss')))
           | _ \<Rightarrow> Inr (Shape t st))"

definition check_branch :: "ProgramShape list \<Rightarrow> ProgramShape \<times> Shape \<Rightarrow> unit status_or" where
  "check_branch branch_computations p =
     (case p of (computation, operand) \<Rightarrow>
      if length (parameters computation) \<noteq> 1 then Inl (InvalidArgument ''branch computation must take 1 argument'')
      else if \<not> Compatible (parameters computation ! 0) operand
      then Inl (InvalidArgument ''branch operand must match the shape of the only parameter of branch computation'')
      else if \<not> Compatible (result (branch_computations ! 0)) (result computation)
      then Inl (InvalidArgument ''the result of branch 0 computation and branch computation must have the same shape'')
      else Inr ())"

definition InferConditionalShape :: "native_limits \<Rightarrow> Shape \<Rightarrow> ProgramShape list \<Rightarrow> Shape list \<Rightarrow> Shape status_or" where
  "InferConditionalShape L branch_index branch_computations branch_operands =
     bindE (MakeShape L PRED []) (\<lambda>boolean.
     bindE (MakeShape L S32 []) (\<lambda>integer.
     if \<not> Compatible branch_index boolean \<and> \<not> Compatible branch_index integer
     then Inl (InvalidArgument ''branch_index must be bool or int32_t'')
     else if element_type branch_index = PRED \<and> 2 \<noteq> length branch_computations
     then Inl (InternalError ''2 == branch_computations.size()'')
     else if element_type branch_index \<noteq> PRED \<and> branch_computations = []
     then Inl (InternalError ''!branch_computations.empty()'')
     else if length branch_computations \<noteq> length branch_operands
     then Inl (InternalError ''branch_computations.size() == branch_operands.size()'')
     else bindE (for_each (check_branch branch_computations) (zip branch_computations branch_operands)) (\<lambda>_.
            conditional_result (map result branch_computations) [] (result (branch_computations ! 0)))))"

definition InferCallShape :: "Shape list \<Rightarrow> ProgramShape \<Rightarrow> Shape status_or" where
  "InferCallShape arg_shapes to_apply =
     (if length arg_shapes \<noteq> length (parameters to_apply)
      then Inl (InvalidArgument ''Call applied function arity must match number of arguments'')
      else bindE (for_each (\<lambda>(arg_shape, param_shape).
             if \<not> Compatible arg_shape param_shape then Inl (InvalidArgument ''Call parameter must match argument'')
             else Inr ()) (zip arg_shapes (parameters to_apply))) (\<lambda>_. Inr (result to_apply)))"

text \<open>The loop of \<open>InferMapShape\<close> that settles the shape of the arguments.\<close>

fun map_arg_loop :: "Shape \<Rightarrow> Shape list \<Rightarrow> Shape status_or" where
  "map_arg_loop arg_shape [] = Inr arg_shape"
| "map_arg_loop arg_shape (s # rest) =
     bindE (ExpectArray s) (\<lambda>_.
     if CompatibleIgnoringElementType s arg_shape then map_arg_loop arg_shape rest
     else bindE (IsScalar s) (\<lambda>s_scalar.
          bindE (IsScalar arg_shape) (\<lambda>arg_scalar.
          if SameElementTypeIgnoringFpPrecision s arg_shape \<and> s_scalar then map_arg_loop arg_shape rest
          else if SameElementTypeIgnoringFpPrecision s arg_shape \<and> arg_scalar then map_arg_loop s rest
          else Inl (InvalidArgument ''Map operation requires all operands to have the same shape''))))"

definition InferMapShape :: "native_limits \<Rightarrow> Shape list \<Rightarrow> ProgramShape \<Rightarrow> int list \<Rightarrow> Shape status_or" where
  "InferMapShape L arg_shapes to_apply map_dimensions =
     (if arg_shapes = [] then Inl (InvalidArgument ''Map expects at least one argument.'')
      else bindE (map_arg_loop (arg_shapes ! 0) (tl arg_shapes)) (\<lambda>arg_shape.
        bindE (array_of arg_shape) (\<lambda>(ds, dy, _).
        if length map_dimensions \<noteq> length ds
        then Inl (InvalidArgument ''Map applied to a subset of dimensions currently not supported'')
        else if map_dimensions \<noteq> map int [0..<length map_dimensions]
        then Inl (InvalidArgument ''Map requires monotonically increasing dimension numbers'')
        else if length arg_shapes \<noteq> length (parameters to_apply)
        then Inl (InvalidArgument ''Map applied function arity must match number of arguments'')
        else bindE (IsScalar (result to_apply)) (\<lambda>out_scalar.
          if \<not> out_scalar then Inl (InvalidArgument ''Mapped computation result has to be a scalar'')
          else bindE (for_each (\<lambda>(param, arg). bindE (IsScalar param) (\<lambda>p_scalar.
                 if \<not> p_scalar then Inl (InvalidArgument ''Mapped computation parameter has to be a scalar'')
                 else if \<not> SameElementTypeIgnoringFpPrecision param arg
                 then Inl (InvalidArgument ''Mapped computation parameter type has to match argument element type'')
                 else Inr ())) (zip (parameters to_apply) arg_shapes)) (\<lambda>_.
               MakeShape_dynamic L (element_type (result to_apply)) ds dy)))))"

section \<open>Shapes made from sizes\<close>

lemma make_shape_loop_state:
  "make_shape_loop n i p b (Shape t (ArrayState ds dy (Some (simple_layout m)))) dims = Inr (b', s') \<Longrightarrow>
   length ds = length dy \<Longrightarrow>
   s' = Shape t (ArrayState (ds @ map fst dims) (dy @ map snd dims)
     (Some (simple_layout (m @ map (\<lambda>k. n - 1 - (i + int k)) [0..<length dims])))) \<and>
   list_all2 IsValidDimensionSize (map fst dims) (map snd dims)"
proof (induction dims arbitrary: ds dy p i m b)
  case (Cons x dims)
  obtain d f where x: "x = (d, f)" by (cases x)
  obtain p' bad where mul: "(if d \<noteq> kUnboundedSize then OverflowSafeMultiply_int p d else (p, False)) = (p', bad)"
    by (cases "if d \<noteq> kUnboundedSize then OverflowSafeMultiply_int p d else (p, False)")
  have v: "IsValidDimensionSize d f" using Cons.prems(1) x by (auto split: if_splits)
  have up: "map (\<lambda>k. n - 1 - (i + int k)) [0..<Suc (length dims)] =
      (n - 1 - i) # map (\<lambda>k. n - 1 - (i + 1 + int k)) [0..<length dims]"
    by (simp add: upt_conv_Cons map_Suc_upt [symmetric] del: upt_Suc)
  have "make_shape_loop n (i + 1) p' (b \<or> bad)
      (Shape t (ArrayState (ds @ [d]) (dy @ [f]) (Some (simple_layout (m @ [n - 1 - i]))))) dims = Inr (b', s')"
    using Cons.prems x v mul by (simp add: add_dimensions_array push_minor_to_major_array)
  from Cons.IH [OF this] Cons.prems(2) x v up show ?case by auto
qed simp

lemma MakeValidatedShape_dynamic_array:
  assumes "MakeValidatedShape_dynamic L t dims dyn = Inr s"
  shows "IsArrayType t" "list_all2 IsValidDimensionSize dims dyn"
    "s = Shape t (ArrayState dims dyn (Some (simple_layout (SetDefaultLayoutToContainer (length dims)))))"
proof -
  have len: "length dyn = length dims" using assms by (auto simp: MakeValidatedShape_dynamic_def split: if_splits)
  show t: "IsArrayType t"
  proof (rule ccontr)
    assume "\<not> IsArrayType t"
    then show False using assms
      by (cases t) (auto simp: MakeValidatedShape_dynamic_def set_element_type_def default_state_def default_shape_def
          set_layout_def array_state_maybe_underneath_buffer_def CheckStateIsEmpty_def Let_def bindE_eq_Inr
          primitive_class_defs split: if_splits)
  qed
  then obtain w b where "make_shape_loop (int (length dims)) 0 w False (Shape t (ArrayState [] [] (Some (simple_layout []))))
      (zip dims dyn) = Inr (b, s)"
    using assms len
    by (auto simp: MakeValidatedShape_dynamic_def set_element_type_default bindE_eq_Inr set_layout_def
        array_state_maybe_underneath_buffer_def put_array_state_def split: if_splits)
  from make_shape_loop_state [OF this] len
  show "s = Shape t (ArrayState dims dyn (Some (simple_layout (SetDefaultLayoutToContainer (length dims)))))"
    and "list_all2 IsValidDimensionSize dims dyn"
    by (auto simp: SetDefaultLayoutToContainer_def diff_diff_eq)
qed

lemma value_or_die_Inr: "value_or_die m = Inr x \<longleftrightarrow> m = Inr x"
  by (cases m) (auto simp: value_or_die_def)

lemma MakeShape_dynamic_array:
  assumes "MakeShape_dynamic L t dims dyn = Inr s"
  shows "shape_inv s" "IsArrayExcludingBuffer s" "array_of s = Inr (dims, dyn, layout_of s)" "element_type s = t"
    "ordered_array s"
proof -
  note r = MakeValidatedShape_dynamic_array [OF assms [unfolded MakeShape_dynamic_def value_or_die_Inr]]
  let ?l = "simple_layout (SetDefaultLayoutToContainer (length dims))"
  have a: "array_of s = Inr (dims, dyn, Some ?l)" using r(3) by (simp add: array_state_maybe_underneath_buffer_def)
  show "shape_inv s" "IsArrayExcludingBuffer s" "element_type s = t" using r by (simp_all add: shape_class_defs)
  show "array_of s = Inr (dims, dyn, layout_of s)" using a by (simp add: layout_of_def)
  have "layout_ok ?l dims" by (rule layout_ok_default)
  then show "ordered_array s" using a by (auto simp: ordered_array_def layout_ok_def)
qed

section \<open>Elementwise operations are well typed\<close>

lemma array_shape_cases:
  assumes "shape_inv s" "IsArrayExcludingBuffer s"
  obtains t ds dy l where "s = Shape t (ArrayState ds dy l)" "IsArrayType t" "list_all2 IsValidDimensionSize ds dy"
    "length dy = length ds"
proof (cases s)
  case (Shape t st)
  with assms show thesis using that by (cases st) (auto simp: shape_class_defs list_all2_lengthD)
qed

lemma array_of_simps [simp]:
  "array_of (Shape t (ArrayState ds dy l)) = Inr (ds, dy, l)"
  by (simp add: array_state_maybe_underneath_buffer_def)

lemma ChangeElementType_array:
  assumes "IsArrayType t" "IsArrayType t0" "ChangeElementType L t (Shape t0 (ArrayState ds dy l)) = Inr r"
  obtains l' where "r = Shape t (ArrayState ds dy l')"
proof -
  have "t0 \<noteq> TUPLE" "default_state t = ArrayState [] [] None"
    using assms(1,2) special_not_array by (auto simp: default_state_def)
  then show thesis using assms(3) that
    by (auto simp: set_element_type_def Let_def bindE_eq_Inr set_layout_def put_array_state_def split: if_splits)
qed

lemma HigherPrecisionElementType_Inr:
  "HigherPrecisionElementType L a b = Inr t \<Longrightarrow> t = element_type a \<or> t = element_type b"
  by (auto simp: HigherPrecisionElementType_def HigherPrecisionType_def bindE_eq_Inr split: if_splits)

lemma set_dynamic_array:
  assumes "list_all2 IsValidDimensionSize ds dy" "i < length ds"
  shows "set_dynamic_dimension (Shape t (ArrayState ds dy l)) (int i) True = Inr (Shape t (ArrayState ds (dy[i := True]) l))"
  using assms list_all2_lengthD [OF assms(1)] list_all2_nthD [OF assms(1,2)]
  by (auto simp: set_dynamic_dimension_def at_index_def CheckDimensionSize_def IsValidDimensionSize_def
      put_array_state_def)

lemma valid_more_dynamic:
  "list_all2 IsValidDimensionSize ds dy \<Longrightarrow> list_all2 IsValidDimensionSize ds (dy[i := True])"
  unfolding list_all2_conv_all_nth IsValidDimensionSize_def
  by (metis length_list_update nth_list_update_eq nth_list_update_neq)

lemma mark_flags_from:
  "list_all2 IsValidDimensionSize ds dy \<Longrightarrow> k + length fs = length ds \<Longrightarrow>
   mark_flags (Shape t (ArrayState ds dy l)) (zip [k..<length ds] fs) =
     Inr (Shape t (ArrayState ds (take k dy @ map2 (\<or>) (drop k dy) fs) l))"
proof (induction fs arbitrary: k dy)
  case Nil
  then have "length dy = k" by (simp add: list_all2_lengthD)
  then show ?case by (simp add: mark_flags_def)
next
  case (Cons f fs)
  let ?dy = "if f then dy[k := True] else dy"
  have len: "length dy = length ds" "k < length ds" using Cons.prems by (simp_all add: list_all2_lengthD)
  have v: "list_all2 IsValidDimensionSize ds ?dy" using Cons.prems(1) valid_more_dynamic by simp
  have up: "[k..<length ds] = k # [Suc k..<length ds]" using len by (simp add: upt_conv_Cons)
  have e: "take (Suc k) ?dy @ map2 (\<or>) (drop (Suc k) ?dy) fs = take k dy @ map2 (\<or>) (drop k dy) (f # fs)"
    using len by (simp add: take_Suc_conv_app_nth Cons_nth_drop_Suc [symmetric])
  have "mark_flags (Shape t (ArrayState ds dy l)) (zip [k..<length ds] (f # fs)) =
      mark_flags (Shape t (ArrayState ds ?dy l)) (zip [Suc k..<length ds] fs)"
    using set_dynamic_array [OF Cons.prems(1) len(2)] by (simp add: mark_flags_def up)
  also have "\<dots> = Inr (Shape t (ArrayState ds (take (Suc k) ?dy @ map2 (\<or>) (drop (Suc k) ?dy) fs) l))"
    by (rule Cons.IH [OF v]) (use Cons.prems in simp)
  finally show ?case by (simp only: e)
qed

lemma mark_flags_array:
  assumes "list_all2 IsValidDimensionSize ds dy" "length fs = length ds"
  shows "mark_flags (Shape t (ArrayState ds dy l)) (zip [0..<length ds] fs) = Inr (Shape t (ArrayState ds (map2 (\<or>) dy fs) l))"
  using mark_flags_from [OF assms(1), of 0 fs] assms(2) by simp

lemma valid_or_flags:
  "list_all2 IsValidDimensionSize ds dy \<Longrightarrow> length fs = length ds \<Longrightarrow> list_all2 IsValidDimensionSize ds (map2 (\<or>) dy fs)"
  by (auto simp: list_all2_conv_all_nth IsValidDimensionSize_def)

text \<open>A size of an operand that may be broadcast to the size \<open>d\<close> of the result.\<close>

definition broadcasts_to :: "int \<Rightarrow> int \<Rightarrow> bool" where
  "broadcasts_to x d \<longleftrightarrow> x = d \<or> x = 1 \<or> x = kUnboundedSize"

lemma degenerate_dim_broadcasts:
  "degenerate_dim ((l, lf), (r, rf)) = Inr (d, f) \<Longrightarrow> broadcasts_to l d \<and> broadcasts_to r d"
  by (auto simp: degenerate_dim_def broadcasts_to_def IsUnboundedDynamicSize_def split: if_splits)

lemma degenerate_broadcast_result:
  assumes "array_of lhs = Inr (ld, ldy, ll)" "array_of rhs = Inr (rd, rdy, rl)" "length ldy = length ld" "length rdy = length rd"
    "InferDegenerateDimensionBroadcastShape L lhs rhs = Inr s"
  shows "shape_inv s" "IsArrayExcludingBuffer s" "length (dimensions s) = length ld" "length rd = length ld"
    "element_type s = element_type lhs \<or> element_type s = element_type rhs"
    "i < length ld \<Longrightarrow> degenerate_dim ((ld ! i, ldy ! i), (rd ! i, rdy ! i)) = Inr (dimensions s ! i, dynamic_dimensions s ! i)"
proof -
  obtain out t where o: "length ld = length rd" "mapE degenerate_dim (zip (zip ld ldy) (zip rd rdy)) = Inr out"
    "HigherPrecisionElementType L lhs rhs = Inr t" "MakeShape_dynamic L t (map fst out) (map snd out) = Inr s"
    using assms by (auto simp: InferDegenerateDimensionBroadcastShape_def bindE_eq_Inr split: if_splits)
  note m = MakeShape_dynamic_array [OF o(4)]
  have all: "list_all2 (\<lambda>x y. degenerate_dim x = Inr y) (zip (zip ld ldy) (zip rd rdy)) out"
    using o(2) by (simp add: mapE_eq_Inr)
  then have len: "length out = length ld" using o(1) assms(3,4) by (simp add: list_all2_conv_all_nth)
  have dims: "dimensions s = map fst out" "dynamic_dimensions s = map snd out"
    using m(3) by (simp_all add: dimensions_def dynamic_dimensions_def)
  show "shape_inv s" "IsArrayExcludingBuffer s" "length (dimensions s) = length ld" "length rd = length ld"
    using m dims len o(1) by simp_all
  show "element_type s = element_type lhs \<or> element_type s = element_type rhs"
    using m(4) HigherPrecisionElementType_Inr [OF o(3)] by simp
  assume "i < length ld"
  with list_all2_nthD [OF all, of i] len o(1) assms(3,4)
  show "degenerate_dim ((ld ! i, ldy ! i), (rd ! i, rdy ! i)) = Inr (dimensions s ! i, dynamic_dimensions s ! i)"
    by (simp add: dims)
qed

lemma in_dim_loop_step:
  assumes "in_dim_loop (sd, sdy) (ld, ldy) bds (i # rest) (Shape t (ArrayState od ody l)) = Inr out"
    "length od = length ld" "length ody = length ld"
  shows "i < length bds" "0 \<le> bds ! i" "nat (bds ! i) < length ld" "i < length sd" "i > 0 \<Longrightarrow> bds ! (i - 1) < bds ! i"
    "in_dim_loop (sd, sdy) (ld, ldy) bds rest
       (Shape t (ArrayState (od[nat (bds ! i) := sd ! i]) (ody[nat (bds ! i) := sdy ! i]) l)) = Inr out"
  using assms
  by (auto simp: bindE_eq_Inr at_index_Inr set_dimensions_def put_array_state_def split: if_splits)

lemma in_dim_loop_order:
  "in_dim_loop (sd, sdy) (ld, ldy) bds is (Shape t (ArrayState od ody l)) = Inr out \<Longrightarrow>
   length od = length ld \<Longrightarrow> length ody = length ld \<Longrightarrow>
   \<forall>i\<in>set is. i < length bds \<and> 0 \<le> bds ! i \<and> nat (bds ! i) < length ld \<and> (0 < i \<longrightarrow> bds ! (i - 1) < bds ! i)"
proof (induction "is" arbitrary: od ody)
  case (Cons i rest)
  note s = in_dim_loop_step [OF Cons.prems]
  have "\<forall>i\<in>set rest. i < length bds \<and> 0 \<le> bds ! i \<and> nat (bds ! i) < length ld \<and> (0 < i \<longrightarrow> bds ! (i - 1) < bds ! i)"
    by (rule Cons.IH [OF s(6)]) (use Cons.prems in auto)
  with s(1-3,5) show ?case by auto
qed simp

lemma in_dim_loop_result:
  "in_dim_loop (sd, sdy) (ld, ldy) bds is (Shape t (ArrayState od ody l)) = Inr out \<Longrightarrow>
   length od = length ld \<Longrightarrow> length ody = length ld \<Longrightarrow> inj_on (\<lambda>i. nat (bds ! i)) (set is) \<Longrightarrow> distinct is \<Longrightarrow>
   \<exists>od' ody'. out = Shape t (ArrayState od' ody' l) \<and> length od' = length ld \<and> length ody' = length ld \<and>
     (\<forall>i\<in>set is. od' ! nat (bds ! i) = sd ! i) \<and> (\<forall>j. j \<notin> (\<lambda>i. nat (bds ! i)) ` set is \<longrightarrow> od' ! j = od ! j)"
proof (induction "is" arbitrary: od ody)
  case (Cons i rest)
  note s = in_dim_loop_step [OF Cons.prems(1-3)]
  have new: "nat (bds ! i) \<notin> (\<lambda>i. nat (bds ! i)) ` set rest" using Cons.prems(4,5) by (auto simp: inj_on_def)
  have "\<exists>od' ody'. out = Shape t (ArrayState od' ody' l) \<and> length od' = length ld \<and> length ody' = length ld \<and>
     (\<forall>i\<in>set rest. od' ! nat (bds ! i) = sd ! i) \<and>
     (\<forall>j. j \<notin> (\<lambda>i. nat (bds ! i)) ` set rest \<longrightarrow> od' ! j = od[nat (bds ! i) := sd ! i] ! j)"
    by (rule Cons.IH [OF s(6)]) (use Cons.prems in \<open>auto simp: inj_on_def\<close>)
  then obtain od' ody' where o: "out = Shape t (ArrayState od' ody' l)" "length od' = length ld" "length ody' = length ld"
    "\<forall>i\<in>set rest. od' ! nat (bds ! i) = sd ! i"
    "\<forall>j. j \<notin> (\<lambda>i. nat (bds ! i)) ` set rest \<longrightarrow> od' ! j = od[nat (bds ! i) := sd ! i] ! j" by blast
  have "od' ! nat (bds ! i) = sd ! i" using o(5) new s(3) Cons.prems(2) by simp
  moreover have "od' ! j = od ! j" if "j \<notin> (\<lambda>i. nat (bds ! i)) ` set (i # rest)" for j
    using o(5) that by auto
  ultimately show ?case using o by (intro exI [of _ od'] exI [of _ ody']) auto
qed auto

lemma chain_less:
  fixes f :: "nat \<Rightarrow> int"
  assumes "\<And>i. a < i \<Longrightarrow> i \<le> b \<Longrightarrow> f (i - 1) < f i" "a < b"
  shows "f a < f b"
  using assms
proof (induction b)
  case (Suc b)
  have step: "f b < f (Suc b)" using Suc.prems(1) [of "Suc b"] Suc.prems(2) by simp
  show ?case
  proof (cases "a = b")
    case False
    then have "f a < f b" using Suc.IH Suc.prems by simp
    with step show ?thesis by simp
  qed (use step in simp)
qed simp

lemma InferInDimBroadcastShape_result:
  assumes small: "small = Shape ts (ArrayState sd sdy sl)" "IsArrayType ts"
    and large: "large = Shape tg (ArrayState ld ldy ll)" "IsArrayType tg" "length ldy = length ld"
    and r: "InferInDimBroadcastShape L small large bds = Inr out"
  obtains t od ody where "out = Shape t (ArrayState od ody ll)" "t = ts \<or> t = tg" "length od = length ld" "length ody = length ld"
    "length bds = length sd" "\<forall>i<length sd. 0 \<le> bds ! i \<and> nat (bds ! i) < length ld \<and> od ! nat (bds ! i) = sd ! i"
proof -
  obtain t x where x: "length bds = length sd" "HigherPrecisionElementType L large small = Inr t"
    "set_element_type large t = Inr x" "in_dim_loop (sd, sdy) (ld, ldy) bds [0..<length sd] x = Inr out"
    using r small large by (auto simp: InferInDimBroadcastShape_def bindE_eq_Inr split: if_splits)
  have t: "t = ts \<or> t = tg" using HigherPrecisionElementType_Inr [OF x(2)] small large by auto
  then have "IsArrayType t" using small large by auto
  then have xs: "x = Shape t (ArrayState ld ldy ll)"
    using x(3) large special_not_array by (auto simp: set_element_type_def default_state_def Let_def split: if_splits)
  note l = x(4) [unfolded xs]
  note ord = in_dim_loop_order [OF l refl large(3)]
  have less: "bds ! i < bds ! j" if "i < j" "j < length sd" for i j
    by (rule chain_less [OF _ that(1)]) (use ord that in auto)
  have "inj_on (\<lambda>i. nat (bds ! i)) (set [0..<length sd])"
  proof (rule linorder_inj_onI)
    fix i j assume ij: "i < j" "i \<in> set [0..<length sd]" "j \<in> set [0..<length sd]"
    then have "0 \<le> bds ! i" "bds ! i < bds ! j" using less [of i j] ord by auto
    then show "nat (bds ! i) \<noteq> nat (bds ! j)" by simp
  qed auto
  from in_dim_loop_result [OF l refl large(3) this] obtain od ody where
    "out = Shape t (ArrayState od ody ll)" "length od = length ld" "length ody = length ld"
    "\<forall>i<length sd. od ! nat (bds ! i) = sd ! i" by auto
  then show thesis using that [of t od ody] t x(1) ord by auto
qed

text \<open>
  The dimension of the result that dimension \<open>k\<close> of an operand is matched with, and an operand all of
  whose dimensions may be broadcast to those of the result.
\<close>

definition operand_dim :: "Shape \<Rightarrow> Shape \<Rightarrow> int list \<Rightarrow> nat \<Rightarrow> nat" where
  "operand_dim s x bds k = (if rank x = rank s then k else nat (bds ! k))"

definition covers :: "Shape \<Rightarrow> Shape \<Rightarrow> int list \<Rightarrow> bool" where
  "covers s x bds \<longleftrightarrow> (\<forall>k<rank x. operand_dim s x bds k < rank s \<and>
     broadcasts_to (dimensions x ! k) (dimensions s ! operand_dim s x bds k))"

lemma dimensions_simps [simp]:
  "dimensions (Shape t (ArrayState ds dy l)) = ds" "dynamic_dimensions (Shape t (ArrayState ds dy l)) = dy"
  by (simp_all add: dimensions_def dynamic_dimensions_def)

lemma element_type_array [simp]: "element_type (Shape t (ArrayState ds dy l)) = t"
  by simp

lemma same_rank_covers:
  assumes "lhs = Shape t1 (ArrayState ld ldy ll)" "rhs = Shape t2 (ArrayState rd rdy rl)"
    "length ldy = length ld" "length rdy = length rd"
    "InferDegenerateDimensionBroadcastShape L lhs rhs = Inr s"
  shows "covers s lhs bds" "covers s rhs bds" "rank s = length ld" "rank s = length rd"
proof -
  note r = degenerate_broadcast_result [of lhs ld ldy ll rhs rd rdy rl L s, OF _ _ assms(3-5)]
  have a: "array_of lhs = Inr (ld, ldy, ll)" "array_of rhs = Inr (rd, rdy, rl)" using assms(1,2) by simp_all
  show k: "rank s = length ld" "rank s = length rd" using r(3,4) [OF a] by simp_all
  show "covers s lhs bds" "covers s rhs bds"
    using r(6) [OF a] degenerate_dim_broadcasts k assms(1,2) by (fastforce simp: covers_def operand_dim_def)+
qed

lemma compatible_dims:
  assumes "CompatibleIgnoringFpPrecision (Shape t1 (ArrayState ld ldy ll)) (Shape t2 (ArrayState rd rdy rl))"
    "kUnboundedSize \<notin> set ld" "kUnboundedSize \<notin> set rd"
  shows "ld = rd"
proof -
  have "list_all2 (same_dimension (Shape_Equal_default\<lparr>ignore_dynamic_dimension := True, ignore_fp_precision := True,
      ignore_layout := True\<rparr>)) ld rd"
    using assms(1) by (simp add: CompatibleIgnoringFpPrecision_def same_dimensions_def) (simp add: Shape_Equal_default_def)
  then show ?thesis using assms(2,3)
    by (auto simp: list_all2_conv_all_nth same_dimension_def list_eq_iff_nth_eq) (metis nth_mem)
qed

lemma elementwise_arrays:
  assumes lr: "lhs = Shape t1 (ArrayState ld ldy ll)" "IsArrayType t1" "rhs = Shape t2 (ArrayState rd rdy rl)" "IsArrayType t2"
    and r: "InferElementwiseBinaryOpShape L opcode lhs rhs bds = Inr s"
  shows "(if CompatibleIgnoringFpPrecision lhs rhs \<and> kUnboundedSize \<notin> set ld \<and> kUnboundedSize \<notin> set rd
     then bindE (HigherPrecisionElementType L lhs rhs) (\<lambda>t. bindE (ChangeElementType L t lhs) (\<lambda>result.
            mark_flags result (zip [0..<length rd] rdy)))
     else if length ld = length rd then InferDegenerateDimensionBroadcastShape L lhs rhs
     else bindE (InferInDimBroadcastShape L (if length ld > length rd then rhs else lhs) (if length ld > length rd then lhs else rhs) bds)
            (\<lambda>indim. InferDegenerateDimensionBroadcastShape L indim (if length ld > length rd then lhs else rhs))) = Inr s"
proof -
  have e: "ExpectArray lhs = Inr ()" "ExpectArray rhs = Inr ()"
    using lr by (simp_all add: ExpectArray_def IsArrayExcludingBuffer_def)
  have a: "array_of lhs = Inr (ld, ldy, ll)" "array_of rhs = Inr (rd, rdy, rl)" using lr by simp_all
  have u: "is_unbounded_dynamic lhs = Inr (kUnboundedSize \<in> set ld)" "is_unbounded_dynamic rhs = Inr (kUnboundedSize \<in> set rd)"
    using lr by (auto simp: list_ex_iff)
  show ?thesis
    using r unfolding InferElementwiseBinaryOpShape_def e a u bindE_Inr prod.case Let_def
    by (simp only: if_Inl_eq_Inr)
qed

text \<open>The three ways to a result; each operand may be broadcast to it.\<close>

lemma same_shape_result:
  assumes l: "lhs = Shape t1 (ArrayState ld ldy ll)" "IsArrayType t1" "list_all2 IsValidDimensionSize ld ldy" "length ldy = length ld"
    and r: "rhs = Shape t2 (ArrayState rd rdy rl)" "IsArrayType t2" "length rdy = length rd"
    and c: "CompatibleIgnoringFpPrecision lhs rhs" "kUnboundedSize \<notin> set ld" "kUnboundedSize \<notin> set rd"
      "HigherPrecisionElementType L lhs rhs = Inr t" "ChangeElementType L t lhs = Inr r'"
      "mark_flags r' (zip [0..<length rd] rdy) = Inr s"
  obtains l' where "s = Shape t (ArrayState ld (map2 (\<or>) ldy rdy) l')" "t = t1 \<or> t = t2" "ld = rd"
    "list_all2 IsValidDimensionSize ld (map2 (\<or>) ldy rdy)"
proof -
  have eq: "ld = rd" using compatible_dims c(1-3) l(1) r(1) by blast
  have t: "t = t1 \<or> t = t2" using HigherPrecisionElementType_Inr [OF c(4)] l(1) r(1) by simp
  then have "IsArrayType t" using l r by auto
  then obtain l' where "r' = Shape t (ArrayState ld ldy l')"
    using ChangeElementType_array [of t t1 L ld ldy ll r'] c(5) l by metis
  then show thesis
    using that c(6) mark_flags_array [OF l(3), of rdy t l'] valid_or_flags [OF l(3), of rdy] eq r(3) t by simp
qed

lemma in_dim_result:
  assumes small: "small = Shape ts (ArrayState sd sdy sl)" "IsArrayType ts"
    and large: "large = Shape tg (ArrayState ld ldy ll)" "IsArrayType tg" "length ldy = length ld" "length sd < length ld"
    and r: "InferInDimBroadcastShape L small large bds = Inr indim" "InferDegenerateDimensionBroadcastShape L indim large = Inr s"
  shows "shape_inv s" "IsArrayExcludingBuffer s" "element_type s = ts \<or> element_type s = tg" "rank s = length ld"
    "covers s small bds" "covers s large bds"
proof -
  obtain t od ody where o: "indim = Shape t (ArrayState od ody ll)" "t = ts \<or> t = tg" "length od = length ld" "length ody = length ld"
    "length bds = length sd" "\<forall>i<length sd. 0 \<le> bds ! i \<and> nat (bds ! i) < length ld \<and> od ! nat (bds ! i) = sd ! i"
    by (rule InferInDimBroadcastShape_result [OF small large(1-3) r(1)])
  have lens: "length ody = length od" using o(3,4) by simp
  note d = degenerate_broadcast_result [of indim od ody ll large ld ldy ll L s, OF _ _ lens large(3) r(2)]
  note c = same_rank_covers [OF o(1) large(1) lens large(3) r(2)]
  show "shape_inv s" "IsArrayExcludingBuffer s" using d(1,2) o(1) large(1) by simp_all
  show "element_type s = ts \<or> element_type s = tg" using d(5) o(1,2) large(1) by auto
  show "rank s = length ld" "covers s large bds" by (rule c(4), rule c(2))
  show "covers s small bds"
    using c(1) [of bds] c(3,4) o small(1) large(4) by (auto simp: covers_def operand_dim_def)
qed

lemma InferElementwiseBinaryOpShape_result:
  assumes "shape_inv lhs" "shape_inv rhs" "InferElementwiseBinaryOpShape L opcode lhs rhs bds = Inr s"
  shows "shape_inv s \<and> IsArrayExcludingBuffer s \<and> (element_type s = element_type lhs \<or> element_type s = element_type rhs) \<and>
    rank s = max (rank lhs) (rank rhs) \<and> covers s lhs bds \<and> covers s rhs bds"
proof -
  have "IsArrayExcludingBuffer lhs" "IsArrayExcludingBuffer rhs"
    using assms(3) by (auto simp: InferElementwiseBinaryOpShape_def ExpectArray_def bindE_eq_Inr split: if_splits)
  then obtain t1 ld ldy ll t2 rd rdy rl where
    l: "lhs = Shape t1 (ArrayState ld ldy ll)" "IsArrayType t1" "list_all2 IsValidDimensionSize ld ldy" "length ldy = length ld" and
    r: "rhs = Shape t2 (ArrayState rd rdy rl)" "IsArrayType t2" "list_all2 IsValidDimensionSize rd rdy" "length rdy = length rd"
    using assms(1,2) by (metis array_shape_cases)
  note e = elementwise_arrays [OF l(1,2) r(1,2) assms(3)]
  show ?thesis
  proof (cases "CompatibleIgnoringFpPrecision lhs rhs \<and> kUnboundedSize \<notin> set ld \<and> kUnboundedSize \<notin> set rd")
    case True
    with e obtain t r' where "HigherPrecisionElementType L lhs rhs = Inr t" "ChangeElementType L t lhs = Inr r'"
      "mark_flags r' (zip [0..<length rd] rdy) = Inr s" by (auto simp: bindE_eq_Inr)
    with True obtain l' where "s = Shape t (ArrayState ld (map2 (\<or>) ldy rdy) l')" "t = t1 \<or> t = t2" "ld = rd"
      "list_all2 IsValidDimensionSize ld (map2 (\<or>) ldy rdy)"
      using same_shape_result [OF l r(1,2,4)] by blast
    then show ?thesis using l r by (auto simp: shape_class_defs covers_def operand_dim_def broadcasts_to_def)
  next
    case ne: False
    show ?thesis
    proof (cases "length ld = length rd")
      case True
      then have g: "InferDegenerateDimensionBroadcastShape L lhs rhs = Inr s" using e ne by (simp only: if_False if_True simp_thms)
      note d = degenerate_broadcast_result [of lhs ld ldy ll rhs rd rdy rl L s, OF _ _ l(4) r(4) g]
      show ?thesis using d same_rank_covers [OF l(1) r(1) l(4) r(4) g] l(1) r(1) by auto
    next
      case False
      then obtain indim where i: "InferInDimBroadcastShape L (if length ld > length rd then rhs else lhs)
          (if length ld > length rd then lhs else rhs) bds = Inr indim"
        "InferDegenerateDimensionBroadcastShape L indim (if length ld > length rd then lhs else rhs) = Inr s"
        using e ne by (auto simp only: if_False simp_thms bindE_eq_Inr)
      show ?thesis
      proof (cases "length rd < length ld")
        case True
        then show ?thesis using in_dim_result [OF r(1,2) l(1,2,4) True, of L bds indim s] i l(1) r(1) by auto
      next
        case le: False
        then have "length ld < length rd" using False by simp
        then show ?thesis using in_dim_result [OF l(1,2) r(1,2,4), of L bds indim s] i le l(1) r(1) by auto
      qed
    qed
  qed
qed

lemma ChangeElementType_typed:
  assumes "shape_inv s" "IsArrayExcludingBuffer s" "IsArrayType t" "ChangeElementType L t s = Inr r"
  shows "shape_inv r \<and> IsArrayExcludingBuffer r \<and> element_type r = t \<and> dimensions r = dimensions s \<and>
    dynamic_dimensions r = dynamic_dimensions s"
proof -
  obtain t0 ds dy l where s: "s = Shape t0 (ArrayState ds dy l)" "IsArrayType t0" "list_all2 IsValidDimensionSize ds dy"
    using assms(1,2) by (metis array_shape_cases)
  then obtain l' where "r = Shape t (ArrayState ds dy l')" using ChangeElementType_array [OF assms(3)] assms(4) by metis
  then show ?thesis using s assms(3) by (simp add: shape_class_defs)
qed

lemma covers_dimensions: "dimensions r = dimensions s \<Longrightarrow> covers r x bds = covers s x bds"
  by (simp add: covers_def operand_dim_def)



text \<open>
  The broadcast of degenerate dimensions does not depend on the order of the operands when no
  dimension is bounded by one.
\<close>

lemma degenerate_dim_symmetric:
  "(l, lf) \<noteq> (1, True) \<Longrightarrow> (r, rf) \<noteq> (1, True) \<Longrightarrow> degenerate_dim ((l, lf), (r, rf)) = degenerate_dim ((r, rf), (l, lf))"
  by (auto simp: degenerate_dim_def IsUnboundedDynamicSize_def)

lemma degenerate_broadcast_symmetric:
  assumes "array_of lhs = Inr (ld, ldy, ll)" "array_of rhs = Inr (rd, rdy, rl)"
    "(1, True) \<notin> set (zip ld ldy)" "(1, True) \<notin> set (zip rd rdy)"
    "IsArrayType (element_type lhs)" "IsArrayType (element_type rhs)"
  shows "InferDegenerateDimensionBroadcastShape L lhs rhs = InferDegenerateDimensionBroadcastShape L rhs lhs"
proof -
  have "mapE degenerate_dim (zip xs ys) = mapE degenerate_dim (zip ys xs)"
    if "(1, True) \<notin> set xs" "(1, True) \<notin> set ys" for xs ys
    using that
  proof (induction xs ys rule: list_induct2')
    case (4 x xs y ys)
    moreover have "degenerate_dim (x, y) = degenerate_dim (y, x)"
      using 4 by (cases x; cases y) (simp add: degenerate_dim_symmetric)
    ultimately show ?case by (simp cong del: bindE_cong)
  qed simp_all
  moreover have "HigherPrecisionElementType L lhs rhs = HigherPrecisionElementType L rhs lhs"
    using HigherPrecisionType_laws [OF assms(5,6)] by (simp add: HigherPrecisionElementType_def)
  ultimately show ?thesis
    using assms(3,4) by (simp add: InferDegenerateDimensionBroadcastShape_def assms(1,2) cong del: bindE_cong)
qed

text \<open>
  With a dimension bounded by one it does: \<open>[<=1, 1]\<close> and \<open>[1, 2]\<close> give \<open>[1, 2]\<close>, without the
  dynamic flag, and exchanged they give \<open>[<=1, 2]\<close>.
\<close>

lemma degenerate_broadcast_drops_dynamic:
  fixes a b defines "a \<equiv> Shape F32 (ArrayState [1, 1] [True, False] None)"
    and "b \<equiv> Shape F32 (ArrayState [1, 2] [False, False] None)"
  shows "bindE (InferBinaryOpShape ieee_limits kAdd a b []) (\<lambda>s. Inr (dynamic_dimensions s)) = Inr [False, False]"
    and "bindE (InferBinaryOpShape ieee_limits kAdd b a []) (\<lambda>s. Inr (dynamic_dimensions s)) = Inr [True, False]"
  unfolding a_def b_def by code_simp+

text \<open>The row \<open><=X | ? | ?\<close> of the comment on the unbounded case: the code infers \<open><=X\<close>.\<close>

lemma degenerate_broadcast_bounded_unbounded:
  "degenerate_dim ((5, True), (kUnboundedSize, True)) = Inr (5, True)"
  by code_simp

text \<open>A result with more elements than fit stops the process although the function returns a status.\<close>

lemma broadcast_overflow_stops:
  "InferBinaryOpShape ieee_limits kAdd (Shape F32 (ArrayState [2 ^ 40, 1] [False, False] None))
     (Shape F32 (ArrayState [1, 2 ^ 40] [False, False] None)) [] = Inl (CheckFailed ''value() of an error status'')"
  by code_simp

end
