(* ===== verification/ShapeInferenceDims.thy ===== *)
theory ShapeInferenceDims
  imports ShapeInference
begin

text \<open>
  \<open>xla/service/shape_inference.cc\<close>, second part: operations that rearrange, cut, join, pad, contract
  and reshape dimensions.
\<close>

section \<open>Sizes of dimensions\<close>

definition kint32max :: int where "kint32max = 2 ^ 31 - 1"

definition InferGetDimensionSizeShape :: "native_limits \<Rightarrow> Shape \<Rightarrow> int \<Rightarrow> Shape status_or" where
  "InferGetDimensionSizeShape L s dimension =
     bindE (dimsE s) (\<lambda>ds.
     if dimension < 0 \<or> dimension \<ge> int (length ds) then Inl (InvalidArgument ''GetDimensionSize dimension out of bounds'')
     else if ds ! nat dimension > kint32max then Inl (InvalidArgument ''the dimension exceeds the INT_MAX limit'')
     else MakeShape L S32 [])"

definition InferSetDimensionSizeShape :: "Shape \<Rightarrow> Shape \<Rightarrow> int \<Rightarrow> Shape status_or" where
  "InferSetDimensionSizeShape s val_shape dimension =
     bindE (dimsE s) (\<lambda>ds.
     if dimension < 0 \<or> dimension \<ge> int (length ds) then Inl (InvalidArgument ''SetDimensionSize dimension out of bounds'')
     else bindE (dimsE val_shape) (\<lambda>vd.
       if vd \<noteq> [] \<or> element_type val_shape \<noteq> S32 then Inl (InvalidArgument ''SetDimensionSize value has to be S32 scalar'')
       else if ds ! nat dimension > kint32max then Inl (InvalidArgument ''the dimension exceeds the INT_MAX limit'')
       else set_dynamic_dimension s dimension True))"

definition InferTopKShape :: "native_limits \<Rightarrow> Shape \<Rightarrow> int \<Rightarrow> Shape status_or" where
  "InferTopKShape L operand_shape k =
     bindE (ExpectArray operand_shape) (\<lambda>_.
     bindE (array_of operand_shape) (\<lambda>(ds, dy, _).
     bindE (at_index ds (int (length ds) - 1)) (\<lambda>last_size.
     if \<not> last_size \<ge> k then Inl (InternalError ''operand_shape.dimensions(last_dim) >= k'')
     else bindE (MakeShape_dynamic L (element_type operand_shape) (ds[length ds - 1 := k]) (dy[length ds - 1 := False])) (\<lambda>out.
          bindE (ChangeElementType L S32 out) (\<lambda>idxs_shape. MakeTupleShape L [out, idxs_shape])))))"

section \<open>Concatenation\<close>

text \<open>The checks of the first loop on a further operand; the type of the pair is returned.\<close>

definition concat_check :: "native_limits \<Rightarrow> Shape \<Rightarrow> int \<Rightarrow> Shape \<Rightarrow> PrimitiveType status_or" where
  "concat_check L arg_shape dimension s =
     bindE (ExpectArray s) (\<lambda>_.
     bindE (dimsE arg_shape) (\<lambda>ad.
     bindE (dimsE s) (\<lambda>sd.
     if length ad \<noteq> length sd then Inl (InvalidArgument ''Cannot concatenate arrays with different ranks'')
     else if \<not> SameElementTypeIgnoringFpPrecision arg_shape s
     then Inl (InvalidArgument ''Cannot concatenate arrays with different element types'')
     else if list_ex (\<lambda>i. \<not> CompatibleDimensionSizes (ad ! i) (sd ! i) \<and> int i \<noteq> dimension) [0..<length ad]
     then Inl (InvalidArgument ''Cannot concatenate arrays that differ in dimensions other than the one being concatenated'')
     else HigherPrecisionElementType L s arg_shape)))"

definition concat_step :: "int \<Rightarrow> DimAndBound list \<Rightarrow> Shape \<Rightarrow> DimAndBound list status_or" where
  "concat_step dimension inferred s =
     bindE (array_of s) (\<lambda>(ds, dy, _).
       mapE (\<lambda>(i, acc).
         bindE (at_index ds (int i)) (\<lambda>d.
         bindE (at_index dy (int i)) (\<lambda>dynamic.
           let right_bound = (if dynamic then d else kUnboundedSize) in
           if int i = dimension
           then InferConcatenatedDimAndBound (db_dimension acc) d (db_bound acc) right_bound
           else InferMostSpecificDimAndBound (db_dimension acc) d (db_bound acc) right_bound)))
         (zip [0..<length inferred] inferred))"

definition InferConcatOpShape :: "native_limits \<Rightarrow> Shape list \<Rightarrow> int \<Rightarrow> Shape status_or" where
  "InferConcatOpShape L arg_shapes dimension =
     (case arg_shapes of
        [] \<Rightarrow> Inl (InvalidArgument ''Concatenate expects at least one argument.'')
      | arg_shape # rest \<Rightarrow>
          bindE (dimsE arg_shape) (\<lambda>ad.
          if dimension < 0 \<or> dimension \<ge> int (length ad)
          then Inl (InvalidArgument ''Concatenate dimension out of bounds'')
          else bindE (ExpectArray arg_shape) (\<lambda>_.
               bindE (foldE (\<lambda>_ s. concat_check L arg_shape dimension s) (element_type arg_shape) rest) (\<lambda>ty.
               bindE (foldE (concat_step dimension)
                  ((replicate (length ad) \<lparr>db_dimension = kUnboundedSize, db_bound = kUnboundedSize\<rparr>)
                     [nat dimension := \<lparr>db_dimension = 0, db_bound = kUnboundedSize\<rparr>]) arg_shapes) (\<lambda>inferred.
               bindE (MakeShape L ty (map db_dimension inferred)) (\<lambda>result.
                 mark_flags result (zip [0..<length inferred]
                   (map (\<lambda>x. \<not> IsUnboundedDynamicSize (db_bound x) \<or> IsUnboundedDynamicSize (db_dimension x)) inferred))))))))"

section \<open>Padding\<close>

record PaddingConfigDimension =
  edge_padding_low :: int
  edge_padding_high :: int
  interior_padding :: int

definition pad_dim :: "int \<Rightarrow> PaddingConfigDimension \<Rightarrow> int status_or" where
  "pad_dim d p =
     (if IsUnboundedDynamicSize d then Inr kUnboundedSize
      else case OverflowSafeMultiply_int (max (d - 1) 0) (interior_padding p) of
             (product, overflow) \<Rightarrow>
               if overflow then Inl (InvalidArgument ''Padding computation overflows'')
               else bindE (signed64 (d + edge_padding_low p)) (\<lambda>x.
                    bindE (signed64 (x + edge_padding_high p)) (\<lambda>y.
                    bindE (signed64 (y + product)) (\<lambda>d'.
                    if d' < 0 then Inl (InvalidArgument ''Padding result in negative size for dimension'') else Inr d'))))"

definition InferPadShape :: "native_limits \<Rightarrow> Shape \<Rightarrow> Shape \<Rightarrow> PaddingConfigDimension list \<Rightarrow> Shape status_or" where
  "InferPadShape L operand_shape padding_value_shape padding_config =
     (if \<not> IsArrayExcludingBuffer operand_shape
      then Inl (InvalidArgument ''Pad operation does not support tuple-shape operands.'')
      else bindE (IsScalar padding_value_shape) (\<lambda>scalar.
        if \<not> scalar then Inl (InvalidArgument ''Pad operation does not support non-scalar padding values.'')
        else bindE (array_of operand_shape) (\<lambda>(ds, dy, _).
        if length ds \<noteq> length padding_config
        then Inl (InvalidArgument ''The rank of the operand and the padding configuration do not match'')
        else if \<not> SameElementTypeIgnoringFpPrecision operand_shape padding_value_shape
        then Inl (InvalidArgument ''The element types of the operands to Pad do not match.'')
        else if list_ex (\<lambda>p. interior_padding p < 0) padding_config
        then Inl (InvalidArgument ''Interior padding cannot be negative'')
        else bindE (is_static padding_value_shape) (\<lambda>static.
          if \<not> static then Inl (InvalidArgument ''Dynamic padding value is not supported'')
          else bindE (mapE (\<lambda>(d, p). pad_dim d p) (zip ds padding_config)) (\<lambda>dims.
               bindE (HigherPrecisionElementType L operand_shape padding_value_shape) (\<lambda>t.
                 MakeShape_dynamic L t dims dy))))))"

section \<open>Dot\<close>

record DotDimensionNumbers =
  lhs_contracting_dimensions :: "int list"
  rhs_contracting_dimensions :: "int list"
  lhs_batch_dimensions :: "int list"
  rhs_batch_dimensions :: "int list"

definition dims_in_range :: "nat \<Rightarrow> int list \<Rightarrow> int list \<Rightarrow> bool" where
  "dims_in_range rnk contracting batch \<longleftrightarrow>
     list_all (\<lambda>i. 0 \<le> i \<and> i < int rnk) contracting \<and> list_all (\<lambda>i. 0 \<le> i \<and> i < int rnk) batch"

definition dims_unique :: "int list \<Rightarrow> int list \<Rightarrow> bool" where
  "dims_unique contracting batch \<longleftrightarrow> distinct (contracting @ batch)"

definition ValidateDotDimensionNumbers :: "Shape \<Rightarrow> Shape \<Rightarrow> DotDimensionNumbers \<Rightarrow> unit status_or" where
  "ValidateDotDimensionNumbers lhs rhs dn =
     bindE (dimsE lhs) (\<lambda>ld.
     bindE (dimsE rhs) (\<lambda>rd.
     if \<not> dims_in_range (length ld) (lhs_contracting_dimensions dn) (lhs_batch_dimensions dn) \<or>
        \<not> dims_in_range (length rd) (rhs_contracting_dimensions dn) (rhs_batch_dimensions dn)
     then Inl (InvalidArgument ''A dimension number is out of range in Dot'')
     else if \<not> dims_unique (lhs_contracting_dimensions dn) (lhs_batch_dimensions dn) \<or>
             \<not> dims_unique (rhs_contracting_dimensions dn) (rhs_batch_dimensions dn)
     then Inl (InvalidArgument ''A dimension number is not unique in Dot'') else Inr ()))"

definition check_dot_sizes :: "string \<Rightarrow> int list \<Rightarrow> int list \<Rightarrow> int \<times> int \<Rightarrow> unit status_or" where
  "check_dot_sizes msg ld rd p =
     bindE (at_index ld (fst p)) (\<lambda>a. bindE (at_index rd (snd p)) (\<lambda>b.
       if \<not> CompatibleDimensionSizes a b then Inl (InvalidArgument msg) else Inr ()))"

definition CheckDotDimensionConstraints :: "Shape \<Rightarrow> Shape \<Rightarrow> DotDimensionNumbers \<Rightarrow> unit status_or" where
  "CheckDotDimensionConstraints lhs rhs dn =
     (if length (lhs_contracting_dimensions dn) \<noteq> length (rhs_contracting_dimensions dn)
      then Inl (InvalidArgument ''Must specify the same number of contracting dimensions for lhs and rhs.'')
      else bindE (dimsE lhs) (\<lambda>ld.
        bindE (dimsE rhs) (\<lambda>rd.
        bindE (for_each (check_dot_sizes ''Contracting dimension sizes are not compatible.'' ld rd)
          (zip (lhs_contracting_dimensions dn) (rhs_contracting_dimensions dn))) (\<lambda>_.
        if length (lhs_batch_dimensions dn) \<noteq> length (rhs_batch_dimensions dn)
        then Inl (InvalidArgument ''Must the same number of batch dimensions for lhs and rhs.'')
        else for_each (check_dot_sizes ''Batch dimension sizes are not compatible.'' ld rd)
          (zip (lhs_batch_dimensions dn) (rhs_batch_dimensions dn))))))"

definition GenerateDotResultDimensions ::
  "Shape \<Rightarrow> Shape \<Rightarrow> DotDimensionNumbers \<Rightarrow> int list \<Rightarrow> (int \<times> bool) list status_or" where
  "GenerateDotResultDimensions lhs rhs dn rhs_group_dimensions =
     bindE (array_of lhs) (\<lambda>(ld, ldy, _).
     bindE (array_of rhs) (\<lambda>(rd, rdy, _).
     bindE (mapE (\<lambda>i. bindE (at_index ld i) (\<lambda>d. bindE (at_index ldy i) (\<lambda>b. Inr (d, b)))) (lhs_batch_dimensions dn)) (\<lambda>batch.
       Inr (batch @
         map (\<lambda>i. (ld ! nat i, ldy ! nat i))
           (filter (\<lambda>i. i \<notin> set (lhs_contracting_dimensions dn) \<and> i \<notin> set (lhs_batch_dimensions dn)) (map int [0..<length ld])) @
         map (\<lambda>i. (rd ! nat i, rdy ! nat i))
           (filter (\<lambda>i. i \<notin> set (rhs_contracting_dimensions dn) \<and> i \<notin> set (rhs_batch_dimensions dn) \<and>
              i \<notin> set rhs_group_dimensions) (map int [0..<length rd]))))))"

definition InferDotOpShape ::
  "native_limits \<Rightarrow> Shape \<Rightarrow> Shape \<Rightarrow> DotDimensionNumbers \<Rightarrow> PrimitiveType option \<Rightarrow> Shape status_or" where
  "InferDotOpShape L lhs rhs dn preferred_element_type =
     bindE (ExpectArray lhs) (\<lambda>_.
     bindE (ExpectArray rhs) (\<lambda>_.
     bindE (ValidateDotDimensionNumbers lhs rhs dn) (\<lambda>_.
     bindE (CheckDotDimensionConstraints lhs rhs dn) (\<lambda>_.
     bindE (GenerateDotResultDimensions lhs rhs dn []) (\<lambda>dims.
     bindE (HigherPrecisionElementType L lhs rhs) (\<lambda>higher.
       MakeShape_dynamic L (case preferred_element_type of Some t \<Rightarrow> t | None \<Rightarrow> higher) (map fst dims) (map snd dims)))))))"

section \<open>Slices\<close>

definition slice_dim :: "int \<Rightarrow> int \<Rightarrow> int \<Rightarrow> int \<Rightarrow> int status_or" where
  "slice_dim d start_index limit_index stride =
     (if start_index < 0 then Inl (InvalidArgument ''Negative start index to slice'')
      else if \<not> IsUnboundedDynamicSize d \<and> limit_index > d
      then Inl (InvalidArgument ''limit index must be less than or equal to dimension size'')
      else if start_index > limit_index
      then Inl (InvalidArgument ''limit index must be greater or equal to start index in slice with positive stride'')
      else if stride \<le> 0 then Inl (InvalidArgument ''Stride must be positive.'')
      else bindE (signed64 (limit_index - start_index + stride)) (\<lambda>x. cdiv (x - 1) stride))"

definition InferSliceShape :: "native_limits \<Rightarrow> Shape \<Rightarrow> int list \<Rightarrow> int list \<Rightarrow> int list \<Rightarrow> Shape status_or" where
  "InferSliceShape L arg starts limits strides =
     bindE (ExpectArray arg) (\<lambda>_.
     if length starts \<noteq> length limits then Inl (InvalidArgument ''slice start and limit sizes differ'')
     else if length starts \<noteq> length strides then Inl (InvalidArgument ''slice start and strides sizes differ'')
     else bindE (array_of arg) (\<lambda>(ds, dy, _).
       if length starts \<noteq> length ds then Inl (InvalidArgument ''Slice index count does not match argument rank'')
       else bindE (mapE (\<lambda>(d, a, b, c). slice_dim d a b c) (zip ds (zip starts (zip limits strides)))) (\<lambda>sizes.
         MakeShape_dynamic L (element_type arg) sizes
           (map (\<lambda>(n, d, b). n \<noteq> 1 \<and> b \<and> \<not> IsUnboundedDynamicSize d) (zip sizes (zip ds dy))))))"

text \<open>The index operands of a dynamic slice: one vector, or a scalar per dimension.\<close>

definition check_start_indices :: "string \<Rightarrow> nat \<Rightarrow> Shape list \<Rightarrow> bool \<Rightarrow> unit status_or" where
  "check_start_indices op rnk start_index_shapes allow_scalar_indices =
     bindE (case start_index_shapes of
              [] \<Rightarrow> Inr False
            | s # _ \<Rightarrow> if \<not> allow_scalar_indices then Inr True else bindE (dimsE s) (\<lambda>ds. Inr (length ds = 1))) (\<lambda>vector.
     if \<not> allow_scalar_indices \<or> vector
     then if length start_index_shapes \<noteq> 1
          then Inl (InvalidArgument (op @ '' should have exactly 1 index operand''))
          else let s = start_index_shapes ! 0 in
               bindE (ExpectArray s) (\<lambda>_.
               bindE (dimsE s) (\<lambda>ds.
               if length ds \<noteq> 1 then Inl (InvalidArgument (op @ '' start indices must be rank1.''))
               else if \<not> ElementIsIntegral s
               then Inl (InvalidArgument (op @ '' start indices must be of integral type.''))
               else if int rnk \<noteq> ds ! 0
               then Inl (InvalidArgument (op @ '' start number of dimensions must match rank'')) else Inr ()))
     else if rnk \<noteq> length start_index_shapes
     then Inl (InvalidArgument (op @ '' start number of dimensions must match rank''))
     else case start_index_shapes of
            [] \<Rightarrow> Inr ()
          | first # _ \<Rightarrow>
              bindE (IsScalar first) (\<lambda>scalar.
              if \<not> scalar then Inl (InvalidArgument (op @ '' indices must be scalar''))
              else if \<not> ElementIsIntegral first
              then Inl (InvalidArgument (op @ '' start indices must be of integral type.''))
              else if list_ex (\<lambda>s. \<not> Compatible first s) start_index_shapes
              then Inl (InvalidArgument (op @ '' start indices must all have the same shape'')) else Inr ()))"

definition InferDynamicSliceShape :: "native_limits \<Rightarrow> Shape \<Rightarrow> Shape list \<Rightarrow> int list \<Rightarrow> bool \<Rightarrow> Shape status_or" where
  "InferDynamicSliceShape L operand_shape start_index_shapes slice_sizes allow_scalar_indices =
     bindE (ExpectArray operand_shape) (\<lambda>_.
     bindE (array_of operand_shape) (\<lambda>(ds, dy, _).
     bindE (check_start_indices ''Dynamic slice'' (length ds) start_index_shapes allow_scalar_indices) (\<lambda>_.
     if length slice_sizes \<noteq> length ds
     then Inl (InvalidArgument ''Dynamic slice index count does not match argument rank'')
     else bindE (for_each (\<lambda>(d, n).
            if n < 0 then Inl (InvalidArgument ''Negative size index to dynamic slice'')
            else if \<not> IsUnboundedDynamicSize d \<and> n > d
            then Inl (InvalidArgument ''Slice dim size greater than dynamic slice dimension'') else Inr ())
            (zip ds slice_sizes)) (\<lambda>_.
          bindE (MakeShape L (element_type operand_shape) slice_sizes) (\<lambda>out.
            mark_flags out (zip [0..<length ds] (map (\<lambda>(n, d, b). b \<and> n > 1 \<and> n = d) (zip slice_sizes (zip ds dy)))))))))"

definition InferDynamicUpdateSliceShape :: "Shape \<Rightarrow> Shape \<Rightarrow> Shape list \<Rightarrow> bool \<Rightarrow> Shape status_or" where
  "InferDynamicUpdateSliceShape operand_shape update_shape start_index_shapes allow_scalar_indices =
     (if \<not> IsArray operand_shape then Inl (InvalidArgument ''Expected array or buffer argument'')
      else bindE (ExpectArray update_shape) (\<lambda>_.
        bindE (array_of operand_shape) (\<lambda>(ds, dy, _).
        bindE (check_start_indices ''Dynamic update slice'' (length ds) start_index_shapes allow_scalar_indices) (\<lambda>_.
        bindE (array_of update_shape) (\<lambda>(ud, udy, _).
        if length ud \<noteq> length ds
        then Inl (InvalidArgument ''Dynamic update slice update rank does not match argument rank'')
        else if \<not> SameElementTypeIgnoringFpPrecision operand_shape update_shape
        then Inl (InvalidArgument ''Dynamic update slice update element type does not match argument'')
        else bindE (for_each (\<lambda>(d, u).
               if \<not> IsUnboundedDynamicSize u \<and> u < 0
               then Inl (InvalidArgument ''Size index to dynamic update slice must be >= 0'')
               else if u > d then Inl (InvalidArgument ''Update dim size greater than dynamic slice dimension'')
               else Inr ()) (zip ds ud)) (\<lambda>_.
             mark_flags operand_shape (zip [0..<length ud]
               (map (\<lambda>(d, b, u, c). b \<or> c \<and> u = d) (zip ds (zip dy (zip ud udy)))))))))))"

definition InferReverseShape :: "Shape \<Rightarrow> int list \<Rightarrow> Shape status_or" where
  "InferReverseShape operand_shape dims =
     bindE (ExpectArray operand_shape) (\<lambda>_.
     if \<not> AllUnique dims then Inl (InvalidArgument ''a dimension number is duplicated in reverse'')
     else bindE (dimsE operand_shape) (\<lambda>ds.
       if list_ex (\<lambda>d. d < 0 \<or> d \<ge> int (length ds)) dims
       then Inl (InvalidArgument ''One of the reverse dimensions is out-of-bounds'') else Inr operand_shape))"

section \<open>Broadcast, transpose and reshape\<close>

definition InferBroadcastShape :: "native_limits \<Rightarrow> Shape \<Rightarrow> int list \<Rightarrow> Shape status_or" where
  "InferBroadcastShape L operand broadcast_sizes =
     bindE (ExpectArray operand) (\<lambda>_.
     bindE (is_unbounded_dynamic operand) (\<lambda>unbounded.
     if unbounded then Inl (InternalError ''!operand.is_unbounded_dynamic()'')
     else bindE (for_each (\<lambda>n.
            if n = kUnboundedSize then Inl (InvalidArgument ''Non-broadcast dimensions must not be dynamic.'')
            else if n < 0 then Inl (InvalidArgument ''Broadcast with negative dimension size'') else Inr ()) broadcast_sizes) (\<lambda>_.
          bindE (array_of operand) (\<lambda>(ds, dy, _).
          bindE (MakeValidatedShape L (element_type operand) (broadcast_sizes @ ds)) (\<lambda>result.
            foldE (\<lambda>r (i, b). set_dynamic_dimension r (int (length broadcast_sizes) + int i) b) result
              (zip [0..<length ds] dy))))))"

definition broadcast_in_dim_check :: "int list \<times> bool list \<Rightarrow> int list \<times> bool list \<Rightarrow> int list \<Rightarrow> nat \<Rightarrow> unit status_or" where
  "broadcast_in_dim_check operand output bds i =
     (let b = bds ! i in
      if b < 0 \<or> b \<ge> int (length (fst output)) then Inl (InvalidArgument ''Broadcast dimension is out of bound'')
      else
        bindE (at_index (fst operand) (int i)) (\<lambda>d.
        bindE (at_index (snd operand) (int i)) (\<lambda>d_dynamic.
        bindE (at_index (fst output) b) (\<lambda>o_size.
        bindE (at_index (snd output) b) (\<lambda>o_dynamic.
        let unbounded = IsUnboundedDynamicSize d in
        if \<not> unbounded \<and> d \<noteq> o_size \<and> d \<noteq> 1
        then Inl (InvalidArgument ''Input dimension should be either 1 or equal to the output dimension it is broadcasting into'')
        else if \<not> unbounded \<and> (d_dynamic \<and> \<not> unbounded) \<noteq> (o_dynamic \<and> \<not> IsUnboundedDynamicSize o_size)
        then Inl (InvalidArgument ''Broadcast input and output dynamism mismatch'')
        else if i > 0 \<and> bds ! (i - 1) \<ge> b then Inl (InvalidArgument ''Broadcast dimensions order is wrong'')
        else Inr ())))))"

definition InferBroadcastInDimShape :: "Shape \<Rightarrow> Shape \<Rightarrow> int list \<Rightarrow> Shape status_or" where
  "InferBroadcastInDimShape operand_shape output_shape broadcast_dimensions =
     bindE (ExpectArray operand_shape) (\<lambda>_.
     bindE (ExpectArray output_shape) (\<lambda>_.
     bindE (is_unbounded_dynamic output_shape) (\<lambda>unbounded.
     if unbounded then Inl (InternalError ''!output_shape.is_unbounded_dynamic()'')
     else bindE (array_of operand_shape) (\<lambda>(ds, dy, _).
          bindE (array_of output_shape) (\<lambda>(od, ody, _).
          if length ds > length od
          then Inl (InvalidArgument ''InDim style broadcast must be to an equal or higher ranked shape'')
          else if length ds \<noteq> length broadcast_dimensions
          then Inl (InvalidArgument ''Size of broadcast_dimensions has to match operand rank'')
          else bindE (for_each (broadcast_in_dim_check (ds, dy) (od, ody) broadcast_dimensions) [0..<length ds]) (\<lambda>_.
            Inr output_shape))))))"

definition InferTransposeShape :: "Shape \<Rightarrow> int list \<Rightarrow> Shape status_or" where
  "InferTransposeShape operand dims =
     bindE (ExpectArray operand) (\<lambda>_.
     bindE (dimsE operand) (\<lambda>ds.
     if length dims \<noteq> length ds \<or> \<not> IsPermutation dims
     then Inl (InvalidArgument ''Transpose dimensions are not a permutation of the operand dimensions'')
     else PermuteDimensions dims operand))"

text \<open>The condition joins the two tests by \<open>&&\<close>.\<close>

definition InferDynamicReshapeShape ::
  "native_limits \<Rightarrow> Shape \<Rightarrow> Shape list \<Rightarrow> int list \<Rightarrow> bool list \<Rightarrow> Shape status_or" where
  "InferDynamicReshapeShape L operand dim_size_shapes new_size_bounds dims_are_dynamic =
     (if length new_size_bounds \<noteq> length dims_are_dynamic
      then Inl (InvalidArgument ''DynamicReshape has to have the same number of elements in new_sizes and dims_are_dynamic'')
      else bindE (for_each (\<lambda>s.
             if element_type s \<noteq> S32
             then bindE (dimsE s) (\<lambda>ds.
                  if ds \<noteq> [] then Inl (InvalidArgument ''DynamicReshape dim size has to be scalar S32'') else Inr ())
             else Inr ()) dim_size_shapes) (\<lambda>_.
           bindE (MakeShape_dynamic L (element_type operand) new_size_bounds dims_are_dynamic) (\<lambda>inferred_shape.
           bindE (ElementsIn operand) (\<lambda>a.
           bindE (ElementsIn inferred_shape) (\<lambda>b.
             if a \<noteq> b then Inl (InvalidArgument ''Reshape operation has mismatched element counts'')
             else Inr inferred_shape)))))"

text \<open>
  The group of common factors an input dimension belongs to: its first and last boundary, on both sides.
  The second function widens the output side to neighbouring groups that are empty on the input side.
\<close>

fun find_group :: "int \<Rightarrow> ((nat \<times> nat) \<times> (nat \<times> nat)) list \<Rightarrow> int \<times> int \<times> int \<times> int" where
  "find_group d [] = (- 1, - 1, - 1, - 1)"
| "find_group d (((i, j), (i', j')) # rest) =
     (if d \<ge> int i \<and> d < int i' then (int i, int i', int j, int j') else find_group d rest)"

fun widen_group :: "int \<Rightarrow> int \<Rightarrow> int \<times> int \<Rightarrow> (nat \<times> nat) list \<Rightarrow> int \<times> int" where
  "widen_group is ie (os, oe) [] = (os, oe)"
| "widen_group is ie (os, oe) ((i, j) # rest) =
     widen_group is ie (if int i = is then min os (int j) else os, if int i = ie then max oe (int j) else oe) rest"

text \<open>One dynamic dimension of the operand of a reshape.\<close>

definition reshape_dim :: "int list \<Rightarrow> int list \<Rightarrow> int \<Rightarrow> (nat \<times> nat) list \<Rightarrow> Shape \<Rightarrow> nat \<Rightarrow> Shape status_or" where
  "reshape_dim ds dims inferred_dimension common_factors out input_dim =
     (case find_group (int input_dim) (zip common_factors (tl common_factors)) of (is, ie, os0, oe0) \<Rightarrow>
      if ie - is > 1 \<and> oe0 - os0 > 1
      then Inl (Unimplemented ''Dynamic input dimension to reshape that is both splitted and combined is not supported'')
      else case widen_group is ie (os0, oe0) common_factors of (os, oe) \<Rightarrow>
        let degenerate = ds ! input_dim = 1 \<and> dims \<noteq> [];
            o1 = (if degenerate then (if input_dim = length ds - 1 then int (length dims) - 1 else if input_dim = 0 then 0 else - 1)
                  else - 1) in
        if degenerate \<and> o1 = - 1
        then Inl (Unimplemented ''Dynamic degenerated dimension that is not most-minor nor most-major is not supported'')
        else
          let o2 = (if o1 = - 1 \<and> oe - os = 1 then os else o1);
              o3 = (if o2 = - 1 \<and> oe - os > 1 then inferred_dimension else o2) in
          if o3 \<noteq> - 1 then set_dynamic_dimension out o3 True
          else case filter (\<lambda>i. dims ! nat i \<noteq> 1) [os..oe - 1] of
                 [i] \<Rightarrow> set_dynamic_dimension out i True
               | _ \<Rightarrow> Inr out)"

definition InferReshapeShape :: "native_limits \<Rightarrow> Shape \<Rightarrow> int list \<Rightarrow> int \<Rightarrow> Shape status_or" where
  "InferReshapeShape L operand dims inferred_dimension =
     bindE (ExpectArray operand) (\<lambda>_.
     bindE (MakeShape L (element_type operand) dims) (\<lambda>inferred_shape.
     bindE (is_unbounded_dynamic inferred_shape) (\<lambda>result_unbounded.
     if result_unbounded then Inl (InternalError ''Reshaping with unbounded result shape is not supported.'')
     else bindE (is_unbounded_dynamic operand) (\<lambda>operand_unbounded.
       if operand_unbounded
       then bindE (is_bounded_dynamic operand) (\<lambda>bounded.
            if bounded then Inl (InternalError ''Reshape operand with bounded and unbounded dynamism not supported.'')
            else Inr inferred_shape)
       else bindE (ElementsIn operand) (\<lambda>a.
            bindE (ElementsIn inferred_shape) (\<lambda>b.
            if a \<noteq> b then Inl (InvalidArgument ''Reshape operation has mismatched element counts'')
            else bindE (array_of operand) (\<lambda>(ds, dy, _).
                 bindE (CommonFactors ds dims) (\<lambda>common_factors.
                   foldE (\<lambda>out (i, b). if \<not> b then Inr out else reshape_dim ds dims inferred_dimension common_factors out i)
                     inferred_shape (zip [0..<length ds] dy)))))))))"


section \<open>Slices have exactly the selected indices\<close>

lemma slice_dim_exact:
  assumes "slice_dim d a b c = Inr n"
  shows "0 \<le> a" "0 < c" "a \<le> b" "d \<noteq> kUnboundedSize \<longrightarrow> b \<le> d" "0 \<le> n" "k < n \<longleftrightarrow> a + k * c < b"
proof -
  have x: "0 \<le> a" "0 < c" "a \<le> b" "d \<noteq> kUnboundedSize \<longrightarrow> b \<le> d" "cdiv (b - a + c - 1) c = Inr n"
    using assms by (auto simp: slice_dim_def IsUnboundedDynamicSize_def bindE_eq_Inr split: if_splits)
  then have n: "n = (b - a + c - 1) div c" by (simp add: cdiv_pos)
  show "0 \<le> a" "0 < c" "a \<le> b" "d \<noteq> kUnboundedSize \<longrightarrow> b \<le> d" using x by simp_all
  show "0 \<le> n" unfolding n using x by (simp add: pos_imp_zdiv_nonneg_iff)
  have "k < n \<longleftrightarrow> k + 1 \<le> (b - a + c - 1) div c" unfolding n by auto
  also have "\<dots> \<longleftrightarrow> (k + 1) * c \<le> b - a + c - 1" by (rule le_div_iff_int [OF x(2)])
  also have "\<dots> \<longleftrightarrow> a + k * c < b" by (auto simp: algebra_simps)
  finally show "k < n \<longleftrightarrow> a + k * c < b" .
qed

text \<open>
  C15. \<open>InferSliceShape\<close> is exact: the size of every dimension of the result is the number of indices
  from the start in steps of the stride below the limit, all of them inside the operand, and the result
  is well formed.
\<close>

theorem InferSliceShape_exact:
  assumes "shape_inv arg" "InferSliceShape L arg starts limits strides = Inr s" "i < rank arg"
  shows "shape_inv s \<and> rank s = rank arg \<and> element_type s = element_type arg \<and>
    (\<forall>k. 0 \<le> k \<and> k < dimensions s ! i \<longleftrightarrow> 0 \<le> k \<and> starts ! i + k * strides ! i < limits ! i) \<and>
    0 \<le> starts ! i \<and> 0 < strides ! i \<and> (dimensions arg ! i \<noteq> kUnboundedSize \<longrightarrow> limits ! i \<le> dimensions arg ! i)"
proof -
  have "IsArrayExcludingBuffer arg"
    using assms(2) by (auto simp: InferSliceShape_def ExpectArray_def bindE_eq_Inr split: if_splits)
  then obtain t ds dy l where a: "arg = Shape t (ArrayState ds dy l)" "length dy = length ds"
    using assms(1) by (metis array_shape_cases)
  obtain sizes where z: "length starts = length ds" "length limits = length ds" "length strides = length ds"
    "mapE (\<lambda>(d, a, b, c). slice_dim d a b c) (zip ds (zip starts (zip limits strides))) = Inr sizes"
    "MakeShape_dynamic L t sizes (map (\<lambda>(n, d, b). n \<noteq> 1 \<and> b \<and> \<not> IsUnboundedDynamicSize d) (zip sizes (zip ds dy))) = Inr s"
    using assms(2) a by (auto simp: InferSliceShape_def bindE_eq_Inr split: if_splits)
  note m = MakeShape_dynamic_array [OF z(5)]
  have all: "list_all2 (\<lambda>x y. (\<lambda>(d, a, b, c). slice_dim d a b c) x = Inr y) (zip ds (zip starts (zip limits strides))) sizes"
    using z(4) by (simp add: mapE_eq_Inr)
  have len: "length sizes = length ds" using list_all2_lengthD [OF all] z(1-3) by simp
  have d: "dimensions s = sizes" using m(3) by (simp add: dimensions_def)
  have i: "i < length ds" using assms(3) a by simp
  have "slice_dim (ds ! i) (starts ! i) (limits ! i) (strides ! i) = Inr (sizes ! i)"
    using list_all2_nthD [OF all, of i] i z(1-3) by simp
  from slice_dim_exact [OF this] m(1,4) d len a i show ?thesis by simp
qed

theorem InferSliceShape_exact_witness:
  "\<exists>s. InferSliceShape ieee_limits (Shape F32 (ArrayState [10, 4] [False, True] None)) [2, 0] [9, 4] [3, 1] = Inr s \<and>
    shape_inv s \<and> (\<forall>k. 0 \<le> k \<and> k < dimensions s ! 0 \<longleftrightarrow> 0 \<le> k \<and> 2 + k * 3 < 9)"
proof -
  let ?a = "Shape F32 (ArrayState [10, 4] [False, True] None)"
  have v: "shape_inv ?a" by (simp add: IsValidDimensionSize_def primitive_class_defs)
  have "isl (InferSliceShape ieee_limits ?a [2, 0] [9, 4] [3, 1]) = False" by code_simp
  then obtain s where s: "InferSliceShape ieee_limits ?a [2, 0] [9, 4] [3, 1] = Inr s"
    by (cases "InferSliceShape ieee_limits ?a [2, 0] [9, 4] [3, 1]") auto
  show ?thesis using InferSliceShape_exact [OF v s, of 0] s by simp
qed

section \<open>Transposing back\<close>

lemma set_minor_to_major_twice: "set_minor_to_major m (set_minor_to_major m' l) = set_minor_to_major m l"
  by (cases l) (simp add: set_minor_to_major_def)

lemma set_minor_to_major_id: "set_minor_to_major (minor_to_major l) l = l"
  by (cases l) (simp add: set_minor_to_major_def)

lemma pick_inverse:
  assumes "IsPermutation p" "length p = length xs"
  shows "pick (pick xs p) (InversePermutation p) = xs"
proof (rule nth_equalityI)
  fix i assume "i < length (pick (pick xs p) (InversePermutation p))"
  then have "i < length p" by (simp add: pick_def)
  with nth_InversePermutation [OF assms(1), of i] show "pick (pick xs p) (InversePermutation p) ! i = xs ! i"
    by (simp add: pick_def)
qed (simp add: pick_def assms)

lemma InversePermutation_involution: "IsPermutation p \<Longrightarrow> InversePermutation (InversePermutation p) = p"
proof (rule nth_equalityI)
  assume p: "IsPermutation p"
  note q = IsPermutation_InversePermutation [OF p]
  fix i assume "i < length (InversePermutation (InversePermutation p))"
  then have i: "i < length p" by simp
  have "InversePermutation p ! nat (p ! i) = int i" by (rule InversePermutation_nth [OF p i])
  moreover have "nat (p ! i) < length p" by (rule IsPermutation_nth(3) [OF p i])
  ultimately have "InversePermutation (InversePermutation p) ! i = int (nat (p ! i))"
    using InversePermutation_nth [OF q, of "nat (p ! i)"] by simp
  then show "InversePermutation (InversePermutation p) ! i = p ! i" using IsPermutation_nth(1) [OF p i] by simp
qed simp

text \<open>
  C37. Transposing by a permutation and then by its inverse gives back the very shape, layout included,
  for every array whose layout orders its dimensions.
\<close>

theorem InferTransposeShape_roundtrip:
  assumes "shape_inv s" "ordered_array s" "IsArrayExcludingBuffer s" "IsPermutation p" "length p = rank s"
  shows "bindE (InferTransposeShape s p) (\<lambda>r. InferTransposeShape r (InversePermutation p)) = Inr s"
proof -
  obtain t ds dy l0 where s: "s = Shape t (ArrayState ds dy l0)" "IsArrayType t" "list_all2 IsValidDimensionSize ds dy"
    "length dy = length ds"
    using assms(1,3) by (metis array_shape_cases)
  obtain l where l: "l0 = Some l" "length (minor_to_major l) = length ds" "IsPermutation (minor_to_major l)"
    using assms(2) s(1) by (auto simp: ordered_array_def)
  have lp: "length p = length ds" using assms(5) s(1) by simp
  note q = IsPermutation_InversePermutation [OF assms(4)]
  let ?m = "map (\<lambda>d. InversePermutation p ! nat d) (minor_to_major l)"
  let ?r = "Shape t (ArrayState (pick ds p) (pick dy p) (Some (set_minor_to_major ?m l)))"
  have arr: "IsArray s" "IsArray ?r" "IsArrayExcludingBuffer ?r" using s by (simp_all add: shape_class_defs)
  have m: "IsPermutation ?m" by (rule IsPermutation_renamed) (use q l lp in auto)
  have "PermuteDimensions p s = Inr ?r"
    using PermuteDimensions_array [of s ds dy l p] arr s l lp assms(4) by (simp add: put_array_state_def)
  then have 1: "InferTransposeShape s p = Inr ?r"
    using assms(3,4) lp s(1) by (simp add: InferTransposeShape_def ExpectArray_def dimsE_def)
  have rng: "\<forall>d\<in>set (minor_to_major l). 0 \<le> d \<and> d < int (length p)" using l lp by (auto simp: IsPermutation_iff)
  have v: "list_all2 IsValidDimensionSize (pick ds p) (pick dy p)" by (rule pick_permutation_valid [OF s(3) assms(4) lp])
  have lens: "length (pick ds p) = length ds" by (simp add: pick_def lp)
  have "PermuteDimensions (InversePermutation p) ?r = Inr s"
  proof -
    have "PermuteDimensions (InversePermutation p) ?r = Inr (put_array_state ?r
        (pick (pick ds p) (InversePermutation p), pick (pick dy p) (InversePermutation p),
         Some (set_minor_to_major (map (\<lambda>d. p ! nat d) ?m) l)))"
      using PermuteDimensions_array [of ?r "pick ds p" "pick dy p" "set_minor_to_major ?m l" "InversePermutation p"]
        arr(2) v q m lens lp l InversePermutation_involution [OF assms(4)] set_minor_to_major_twice by simp
    also have "map (\<lambda>d. p ! nat d) ?m = minor_to_major l" by (rule rename_back [OF assms(4) rng])
    finally show ?thesis
      using pick_inverse [OF assms(4), of ds] pick_inverse [OF assms(4), of dy] lp s(1,4) l(1)
      by (simp add: put_array_state_def set_minor_to_major_id)
  qed
  then have 2: "InferTransposeShape ?r (InversePermutation p) = Inr s"
    using arr(3) q lens lp by (simp add: InferTransposeShape_def ExpectArray_def dimsE_def)
  show ?thesis by (simp only: 1 2 bindE_Inr)
qed

theorem InferTransposeShape_roundtrip_witness:
  "bindE (InferTransposeShape (Shape F32 (ArrayState [2, 3, 5] [False, True, False] (Some (simple_layout [2, 0, 1])))) [1, 2, 0])
     (\<lambda>r. InferTransposeShape r (InversePermutation [1, 2, 0])) =
   Inr (Shape F32 (ArrayState [2, 3, 5] [False, True, False] (Some (simple_layout [2, 0, 1]))))"
proof (rule InferTransposeShape_roundtrip)
  let ?s = "Shape F32 (ArrayState [2, 3, 5] [False, True, False] (Some (simple_layout [2, 0, 1])))"
  show "shape_inv ?s" by (simp add: IsValidDimensionSize_def primitive_class_defs)
  show "ordered_array ?s" by (simp add: ordered_array_def array_state_maybe_underneath_buffer_def simple_layout_def IsPermutation_def)
  show "IsArrayExcludingBuffer ?s" by (simp add: shape_class_defs primitive_class_defs)
  show "IsPermutation [1, 2, 0]" by (simp add: IsPermutation_def)
qed simp

section \<open>Concatenation adds the sizes\<close>

lemma InferConcatenatedDimAndBound_size:
  "InferConcatenatedDimAndBound a b la lb = Inr x \<Longrightarrow>
   db_dimension x = (if a = kUnboundedSize \<or> b = kUnboundedSize then kUnboundedSize else a + b)"
  by (auto simp: InferConcatenatedDimAndBound_def Let_def IsUnboundedDynamicSize_def bindE_eq_Inr split: if_splits)

lemma InferMostSpecificDimAndBound_size:
  "InferMostSpecificDimAndBound a b la lb = Inr x \<Longrightarrow>
   db_dimension x = (if a = kUnboundedSize then b else a) \<and> (a = kUnboundedSize \<or> b = kUnboundedSize \<or> a = b)"
  by (auto simp: InferMostSpecificDimAndBound_def Let_def IsUnboundedDynamicSize_def split: if_splits)

text \<open>The specification: the size of a concatenation along one dimension, and the agreement along the others.\<close>

definition concatenated_size :: "int list \<Rightarrow> int" where
  "concatenated_size sizes = (if kUnboundedSize \<in> set sizes then kUnboundedSize else sum_list sizes)"

definition agreed_size :: "int list \<Rightarrow> int \<Rightarrow> bool" where
  "agreed_size sizes n \<longleftrightarrow> (\<forall>d\<in>set sizes. d = kUnboundedSize \<or> d = n) \<and> (n = kUnboundedSize \<or> n \<in> set sizes)"

lemma concatenated_size_snoc:
  assumes "\<forall>d\<in>set ds. d = kUnboundedSize \<or> 0 \<le> d" "d = kUnboundedSize \<or> 0 \<le> d"
  shows "(if concatenated_size ds = kUnboundedSize \<or> d = kUnboundedSize then kUnboundedSize else concatenated_size ds + d) =
    concatenated_size (ds @ [d])"
proof -
  have "kUnboundedSize \<notin> set ds \<Longrightarrow> 0 \<le> sum_list ds" using assms(1) by (metis sum_list_nonneg)
  moreover have "kUnboundedSize < 0" by (simp add: kUnboundedSize_def kint64min_def)
  ultimately show ?thesis by (auto simp: concatenated_size_def)
qed

lemma agreed_size_snoc:
  "agreed_size ds n \<Longrightarrow> n = kUnboundedSize \<or> d = kUnboundedSize \<or> n = d \<Longrightarrow>
   agreed_size (ds @ [d]) (if n = kUnboundedSize then d else n)"
  by (auto simp: agreed_size_def)

lemma concat_step_nth:
  assumes "concat_step dimension inferred s = Inr inferred'" "i < length inferred"
  shows "length inferred' = length inferred \<and> i < rank s \<and>
    (if int i = dimension
     then db_dimension (inferred' ! i) = (if db_dimension (inferred ! i) = kUnboundedSize \<or> dimensions s ! i = kUnboundedSize
       then kUnboundedSize else db_dimension (inferred ! i) + dimensions s ! i)
     else db_dimension (inferred' ! i) = (if db_dimension (inferred ! i) = kUnboundedSize then dimensions s ! i else db_dimension (inferred ! i)) \<and>
       (db_dimension (inferred ! i) = kUnboundedSize \<or> dimensions s ! i = kUnboundedSize \<or> db_dimension (inferred ! i) = dimensions s ! i))"
proof -
  obtain ds dy l where a: "array_of s = Inr (ds, dy, l)" using assms(1) by (auto simp: concat_step_def bindE_eq_Inr)
  let ?f = "\<lambda>(i, acc).
         bindE (at_index ds (int i)) (\<lambda>d.
         bindE (at_index dy (int i)) (\<lambda>dynamic.
           let right_bound = (if dynamic then d else kUnboundedSize) in
           if int i = dimension
           then InferConcatenatedDimAndBound (db_dimension acc) d (db_bound acc) right_bound
           else InferMostSpecificDimAndBound (db_dimension acc) d (db_bound acc) right_bound))"
  have m: "list_all2 (\<lambda>x y. ?f x = Inr y) (zip [0..<length inferred] inferred) inferred'"
    using assms(1) a by (simp add: concat_step_def mapE_eq_Inr)
  have len: "length inferred' = length inferred" using list_all2_lengthD [OF m] by simp
  have "?f (i, inferred ! i) = Inr (inferred' ! i)" using list_all2_nthD [OF m, of i] assms(2) by simp
  then obtain d dynamic where d: "at_index ds (int i) = Inr d" and
    r: "(if int i = dimension
         then InferConcatenatedDimAndBound (db_dimension (inferred ! i)) d (db_bound (inferred ! i)) (if dynamic then d else kUnboundedSize)
         else InferMostSpecificDimAndBound (db_dimension (inferred ! i)) d (db_bound (inferred ! i)) (if dynamic then d else kUnboundedSize)) =
        Inr (inferred' ! i)"
    by (simp only: bindE_eq_Inr prod.case Let_def) blast
  have "i < rank s" "dimensions s ! i = d" using d a by (auto simp: at_index_def dimensions_def split: if_splits)
  with r len show ?thesis
    by (cases "int i = dimension") (simp_all add: InferConcatenatedDimAndBound_size InferMostSpecificDimAndBound_size)
qed

lemma concat_fold_sizes:
  assumes "foldE (concat_step dimension) inferred args = Inr inferred'" "i < length inferred"
    "db_dimension (inferred ! i) = (if int i = dimension then 0 else kUnboundedSize)"
    "\<And>s. s \<in> set args \<Longrightarrow> shape_inv s \<and> IsArrayExcludingBuffer s"
  shows "length inferred' = length inferred \<and> (if int i = dimension
    then db_dimension (inferred' ! i) = concatenated_size (map (\<lambda>s. dimensions s ! i) args)
    else agreed_size (map (\<lambda>s. dimensions s ! i) args) (db_dimension (inferred' ! i)))"
proof -
  let ?P = "\<lambda>ys x. (\<forall>s\<in>set ys. dimensions s ! i = kUnboundedSize \<or> 0 \<le> dimensions s ! i) \<and>
    length x = length inferred \<and> (if int i = dimension
    then db_dimension (x ! i) = concatenated_size (map (\<lambda>s. dimensions s ! i) ys)
    else agreed_size (map (\<lambda>s. dimensions s ! i) ys) (db_dimension (x ! i)))"
  have "?P args inferred'"
  proof (rule foldE_prefix [OF assms(1)])
    show "?P [] inferred" using assms(3) by (simp add: concatenated_size_def agreed_size_def)
    fix ys s x x' assume s: "s \<in> set args" and p: "?P ys x" and st: "concat_step dimension x s = Inr x'"
    have c: "i < length x" using p assms(2) by simp
    note n = concat_step_nth [OF st c]
    obtain t ds dy l where a: "s = Shape t (ArrayState ds dy l)" "list_all2 IsValidDimensionSize ds dy"
      using assms(4) [OF s] array_shape_cases by metis
    have d: "dimensions s ! i = kUnboundedSize \<or> 0 \<le> dimensions s ! i"
      using n a by (auto simp: list_all2_conv_all_nth IsValidDimensionSize_def)
    show "?P (ys @ [s]) x'"
    proof (cases "int i = dimension")
      case True
      then show ?thesis using n p d concatenated_size_snoc [of "map (\<lambda>s. dimensions s ! i) ys" "dimensions s ! i"] by auto
    next
      case False
      then have "db_dimension (x' ! i) = (if db_dimension (x ! i) = kUnboundedSize then dimensions s ! i else db_dimension (x ! i))"
        "db_dimension (x ! i) = kUnboundedSize \<or> dimensions s ! i = kUnboundedSize \<or> db_dimension (x ! i) = dimensions s ! i"
        "agreed_size (map (\<lambda>s. dimensions s ! i) ys) (db_dimension (x ! i))" using n p by simp_all
      with agreed_size_snoc [OF this(3,2)] False n p d show ?thesis by auto
    qed
  qed
  then show ?thesis by simp
qed

lemma concat_check_array: "concat_check L a dimension s = Inr t \<Longrightarrow> IsArrayExcludingBuffer s"
  by (auto simp: concat_check_def ExpectArray_def bindE_eq_Inr split: if_splits)

text \<open>
  C18. \<open>InferConcatOpShape\<close> is correct on sizes: on well-formed operands a successful result is well
  formed, its size along the concatenated dimension is the sum of the sizes of all operands, or unbounded
  when one of them is, and along every other dimension all operands with a known size have the
  size of the result.
\<close>

theorem InferConcatOpShape_sizes:
  assumes "\<forall>s\<in>set args. shape_inv s" "InferConcatOpShape L args dimension = Inr r" "i < rank r"
  shows "shape_inv r \<and> rank r = rank (hd args) \<and> (if int i = dimension
    then dimensions r ! i = concatenated_size (map (\<lambda>s. dimensions s ! i) args)
    else agreed_size (map (\<lambda>s. dimensions s ! i) args) (dimensions r ! i))"
proof (cases args)
  case (Cons a rest)
  obtain ad where ad: "dimsE a = Inr ad" using assms(2) Cons by (auto simp: InferConcatOpShape_def bindE_eq_Inr)
  let ?init = "(replicate (length ad) \<lparr>db_dimension = kUnboundedSize, db_bound = kUnboundedSize\<rparr>)
                     [nat dimension := \<lparr>db_dimension = 0, db_bound = kUnboundedSize\<rparr>]"
  obtain ty inferred s where
    b: "0 \<le> dimension" "dimension < int (length ad)" and
    e: "IsArrayExcludingBuffer a" and
    c: "foldE (\<lambda>_ s. concat_check L a dimension s) (element_type a) rest = Inr ty" and
    f: "foldE (concat_step dimension) ?init args = Inr inferred" and
    m: "MakeShape L ty (map db_dimension inferred) = Inr s" and
    r: "mark_flags s (zip [0..<length inferred]
                   (map (\<lambda>x. \<not> IsUnboundedDynamicSize (db_bound x) \<or> IsUnboundedDynamicSize (db_dimension x)) inferred)) = Inr r"
    using assms(2) ad unfolding InferConcatOpShape_def ExpectArray_def Cons list.case
    by (simp only: bindE_eq_Inr if_Inl_eq_Inr) (auto split: if_splits)
  have arr: "shape_inv x \<and> IsArrayExcludingBuffer x" if "x \<in> set args" for x
    using that assms(1) e foldE_all [OF c, of x] Cons by (auto dest: concat_check_array)
  obtain dyn where md: "MakeShape_dynamic L ty (map db_dimension inferred) dyn = Inr s"
    using m by (auto simp: MakeShape_def MakeShape_dynamic_def MakeValidatedShape_def)
  note ms = MakeShape_dynamic_array [OF md]
  obtain t ds dy l where s: "s = Shape t (ArrayState ds dy l)" "list_all2 IsValidDimensionSize ds dy" "IsArrayType t"
    using array_shape_cases [OF ms(1,2)] by metis
  have ds: "ds = map db_dimension inferred" using ms(3) s by simp
  let ?fl = "map (\<lambda>x. \<not> IsUnboundedDynamicSize (db_bound x) \<or> IsUnboundedDynamicSize (db_dimension x)) inferred"
  have rr: "r = Shape t (ArrayState ds (map2 (\<or>) dy ?fl) l)"
    using r mark_flags_array [OF s(2), of ?fl t l] ds s(1) by simp
  have inv: "shape_inv r" using valid_or_flags [OF s(2), of ?fl] s(3) rr ds ms(1) s(1) by simp
  have i: "i < length inferred" using assms(3) rr ds by simp
  have "length ?init = length ad" by simp
  have li: "length inferred = length ad"
    using concat_fold_sizes [OF f, of "nat dimension"] b arr by simp
  have "db_dimension (?init ! i) = (if int i = dimension then 0 else kUnboundedSize)"
    using i li b by (auto simp: nth_list_update)
  from concat_fold_sizes [OF f _ this arr] i li
  have "if int i = dimension
    then db_dimension (inferred ! i) = concatenated_size (map (\<lambda>s. dimensions s ! i) args)
    else agreed_size (map (\<lambda>s. dimensions s ! i) args) (db_dimension (inferred ! i))" by simp
  moreover have "rank (hd args) = length ad" using ad Cons by (auto simp: dimsE_def dimensions_def bindE_eq_Inr)
  ultimately show ?thesis using inv rr ds i li by simp
qed (use assms(2) in \<open>simp add: InferConcatOpShape_def\<close>)

theorem InferConcatOpShape_sizes_witness:
  "\<exists>r. InferConcatOpShape ieee_limits [Shape F32 (ArrayState [2, 3] [False, False] None), Shape F32 (ArrayState [2, 5] [True, False] None)] 1 = Inr r \<and>
    shape_inv r \<and> rank r = 2"
proof -
  let ?l = "[Shape F32 (ArrayState [2, 3] [False, False] None), Shape F32 (ArrayState [2, 5] [True, False] None)]"
  have v: "\<forall>s\<in>set ?l. shape_inv s" by (simp add: IsValidDimensionSize_def primitive_class_defs)
  have "(case InferConcatOpShape ieee_limits ?l 1 of Inl _ \<Rightarrow> False | Inr r \<Rightarrow> dimensions r = [2, 8])" by code_simp
  then obtain r where r: "InferConcatOpShape ieee_limits ?l 1 = Inr r" "dimensions r = [2, 8]"
    by (cases "InferConcatOpShape ieee_limits ?l 1") auto
  show ?thesis using InferConcatOpShape_sizes [OF v r(1), of 1] r by simp
qed

lemma concat_type_of_first_and_last:
  "map_sum id element_type (InferConcatOpShape ieee_limits [Shape BF16 (ArrayState [1] [False] None), Shape F32 (ArrayState [1] [False] None),
     Shape BF16 (ArrayState [1] [False] None)] 0) = Inr BF16"
  by code_simp

text \<open>The two tests of a dimension size operand are joined by \<open>&&\<close>: a floating-point scalar passes.\<close>

lemma dynamic_reshape_accepts_float_size:
  "map_sum id dimensions (InferDynamicReshapeShape ieee_limits (Shape F32 (ArrayState [6] [False] None))
     [Shape F32 (ArrayState [] [] None)] [6] [True]) = Inr [6]"
  by code_simp

end
