(* ===== verification/WindowUtil.thy ===== *)
theory WindowUtil
  imports ShapeInferenceDims
begin

text \<open>
  \<open>xla/window_util.{h,cc}\<close> and the messages \<open>WindowDimension\<close> and \<open>Window\<close> of \<open>xla_data.proto\<close>: sliding
  windows with stride, padding and dilation. A \<open>Window\<close> is the list of its dimensions.
\<close>

record WindowDimension =
  window_size :: int
  stride :: int
  padding_low :: int
  padding_high :: int
  window_dilation :: int
  base_dilation :: int
  window_reversal :: bool

type_synonym Window = "WindowDimension list"

definition MakeWindow :: "int list \<Rightarrow> Window" where
  "MakeWindow sizes = map (\<lambda>s. \<lparr>window_size = s, stride = 1, padding_low = 0, padding_high = 0,
     window_dilation = 1, base_dilation = 1, window_reversal = False\<rparr>) sizes"

definition MakeWindow_strided :: "int list \<Rightarrow> int list \<Rightarrow> Window status_or" where
  "MakeWindow_strided sizes strides =
     (if length sizes \<noteq> length strides then Inl (CheckFailed ''sizes.size() == strides.size()'')
      else Inr (map2 (\<lambda>s t. \<lparr>window_size = s, stride = t, padding_low = 0, padding_high = 0,
             window_dilation = 1, base_dilation = 1, window_reversal = False\<rparr>) sizes strides))"

definition MakeSymmetricPadding :: "int list \<Rightarrow> PaddingConfigDimension list" where
  "MakeSymmetricPadding sizes = map (\<lambda>s. \<lparr>edge_padding_low = s, edge_padding_high = s, interior_padding = 0\<rparr>) sizes"

definition HasStride :: "Window \<Rightarrow> bool" where
  "HasStride window \<longleftrightarrow> list_ex (\<lambda>d. stride d \<noteq> 1) window"

definition HasPadding :: "Window \<Rightarrow> bool" where
  "HasPadding window \<longleftrightarrow> list_ex (\<lambda>d. padding_low d \<noteq> 0 \<or> padding_high d \<noteq> 0) window"

definition HasSymmetricPadding :: "Window \<Rightarrow> bool" where
  "HasSymmetricPadding window \<longleftrightarrow> list_all (\<lambda>d. padding_low d = padding_high d) window"

definition HasSymmetricPadding_config :: "PaddingConfigDimension list \<Rightarrow> bool" where
  "HasSymmetricPadding_config config \<longleftrightarrow> list_all (\<lambda>d. edge_padding_low d = edge_padding_high d) config"

definition HasNegativePadding :: "Window \<Rightarrow> bool" where
  "HasNegativePadding window \<longleftrightarrow> list_ex (\<lambda>d. padding_low d < 0 \<or> padding_high d < 0) window"

definition HasBaseDilation :: "Window \<Rightarrow> bool" where
  "HasBaseDilation window \<longleftrightarrow> list_ex (\<lambda>d. base_dilation d \<noteq> 1) window"

definition HasWindowDilation :: "Window \<Rightarrow> bool" where
  "HasWindowDilation window \<longleftrightarrow> list_ex (\<lambda>d. window_dilation d \<noteq> 1) window"

definition HasWindowReversal :: "Window \<Rightarrow> bool" where
  "HasWindowReversal window \<longleftrightarrow> list_ex window_reversal window"

definition AllOrNoneReversed :: "Window \<Rightarrow> bool" where
  "AllOrNoneReversed window \<longleftrightarrow>
     (case window of [] \<Rightarrow> True | d # _ \<Rightarrow> list_all (\<lambda>x. window_reversal x = window_reversal d) window)"

definition HasDilation :: "Window \<Rightarrow> bool" where
  "HasDilation window \<longleftrightarrow> HasBaseDilation window \<or> HasWindowDilation window"

definition IsTrivialWindowDimension :: "WindowDimension \<Rightarrow> bool" where
  "IsTrivialWindowDimension d \<longleftrightarrow> window_size d = 1 \<and> stride d = 1 \<and> padding_low d = 0 \<and> padding_high d = 0 \<and>
     window_dilation d = 1 \<and> base_dilation d = 1"

definition HasOverlappingWindow :: "Window \<Rightarrow> bool" where
  "HasOverlappingWindow window \<longleftrightarrow> list_ex (\<lambda>d. window_size d > stride d) window"

definition DilatedBound :: "int \<Rightarrow> int \<Rightarrow> int status_or" where
  "DilatedBound bound dilation =
     (if \<not> bound \<ge> 0 then Inl (CheckFailed ''bound >= 0'')
      else if \<not> dilation \<ge> 1 then Inl (CheckFailed ''dilation >= 1'')
      else if bound = 0 then Inr 0
      else case OverflowSafeMultiply_int (bound - 1) dilation of
             (product, overflow) \<Rightarrow>
               if overflow then Inl (CheckFailed ''DilatedBound overflow'') else signed64 (product + 1))"

definition StridedBound :: "int \<Rightarrow> int \<Rightarrow> int \<Rightarrow> int status_or" where
  "StridedBound bound w str =
     (if \<not> w \<ge> 0 then Inl (CheckFailed ''window_size >= 0'')
      else if \<not> bound \<ge> 0 then Inl (CheckFailed ''bound >= 0'')
      else if \<not> str \<ge> 1 then Inl (CheckFailed ''stride >= 1'')
      else if bound = 0 \<or> w > bound then Inr 0
      else bindE (cdiv (bound - w) str) (\<lambda>q. signed64 (q + 1)))"

section \<open>What the bounds count\<close>

text \<open>A dilated array of \<open>bound\<close> entries ends at its last entry.\<close>

lemma DilatedBound_exact:
  assumes "in_int64 bound" "in_int64 dilation" "DilatedBound bound dilation = Inr n"
  shows "0 \<le> bound" "1 \<le> dilation" "n = (if bound = 0 then 0 else (bound - 1) * dilation + 1)"
proof -
  show b: "0 \<le> bound" "1 \<le> dilation" using assms(3) by (auto simp: DilatedBound_def split: if_splits)
  have r: "in_int64 (bound - 1)" using assms(1) b by (simp add: in_int64_def kint64min_def)
  show "n = (if bound = 0 then 0 else (bound - 1) * dilation + 1)"
    using assms(3) b OverflowSafeMultiply_int_ok(2) [OF r assms(2)]
    by (cases "OverflowSafeMultiply_int (bound - 1) dilation") (auto simp: DilatedBound_def split: if_splits)
qed

text \<open>The windows at offsets that are multiples of the stride and that fit below the bound.\<close>

lemma StridedBound_exact:
  assumes "StridedBound bound w str = Inr n"
  shows "0 \<le> n" "0 < bound \<Longrightarrow> 0 \<le> k \<Longrightarrow> k < n \<longleftrightarrow> k * str + w \<le> bound"
proof -
  have g: "0 \<le> w" "0 \<le> bound" "1 \<le> str" using assms by (auto simp: StridedBound_def split: if_splits)
  have "0 \<le> n \<and> (0 < bound \<and> 0 \<le> k \<longrightarrow> (k < n \<longleftrightarrow> k * str + w \<le> bound))"
  proof (cases "bound = 0 \<or> w > bound")
    case True
    then have n: "n = 0" using assms g by (auto simp: StridedBound_def)
    have "0 \<le> k \<Longrightarrow> 0 \<le> k * str" using g by simp
    then show ?thesis using True n by fastforce
  next
    case False
    then have n: "n = (bound - w) div str + 1"
      using assms g by (auto simp: StridedBound_def bindE_eq_Inr cdiv_pos)
    have "k < n \<longleftrightarrow> k \<le> (bound - w) div str" unfolding n by auto
    also have "\<dots> \<longleftrightarrow> k * str \<le> bound - w" by (rule le_div_iff_int) (use g in simp)
    finally show ?thesis using False g unfolding n by (auto simp: pos_imp_zdiv_nonneg_iff)
  qed
  then show "0 \<le> n" "0 < bound \<Longrightarrow> 0 \<le> k \<Longrightarrow> k < n \<longleftrightarrow> k * str + w \<le> bound" by simp_all
qed

end
