(* ===== verification/ShapeInferenceReduce.thy ===== *)
theory ShapeInferenceReduce
  imports WindowUtil
begin

text \<open>
  \<open>xla/service/shape_inference.cc\<close>, third part: reductions, windows, collectives, transforms and linear
  algebra.
\<close>

section \<open>Helpers of \<open>shape_util\<close>\<close>

definition TupleElementCount :: "Shape \<Rightarrow> nat status_or" where
  "TupleElementCount s =
     (if \<not> IsTuple s then Inl (CheckFailed ''shape.IsTuple()'') else Inr (length (tuple_shapes s)))"

definition GetTupleElementShape :: "Shape \<Rightarrow> nat \<Rightarrow> Shape status_or" where
  "GetTupleElementShape s index =
     bindE (TupleElementCount s) (\<lambda>n.
       if \<not> n > index then Inl (CheckFailed ''TupleElementCount(shape) > index'') else Inr (tuple_shapes s ! index))"

text \<open>The operand itself when there is one, and the tuple of the operands otherwise.\<close>

definition one_or_tuple :: "native_limits \<Rightarrow> Shape list \<Rightarrow> Shape status_or" where
  "one_or_tuple L shapes = (if length shapes = 1 then Inr (shapes ! 0) else MakeTupleShape L shapes)"

section \<open>Reducers\<close>

definition verify_reducer_input :: "native_limits \<Rightarrow> ProgramShape \<Rightarrow> Shape list \<Rightarrow> Shape list \<Rightarrow> PrimitiveType list \<Rightarrow> nat \<Rightarrow> nat \<Rightarrow> unit status_or" where
  "verify_reducer_input L reducer accumulators init_values types inputs i =
     bindE (at_index accumulators (int i)) (\<lambda>acc.
     bindE (at_index (parameters reducer) (int i)) (\<lambda>p.
     if \<not> Compatible acc p then Inl (InvalidArgument ''Reduction function's parameter shape differs from the result shape'')
     else bindE (at_index init_values (int i)) (\<lambda>init.
     if \<not> CompatibleIgnoringFpPrecision acc init
     then Inl (InvalidArgument ''Reduction function's accumulator shape differs from the init_value shape'')
     else bindE (at_index types (int i)) (\<lambda>t.
          bindE (MakeShape L t []) (\<lambda>input_element_shape.
          bindE (at_index (parameters reducer) (int (inputs + i))) (\<lambda>q.
          if \<not> CompatibleIgnoringFpPrecision input_element_shape q
          then Inl (InvalidArgument ''Reduction function's parameter shape differs from the input type element type'')
          else if \<not> CompatibleIgnoringFpPrecision acc q
          then Inl (InvalidArgument ''Reduction function's parameter shape must match the result shape'')
          else Inr ()))))))"

definition VerifyReducerShape :: "native_limits \<Rightarrow> ProgramShape \<Rightarrow> Shape list \<Rightarrow> PrimitiveType list \<Rightarrow> nat \<Rightarrow> unit status_or" where
  "VerifyReducerShape L reducer init_values types inputs =
     (if length (parameters reducer) \<noteq> inputs * 2
      then Inl (InvalidArgument ''Reduction function takes a wrong number of parameters'')
      else
        let acc = result reducer in
        bindE (if IsArrayExcludingBuffer acc
               then if inputs \<noteq> 1 then Inl (InvalidArgument ''Reduction function must produce a tuple, but produces a scalar'')
                    else Inr [acc]
               else if IsTuple acc
               then bindE (TupleElementCount acc) (\<lambda>n.
                    if n \<noteq> inputs then Inl (InvalidArgument ''Reduction function must produce a tuple with as many elements as inputs'')
                    else Inr (tuple_shapes acc))
               else Inl (InvalidArgument ''Reduction function must produce a scalar or tuple of scalars'')) (\<lambda>accumulators.
        bindE (for_each (\<lambda>s. bindE (dimsE s) (\<lambda>ds.
            if ds \<noteq> [] then Inl (InvalidArgument ''Reduction function must return a scalar or tuple of scalars'') else Inr ())) accumulators) (\<lambda>_.
          for_each (verify_reducer_input L reducer accumulators init_values types inputs) [0..<inputs])))"

definition InferReduceShape :: "native_limits \<Rightarrow> Shape list \<Rightarrow> int list \<Rightarrow> ProgramShape \<Rightarrow> Shape status_or" where
  "InferReduceShape L arg_shapes dimensions_to_reduce to_apply =
     (if arg_shapes = [] then Inl (InvalidArgument ''Reduce must have at least 2 arguments, has 0'')
      else if length arg_shapes mod 2 \<noteq> 0 then Inl (InvalidArgument ''Reduce must have an even number of arguments'')
      else
        let num_reduced_args = length arg_shapes div 2;
            reduced_args = take num_reduced_args arg_shapes;
            arg = reduced_args ! 0 in
        bindE (for_each (\<lambda>s. bindE (SameDimensions arg s) (\<lambda>same.
            if \<not> same then Inl (InvalidArgument ''All reduced tensors must have compatible dimension.'') else Inr ())) (tl reduced_args)) (\<lambda>_.
        bindE (for_each (\<lambda>d. bindE (dimsE arg) (\<lambda>ds.
            if d \<ge> int (length ds) \<or> d < 0 then Inl (InvalidArgument ''Reducing out-of-bounds dimension'') else Inr ())) dimensions_to_reduce) (\<lambda>_.
        bindE (VerifyReducerShape L to_apply (drop num_reduced_args arg_shapes) (map element_type reduced_args) num_reduced_args) (\<lambda>_.
        if \<not> distinct dimensions_to_reduce then Inl (InvalidArgument ''Duplicate reduction dimension'')
        else bindE (array_of arg) (\<lambda>(ds, dy, _).
          let kept = filter (\<lambda>i. int i \<notin> set dimensions_to_reduce) [0..<length ds];
              new_dimensions = map (\<lambda>i. ds ! i) kept;
              new_is_dynamic = map (\<lambda>i. dy ! i) kept in
          bindE (IsScalar (result to_apply)) (\<lambda>scalar.
          if scalar then MakeShape_dynamic L (element_type (result to_apply)) new_dimensions new_is_dynamic
          else bindE (mapE (\<lambda>s. MakeShape_dynamic L (element_type s) new_dimensions new_is_dynamic) (tuple_shapes (result to_apply)))
                 (MakeTupleShape L)))))))"

section \<open>Windows\<close>

definition window_output_dim :: "int \<times> WindowDimension \<Rightarrow> int status_or" where
  "window_output_dim p =
     (case p of (d, dim) \<Rightarrow>
      if window_size dim \<le> 0 then Inl (InvalidArgument ''Window has a non-positive dimension.'')
      else if stride dim \<le> 0 then Inl (InvalidArgument ''Window has a non-positive stride.'')
      else if base_dilation dim < 1 then Inl (InvalidArgument ''Window has a non-positive base area dilation factor.'')
      else if window_dilation dim < 1 then Inl (InvalidArgument ''Window has a non-positive window dilation factor.'')
      else if IsUnboundedDynamicSize d then Inr kUnboundedSize
      else bindE (DilatedBound d (base_dilation dim)) (\<lambda>dilated_base.
           bindE (signed64 (padding_low dim + dilated_base)) (\<lambda>x.
           bindE (signed64 (x + padding_high dim)) (\<lambda>padded_dilated_base.
           bindE (DilatedBound (window_size dim) (window_dilation dim)) (\<lambda>dilated_window.
             StridedBound padded_dilated_base dilated_window (stride dim))))))"

definition InferWindowOutputShape :: "native_limits \<Rightarrow> Shape \<Rightarrow> Window \<Rightarrow> PrimitiveType \<Rightarrow> Shape status_or" where
  "InferWindowOutputShape L base_shape window t =
     bindE (array_of base_shape) (\<lambda>(ds, dy, _).
     if length window \<noteq> length ds then Inl (InvalidArgument ''Window has another number of dimensions than the base shape'')
     else bindE (mapE window_output_dim (zip ds window)) (\<lambda>output_dimensions.
            MakeValidatedShape_dynamic L t output_dimensions dy))"

definition InferReduceWindowShape_single :: "native_limits \<Rightarrow> Shape \<Rightarrow> Shape \<Rightarrow> Window \<Rightarrow> Shape status_or" where
  "InferReduceWindowShape_single L operand_shape init_value_shape window =
     bindE (ExpectArray operand_shape) (\<lambda>_. InferWindowOutputShape L operand_shape window (element_type init_value_shape))"

definition InferReduceWindowShape :: "native_limits \<Rightarrow> Shape \<Rightarrow> Shape \<Rightarrow> Window \<Rightarrow> ProgramShape \<Rightarrow> Shape status_or" where
  "InferReduceWindowShape L operand_shape init_value_shape window to_apply_shape =
     bindE (VerifyReducerShape L to_apply_shape [init_value_shape] [element_type operand_shape] 1) (\<lambda>_.
       InferReduceWindowShape_single L operand_shape init_value_shape window)"

definition InferReduceWindowShape_variadic :: "native_limits \<Rightarrow> Shape list \<Rightarrow> Shape list \<Rightarrow> Window \<Rightarrow> ProgramShape \<Rightarrow> Shape status_or" where
  "InferReduceWindowShape_variadic L operands init_values window to_apply_shape =
     bindE (for_each (\<lambda>s. bindE (SameDimensions (operands ! 0) s) (\<lambda>same.
         if \<not> same then Inl (InvalidArgument ''All reduced tensors must have the same dimension.'') else Inr ())) (tl operands)) (\<lambda>_.
     bindE (VerifyReducerShape L to_apply_shape init_values (map element_type operands) (length operands)) (\<lambda>_.
     bindE (mapE (\<lambda>(i, s). bindE (at_index init_values (int i)) (\<lambda>init. InferReduceWindowShape_single L s init window))
       (zip [0..<length operands] operands)) (\<lambda>outputs.
     bindE (IsScalar (result to_apply_shape)) (\<lambda>scalar.
     if scalar
     then if length outputs \<noteq> 1 then Inl (CheckFailed ''output_shape_vec.size() == 1'') else Inr (outputs ! 0)
     else MakeTupleShape L outputs))))"

definition InferSelectAndScatterShape ::
  "native_limits \<Rightarrow> Shape \<Rightarrow> ProgramShape \<Rightarrow> Window \<Rightarrow> Shape \<Rightarrow> Shape \<Rightarrow> ProgramShape \<Rightarrow> Shape status_or" where
  "InferSelectAndScatterShape L operand_shape select_shape window source_shape init_value_shape scatter_shape =
     bindE (ExpectArray operand_shape) (\<lambda>_.
     if length (parameters select_shape) \<noteq> 2 then Inl (InvalidArgument ''Select function must take 2 parameters'')
     else bindE (MakeShape L PRED []) (\<lambda>pred.
     if \<not> Compatible (result select_shape) pred then Inl (InvalidArgument ''Select function must have rank-0 PRED result.'')
     else bindE (MakeShape L (element_type operand_shape) []) (\<lambda>operand_element_shape.
     if \<not> CompatibleIgnoringFpPrecision operand_element_shape (parameters select_shape ! 0)
     then Inl (InvalidArgument ''Select function's first parameter shape currently must match the operand element shape'')
     else if \<not> CompatibleIgnoringFpPrecision operand_element_shape (parameters select_shape ! 1)
     then Inl (InvalidArgument ''Select function's second parameter shape currently must match the operand element shape'')
     else bindE (VerifyReducerShape L scatter_shape [init_value_shape] [element_type source_shape] 1) (\<lambda>_.
          bindE (InferWindowOutputShape L operand_shape window (element_type operand_shape)) (\<lambda>window_result_shape.
          if \<not> CompatibleIgnoringFpPrecision source_shape window_result_shape
          then Inl (InvalidArgument ''Source shape does not match the shape of window-reduced operand'')
          else Inr operand_shape)))))"

definition verify_size :: "nat \<Rightarrow> nat \<Rightarrow> unit status_or" where
  "verify_size n x =
     (if x = 0 \<or> x = n then Inr () else Inl (InvalidArgument ''Window has different number of window dimensions''))"

definition InferWindowFromDimensions ::
  "int list \<Rightarrow> int list \<Rightarrow> (int \<times> int) list \<Rightarrow> int list \<Rightarrow> int list \<Rightarrow> bool list option \<Rightarrow> Window status_or" where
  "InferWindowFromDimensions window_dimensions window_strides padding lhs_dilation rhs_dilation reversal =
     (let n = length window_dimensions in
      bindE (verify_size n (length window_strides)) (\<lambda>_.
      bindE (verify_size n (length padding)) (\<lambda>_.
      bindE (verify_size n (length lhs_dilation)) (\<lambda>_.
      bindE (verify_size n (length rhs_dilation)) (\<lambda>_.
      bindE (case reversal of Some r \<Rightarrow> verify_size n (length r) | None \<Rightarrow> Inr ()) (\<lambda>_.
        Inr (map (\<lambda>i. \<lparr>window_size = window_dimensions ! i,
               stride = (if window_strides \<noteq> [] then window_strides ! i else 1),
               padding_low = (if padding \<noteq> [] then fst (padding ! i) else 0),
               padding_high = (if padding \<noteq> [] then snd (padding ! i) else 0),
               window_dilation = (if rhs_dilation \<noteq> [] then rhs_dilation ! i else 1),
               base_dilation = (if lhs_dilation \<noteq> [] then lhs_dilation ! i else 1),
               window_reversal = (case reversal of Some r \<Rightarrow> r \<noteq> [] \<and> r ! i | None \<Rightarrow> False)\<rparr>) [0..<n])))))))"


section \<open>Collectives\<close>

definition all_gather_output :: "int \<Rightarrow> int \<Rightarrow> Shape \<Rightarrow> Shape status_or" where
  "all_gather_output all_gather_dimension shard_count operand_shape =
     bindE (dimsE operand_shape) (\<lambda>ds.
     if \<not> all_gather_dimension < int (length ds) then Inl (InternalError ''all_gather_dimension < dimensions().size()'')
     else bindE (ExpectArray operand_shape) (\<lambda>_.
          bindE (at_index ds all_gather_dimension) (\<lambda>d.
          if IsUnboundedDynamicSize d then set_dimensions operand_shape all_gather_dimension kUnboundedSize (Some True)
          else case OverflowSafeMultiply_int shard_count d of
                 (ag_product, ag_overflow) \<Rightarrow>
                   if ag_overflow then Inl (InvalidArgument ''AllGather dimension overflow'')
                   else set_dimensions operand_shape all_gather_dimension ag_product (Some False))))"

definition InferAllGatherShape :: "native_limits \<Rightarrow> Shape list \<Rightarrow> int \<Rightarrow> int \<Rightarrow> Shape status_or" where
  "InferAllGatherShape L operand_shapes all_gather_dimension shard_count =
     (if \<not> all_gather_dimension \<ge> 0 then Inl (InternalError ''all_gather_dimension >= 0'')
      else if \<not> shard_count > 0 then Inl (InternalError ''shard_count > 0'')
      else bindE (mapE (all_gather_output all_gather_dimension shard_count) operand_shapes) (one_or_tuple L))"

definition InferAllGatherStartShape :: "native_limits \<Rightarrow> Shape list \<Rightarrow> int \<Rightarrow> int \<Rightarrow> Shape status_or" where
  "InferAllGatherStartShape L operand_shapes all_gather_dimension shard_count =
     bindE (InferAllGatherShape L operand_shapes all_gather_dimension shard_count) (\<lambda>ag_shape.
     bindE (one_or_tuple L operand_shapes) (\<lambda>input_shape. MakeTupleShape L [input_shape, ag_shape]))"

definition InferAllGatherDoneShape :: "Shape \<Rightarrow> Shape status_or" where
  "InferAllGatherDoneShape s = GetTupleElementShape s 1"

definition InferAllReduceShape :: "native_limits \<Rightarrow> Shape list \<Rightarrow> Shape status_or" where
  "InferAllReduceShape L operand_shapes = bindE (for_each ExpectArray operand_shapes) (\<lambda>_. one_or_tuple L operand_shapes)"

definition reduce_scatter_output :: "int \<Rightarrow> int \<Rightarrow> Shape \<Rightarrow> Shape status_or" where
  "reduce_scatter_output scatter_dimension shard_count operand_shape =
     bindE (dimsE operand_shape) (\<lambda>ds.
     if \<not> scatter_dimension < int (length ds) then Inl (InternalError ''scatter_dimension < dimensions().size()'')
     else bindE (ExpectArray operand_shape) (\<lambda>_.
          bindE (at_index ds scatter_dimension) (\<lambda>d.
          bindE (cmod d shard_count) (\<lambda>rem.
          if rem \<noteq> 0 then Inl (InvalidArgument ''ReduceScatter operand scatter dimension size must be dividable by shard_count'')
          else bindE (array_of operand_shape) (\<lambda>(_, dy, _).
               bindE (at_index dy scatter_dimension) (\<lambda>is_dynamic.
               bindE (if is_dynamic then Inr kUnboundedSize else cdiv d shard_count) (\<lambda>n.
                 set_dimensions operand_shape scatter_dimension n (Some is_dynamic))))))))"

definition InferReduceScatterShape :: "native_limits \<Rightarrow> Shape list \<Rightarrow> int \<Rightarrow> int \<Rightarrow> Shape status_or" where
  "InferReduceScatterShape L operand_shapes scatter_dimension shard_count =
     (if \<not> scatter_dimension \<ge> 0 then Inl (InternalError ''scatter_dimension >= 0'')
      else if \<not> shard_count > 0 then Inl (InternalError ''shard_count > 0'')
      else bindE (mapE (reduce_scatter_output scatter_dimension shard_count) operand_shapes) (one_or_tuple L))"

definition InferAllReduceStartShape :: "native_limits \<Rightarrow> Shape list \<Rightarrow> Shape status_or" where
  "InferAllReduceStartShape L operand_shapes = InferAllReduceShape L operand_shapes"

definition InferAllReduceDoneShape :: "Shape \<Rightarrow> Shape status_or" where
  "InferAllReduceDoneShape s = Inr s"

definition InferAllToAllShape :: "native_limits \<Rightarrow> Shape \<Rightarrow> int \<Rightarrow> int \<Rightarrow> int \<Rightarrow> Shape status_or" where
  "InferAllToAllShape L s split_dimension concat_dimension split_count =
     (if \<not> split_count > 0 then Inl (InternalError ''split_count > 0'')
      else bindE (is_bounded_dynamic s) (\<lambda>bounded.
      if bounded then Inl (InternalError ''AllToAll does not support bounded dynamic shapes'')
      else bindE (array_of s) (\<lambda>(ds, dy, _).
      if split_dimension < 0 \<or> split_dimension \<ge> int (length ds)
      then Inl (InvalidArgument ''AllToAll split_dimension is out-of-bounds'')
      else if concat_dimension < 0 \<or> concat_dimension \<ge> int (length ds)
      then Inl (InvalidArgument ''AllToAll concat_dimension is out-of-bounds'')
      else
        let d = ds ! nat split_dimension in
        bindE (if IsUnboundedDynamicSize d then Inr 0 else cmod d split_count) (\<lambda>rem.
        if rem \<noteq> 0 then Inl (InvalidArgument ''AllToAll split dimension size must be dividable by split_count'')
        else bindE (if IsUnboundedDynamicSize d then Inr kUnboundedSize else cdiv d split_count) (\<lambda>n.
          let nds = ds[nat split_dimension := n];
              c = nds ! nat concat_dimension in
          if IsUnboundedDynamicSize c then MakeShape_dynamic L (element_type s) nds dy
          else case OverflowSafeMultiply_int c split_count of
                 (ata_product, ata_overflow) \<Rightarrow>
                   if ata_overflow then Inl (InvalidArgument ''AllToAll concat dimension overflow'')
                   else MakeShape_dynamic L (element_type s) (nds[nat concat_dimension := ata_product]) dy)))))"

definition InferAllToAllTupleShape :: "native_limits \<Rightarrow> Shape list \<Rightarrow> Shape status_or" where
  "InferAllToAllTupleShape L operand_shapes =
     (if operand_shapes = [] then Inl (InternalError ''!operand_shapes.empty()'')
      else bindE (for_each (\<lambda>s. bindE (is_unbounded_dynamic s) (\<lambda>unbounded.
             if unbounded then Inl (InvalidArgument ''AllToAllTuple does not support unbounded dynamic shapes'')
             else if \<not> Shape_Equal (Shape_Equal_default\<lparr>ignore_memory_space_in_layout := True\<rparr>) (operand_shapes ! 0) s
             then Inl (InvalidArgument ''HLO all-to-all has operands with different shapes'')
             else Inr ())) operand_shapes) (\<lambda>_. InferVariadicOpShape L kTuple operand_shapes))"

definition InferRaggedAllToAllShape :: "Shape list \<Rightarrow> Shape status_or" where
  "InferRaggedAllToAllShape operand_shapes =
     bindE (at_index operand_shapes 1) (\<lambda>s. bindE (ExpectArray s) (\<lambda>_. Inr s))"

definition InferCollectiveBroadcastShape :: "Shape list \<Rightarrow> Shape status_or" where
  "InferCollectiveBroadcastShape operand_shapes =
     bindE (at_index operand_shapes 0) (\<lambda>s. bindE (ExpectArray s) (\<lambda>_. Inr s))"

definition InferCollectivePermuteShape :: "native_limits \<Rightarrow> Shape list \<Rightarrow> bool \<Rightarrow> Shape status_or" where
  "InferCollectivePermuteShape L operand_shapes inplace =
     (if \<not> inplace then bindE (for_each ExpectArray operand_shapes) (\<lambda>_. one_or_tuple L operand_shapes)
      else if length operand_shapes \<noteq> 4 then Inl (InternalError ''operand_shapes.size() == 4'')
      else Inr (operand_shapes ! 1))"

definition InferCollectivePermuteStartShape :: "native_limits \<Rightarrow> Shape list \<Rightarrow> Shape list \<Rightarrow> bool \<Rightarrow> Shape status_or" where
  "InferCollectivePermuteStartShape L operand_shapes context_shapes inplace =
     bindE (if \<not> inplace
            then if length operand_shapes = 1
                 then bindE (ExpectArray (operand_shapes ! 0)) (\<lambda>_. Inr [operand_shapes ! 0, operand_shapes ! 0])
                 else bindE (MakeTupleShape L operand_shapes) (\<lambda>t. Inr [t, t])
            else if length operand_shapes \<noteq> 4 then Inl (InternalError ''operand_shapes.size() == 4'')
            else Inr [operand_shapes ! 0, operand_shapes ! 1]) (\<lambda>shapes. MakeTupleShape L (shapes @ context_shapes))"

definition InferCollectivePermuteDoneShape :: "Shape \<Rightarrow> Shape status_or" where
  "InferCollectivePermuteDoneShape s =
     (if \<not> IsTuple s then Inl (InternalError ''operand_shape.IsTuple()'') else GetTupleElementShape s 1)"

section \<open>Transforms and linear algebra\<close>

datatype FftType = FFT | IFFT | RFFT | IRFFT

text \<open>The innermost dimensions of the input that must match the lengths, skipping unbounded ones on request.\<close>

definition fft_lengths_match :: "bool \<Rightarrow> int list \<Rightarrow> int list \<Rightarrow> nat \<Rightarrow> bool" where
  "fft_lengths_match allow_unbounded ds fft_length n \<longleftrightarrow>
     list_all (\<lambda>i. let d = ds ! (length ds - length fft_length + i) in
       (allow_unbounded \<and> IsUnboundedDynamicSize d) \<or> d = fft_length ! i) [0..<n]"

definition InferFftShape :: "native_limits \<Rightarrow> Shape \<Rightarrow> FftType \<Rightarrow> int list \<Rightarrow> Shape status_or" where
  "InferFftShape L inp fft_type fft_length =
     (let fft_rank = length fft_length; t = element_type inp in
      if fft_rank < 1 \<or> fft_rank > 3 then Inl (InvalidArgument ''FFT only supports ranks 1-3'')
      else case fft_type of
        RFFT \<Rightarrow>
          if t \<noteq> F32 \<and> t \<noteq> F64 then Inl (InvalidArgument ''RFFT requires F32 or F64 input type'')
          else bindE (dimsE inp) (\<lambda>ds.
            if length ds < fft_rank then Inl (InvalidArgument ''FFT requires input of at least same rank'')
            else if \<not> fft_lengths_match True ds fft_length fft_rank
            then Inl (InvalidArgument ''RFFT requires innermost dimensions match fft_length'')
            else bindE (ChangeElementType L (if t = F32 then C64 else C128) inp) (\<lambda>r.
              if last fft_length \<noteq> 0
              then bindE (array_of r) (\<lambda>(rds, rdy, _).
                   bindE (at_index rdy (int (length rds) - 1)) (\<lambda>dynamic.
                   bindE (cdiv (last fft_length) 2) (\<lambda>half.
                   bindE (at_index ds (int (length rds) - 1)) (\<lambda>d.
                     set_dimensions r (int (length rds) - 1) (half + 1) (Some (dynamic \<and> \<not> IsUnboundedDynamicSize d))))))
              else Inr r))
      | IRFFT \<Rightarrow>
          if \<not> IsComplexType t then Inl (InvalidArgument ''IRFFT requires complex input type'')
          else bindE (dimsE inp) (\<lambda>ds.
            if length ds < fft_rank then Inl (InvalidArgument ''FFT requires input of at least same rank'')
            else bindE (ComplexComponentShape L inp) (\<lambda>r.
              if \<not> fft_lengths_match False ds fft_length (fft_rank - 1)
              then Inl (InvalidArgument ''IRFFT requires all but one innermost dimensions match fft_length'')
              else bindE (at_index ds (int (length ds) - 1)) (\<lambda>d.
                   bindE (cdiv (last fft_length) 2) (\<lambda>half.
                   if (d \<noteq> 0 \<or> last fft_length \<noteq> 0) \<and> \<not> IsUnboundedDynamicSize d \<and> d \<noteq> half + 1
                   then Inl (InvalidArgument ''IRFFT requires innermost dimension matches fft_length/2+1'')
                   else bindE (array_of r) (\<lambda>(rds, rdy, _).
                        bindE (at_index rdy (int (length rds) - 1)) (\<lambda>dynamic.
                          set_dimensions r (int (length rds) - 1) (last fft_length) (Some (dynamic \<and> \<not> IsUnboundedDynamicSize d))))))))
      | _ \<Rightarrow>
          if \<not> IsComplexType t then Inl (InvalidArgument ''FFT requires complex input type'')
          else bindE (dimsE inp) (\<lambda>ds.
            if length ds < fft_rank then Inl (InvalidArgument ''FFT requires input of at least same rank'') else Inr inp))"

text \<open>The options of a triangular solve; an enumeration of a message may hold any number.\<close>

record TriangularSolveOptions =
  left_side :: bool
  lower :: bool
  unit_diagonal :: bool
  transpose_a :: int

definition InferTriangularSolveShape :: "Shape \<Rightarrow> Shape \<Rightarrow> TriangularSolveOptions \<Rightarrow> Shape status_or" where
  "InferTriangularSolveShape a b options =
     (if (\<not> ElementIsFloating a \<and> \<not> ElementIsComplex a) \<or> element_type a \<noteq> element_type b
      then Inl (InvalidArgument ''Expected element types to be floating or complex and identical for TriangularSolve'')
      else bindE (dimsE a) (\<lambda>ad.
      if length ad < 2 then Inl (InvalidArgument ''The a argument to TriangularSolve must have rank >= 2'')
      else bindE (dimsE b) (\<lambda>bd.
      if length bd \<noteq> length ad then Inl (InvalidArgument ''Arguments to triangular solve must have equal rank'')
      else if \<not> CompatibleDimensionSizes (ad ! (length ad - 2)) (ad ! (length ad - 1))
      then Inl (InvalidArgument ''The two minor dimensions of a must have equal size'')
      else if \<not> CompatibleDimensionSizes (ad ! (length ad - 1)) (bd ! (length bd - (if left_side options then 2 else 1)))
      then Inl (InvalidArgument ''The shared dimension of a and b does not match'')
      else if take (length ad - 2) ad \<noteq> take (length bd - 2) bd
      then Inl (InvalidArgument ''The leading batch dimensions of the arguments to triangular solve must be equal'')
      else if \<not> (0 \<le> transpose_a options \<and> transpose_a options \<le> 3) \<or> transpose_a options = 0
      then Inl (InvalidArgument ''Invalid transpose option value for triangular solve'')
      else Inr b)))"

definition InferCholeskyShape :: "Shape \<Rightarrow> Shape status_or" where
  "InferCholeskyShape a =
     (if \<not> ElementIsFloating a \<and> \<not> ElementIsComplex a
      then Inl (InvalidArgument ''Expected element type in shape to be floating or complex for Cholesky'')
      else bindE (dimsE a) (\<lambda>ad.
      if length ad < 2 then Inl (InvalidArgument ''The a argument to Cholesky must have rank >= 2'')
      else if \<not> CompatibleDimensionSizes (ad ! (length ad - 2)) (ad ! (length ad - 1))
      then Inl (InvalidArgument ''The two minor dimensions of a must have compatible size'')
      else Inr a))"

section \<open>Windows count the places that fit\<close>

text \<open>The length of an array or window after dilation.\<close>

definition dilated_length :: "int \<Rightarrow> int \<Rightarrow> int" where
  "dilated_length n dilation = (if n = 0 then 0 else (n - 1) * dilation + 1)"

definition window_in_int64 :: "WindowDimension \<Rightarrow> bool" where
  "window_in_int64 w \<longleftrightarrow> in_int64 (window_size w) \<and> in_int64 (window_dilation w) \<and> in_int64 (base_dilation w)"

lemma window_output_dim_exact:
  assumes "window_output_dim (d, w) = Inr n" "in_int64 d" "window_in_int64 w" "d \<noteq> kUnboundedSize"
  shows "0 \<le> n" "0 < padding_low w + dilated_length d (base_dilation w) + padding_high w \<Longrightarrow> 0 \<le> k \<Longrightarrow>
    k < n \<longleftrightarrow> k * stride w + dilated_length (window_size w) (window_dilation w) \<le>
      padding_low w + dilated_length d (base_dilation w) + padding_high w"
proof -
  obtain db dw where b: "DilatedBound d (base_dilation w) = Inr db" "DilatedBound (window_size w) (window_dilation w) = Inr dw"
    "StridedBound (padding_low w + db + padding_high w) dw (stride w) = Inr n"
    using assms(1,4) by (auto simp: window_output_dim_def IsUnboundedDynamicSize_def bindE_eq_Inr split: if_splits)
  have "db = dilated_length d (base_dilation w)" "dw = dilated_length (window_size w) (window_dilation w)"
    using DilatedBound_exact(3) [OF _ _ b(1)] DilatedBound_exact(3) [OF _ _ b(2)] assms(2,3)
    by (simp_all add: dilated_length_def window_in_int64_def)
  with StridedBound_exact [OF b(3)] show "0 \<le> n" "0 < padding_low w + dilated_length d (base_dilation w) + padding_high w \<Longrightarrow> 0 \<le> k \<Longrightarrow>
    k < n \<longleftrightarrow> k * stride w + dilated_length (window_size w) (window_dilation w) \<le>
      padding_low w + dilated_length d (base_dilation w) + padding_high w" by simp_all
qed



section \<open>Gathering and scattering back\<close>

lemma set_dimensions_array:
  assumes "0 \<le> d" "nat d < length ds" "length dy = length ds" "IsValidDimensionSize n b"
  shows "set_dimensions (Shape t (ArrayState ds dy l)) d n (Some b) = Inr (Shape t (ArrayState (ds[nat d := n]) (dy[nat d := b]) l))"
proof -
  have i: "at_index ds d = Inr (ds ! nat d)" "at_index dy d = Inr (dy ! nat d)" using assms(1-3) by (simp_all add: at_index_def)
  have "CheckDimensionSize n b = Inr ()" using assms(4) by (auto simp: CheckDimensionSize_def IsValidDimensionSize_def)
  moreover have "array_of (Shape t (ArrayState ds dy l)) = Inr (ds, dy, l)" by (simp add: array_state_maybe_underneath_buffer_def)
  ultimately show ?thesis unfolding set_dimensions_def by (simp only: bindE_Inr prod.case option.case i) (simp add: put_array_state_def)
qed

lemma all_gather_output_array:
  assumes "IsArrayType t" "0 \<le> d" "nat d < length ds" "length dy = length ds" "0 \<le> y"
    "\<not> IsUnboundedDynamicSize (ds ! nat d)" "OverflowSafeMultiply_int n (ds ! nat d) = (y, False)"
  shows "all_gather_output d n (Shape t (ArrayState ds dy l)) = Inr (Shape t (ArrayState (ds[nat d := y]) (dy[nat d := False]) l))"
proof -
  have v: "IsValidDimensionSize y False" using assms(5) by (simp add: IsValidDimensionSize_def)
  have a: "dimsE (Shape t (ArrayState ds dy l)) = Inr ds" "ExpectArray (Shape t (ArrayState ds dy l)) = Inr ()"
    using assms(1) by (simp_all add: dimsE_def array_state_maybe_underneath_buffer_def ExpectArray_def shape_class_defs)
  have b: "d < int (length ds)" "at_index ds d = Inr (ds ! nat d)" using assms(2,3) by (simp_all add: at_index_def)
  show ?thesis unfolding all_gather_output_def
    by (simp only: a b bindE_Inr not_True_eq_False if_False assms(6,7) prod.case set_dimensions_array [OF assms(2-4) v])
qed

lemma reduce_scatter_output_array:
  assumes "IsArrayType t" "0 \<le> d" "nat d < length ds" "length dy = length ds" "\<not> dy ! nat d" "0 \<le> x"
    "cmod (ds ! nat d) n = Inr 0" "cdiv (ds ! nat d) n = Inr x"
  shows "reduce_scatter_output d n (Shape t (ArrayState ds dy l)) = Inr (Shape t (ArrayState (ds[nat d := x]) (dy[nat d := False]) l))"
proof -
  have v: "IsValidDimensionSize x False" using assms(6) by (simp add: IsValidDimensionSize_def)
  have a: "dimsE (Shape t (ArrayState ds dy l)) = Inr ds" "ExpectArray (Shape t (ArrayState ds dy l)) = Inr ()"
    "array_of (Shape t (ArrayState ds dy l)) = Inr (ds, dy, l)"
    using assms(1) by (simp_all add: dimsE_def array_state_maybe_underneath_buffer_def ExpectArray_def shape_class_defs)
  have b: "d < int (length ds)" "at_index ds d = Inr (ds ! nat d)" "at_index dy d = Inr False" using assms(2-5) by (simp_all add: at_index_def)
  show ?thesis unfolding reduce_scatter_output_def
    by (simp only: a b bindE_Inr not_True_eq_False if_False assms(7,8) prod.case simp_thms set_dimensions_array [OF assms(2-4) v])
qed

text \<open>
  C39. Gathering a static dimension over a number of shards and scattering it again gives back the very
  shape, layout included, whenever the gathered size fits in 64 bits.
\<close>

theorem AllGather_ReduceScatter_roundtrip:
  assumes "shape_inv s" "IsArrayExcludingBuffer s" "0 \<le> d" "d < int (rank s)" "\<not> is_dynamic_dimension s (nat d)"
    "0 < n" "in_int64 n" "in_int64 (dimensions s ! nat d)" "in_int64 (n * dimensions s ! nat d)"
  shows "bindE (InferAllGatherShape L [s] d n) (\<lambda>r. InferReduceScatterShape L [r] d n) = Inr s"
proof -
  obtain t ds dy l where s: "s = Shape t (ArrayState ds dy l)" "IsArrayType t" "list_all2 IsValidDimensionSize ds dy"
    "length dy = length ds"
    using array_shape_cases [OF assms(1,2)] by metis
  let ?x = "ds ! nat d"
  have i: "nat d < length ds" using assms(3,4) s by simp
  have st: "\<not> dy ! nat d" using assms(5) s by (simp add: is_dynamic_dimension_def dynamic_dimensions_def array_state_maybe_underneath_buffer_def)
  have x: "0 \<le> ?x" using s(3) i st by (auto simp: list_all2_conv_all_nth IsValidDimensionSize_def)
  then have nu: "\<not> IsUnboundedDynamicSize ?x" by (simp add: IsUnboundedDynamicSize_def kUnboundedSize_def kint64min_def)
  define y where "y = n * ?x"
  have y: "0 \<le> y" using x assms(6) by (simp add: y_def)
  let ?r = "Shape t (ArrayState (ds[nat d := y]) (dy[nat d := False]) l)"
  have mul: "OverflowSafeMultiply_int n ?x = (y, False)"
    using OverflowSafeMultiply_int_ok [of n ?x] assms(6-9) x s by (cases "OverflowSafeMultiply_int n ?x") (simp add: y_def)
  have "all_gather_output d n s = Inr ?r" unfolding s(1) by (rule all_gather_output_array [OF s(2) assms(3) i s(4) y nu mul])
  then have 1: "InferAllGatherShape L [s] d n = Inr ?r" using assms(3,6) by (simp add: InferAllGatherShape_def one_or_tuple_def)
  have cm: "cmod y n = Inr 0" "cdiv y n = Inr ?x" using cmod_pos [OF y assms(6)] cdiv_pos [OF y assms(6)] assms(6) by (simp_all add: y_def)
  have "(dy[nat d := False])[nat d := False] = dy" using st by (metis list_update_id list_update_overwrite)
  then have "reduce_scatter_output d n ?r = Inr s"
    using reduce_scatter_output_array [OF s(2) assms(3), of "ds[nat d := y]" "dy[nat d := False]" ?x n l] i s(1,4) x cm st by simp
  then have 2: "InferReduceScatterShape L [?r] d n = Inr s" using assms(3,6) by (simp add: InferReduceScatterShape_def one_or_tuple_def)
  show ?thesis by (simp only: 1 2 bindE_Inr)
qed

theorem AllGather_ReduceScatter_roundtrip_witness:
  "bindE (InferAllGatherShape ieee_limits [Shape F32 (ArrayState [2, 3] [True, False] None)] 1 4)
     (\<lambda>r. InferReduceScatterShape ieee_limits [r] 1 4) = Inr (Shape F32 (ArrayState [2, 3] [True, False] None))"
  by (rule AllGather_ReduceScatter_roundtrip)
     (simp_all add: IsValidDimensionSize_def primitive_class_defs shape_class_defs is_dynamic_dimension_def dynamic_dimensions_def
       array_state_maybe_underneath_buffer_def in_int64_def kint64min_def kint64max_def)

section \<open>Findings\<close>

text \<open>Negative padding larger than the operand stops the process although a status is returned.\<close>

lemma negative_padding_stops:
  "InferWindowOutputShape ieee_limits (Shape F32 (ArrayState [2] [False] None))
     [\<lparr>window_size = 1, stride = 1, padding_low = - 3, padding_high = 0, window_dilation = 1, base_dilation = 1, window_reversal = False\<rparr>] F32 =
   Inl (CheckFailed ''bound >= 0'')"
  by code_simp

text \<open>Scattering treats the marker of an unbounded size as a size, and a bounded size becomes unbounded.\<close>

lemma reduce_scatter_unbounded_rejected:
  "map_sum id dimensions (InferReduceScatterShape ieee_limits [Shape F32 (ArrayState [kUnboundedSize] [True] None)] 0 3) =
     Inl (InvalidArgument ''ReduceScatter operand scatter dimension size must be dividable by shard_count'')"
  by code_simp

lemma reduce_scatter_bound_lost:
  "map_sum id dimensions (InferReduceScatterShape ieee_limits [Shape F32 (ArrayState [8] [True] None)] 0 2) = Inr [kUnboundedSize]"
  by code_simp

text \<open>Gathering a dimension with a bounded dynamic size gives a static one.\<close>

lemma all_gather_dynamic_lost:
  "map_sum id dynamic_dimensions (InferAllGatherShape ieee_limits [Shape F32 (ArrayState [8] [True] None)] 0 2) = Inr [False]"
  by code_simp

end
