(* ===== verification/OrderedSet.thy ===== *)
theory OrderedSet
  imports Prelude "HOL-Library.Multiset"
begin

text \<open>
  Ordered containers. An \<open>absl::btree_set\<close> or \<open>std::set\<close> with a comparator is the list of its elements in
  order, an iterator is a position in that list (the length of the list is \<open>end()\<close>), and the operations are
  those the components use. The locale states what a comparator promises, a strict weak ordering, and proves
  what the containers then guarantee.
\<close>

section \<open>Operations\<close>

definition lower_bound :: "('a \<Rightarrow> 'a \<Rightarrow> bool) \<Rightarrow> 'a \<Rightarrow> 'a list \<Rightarrow> nat" where
  "lower_bound lt x xs = length (takeWhile (\<lambda>y. lt y x) xs)"

definition btree_insert :: "('a \<Rightarrow> 'a \<Rightarrow> bool) \<Rightarrow> 'a \<Rightarrow> 'a list \<Rightarrow> 'a list" where
  "btree_insert lt x xs =
     (let i = lower_bound lt x xs in
      if i < length xs \<and> \<not> lt x (xs ! i) then xs else take i xs @ x # drop i xs)"

definition btree_erase :: "nat \<Rightarrow> 'a list \<Rightarrow> 'a list" where
  "btree_erase i xs = take i xs @ drop (Suc i) xs"

section \<open>Positions\<close>

lemma lower_bound_append:
  assumes "\<forall>y\<in>set pre. lt y x" "\<forall>y\<in>set post. \<not> lt y x"
  shows "lower_bound lt x (pre @ post) = length pre"
proof -
  have "takeWhile (\<lambda>y. lt y x) (pre @ post) = pre @ takeWhile (\<lambda>y. lt y x) post"
    using assms(1) by (intro takeWhile_append2) auto
  moreover have "takeWhile (\<lambda>y. lt y x) post = []" using assms(2) by (cases post) auto
  ultimately show ?thesis by (simp add: lower_bound_def)
qed

lemma btree_insert_append:
  assumes "\<forall>y\<in>set pre. lt y x" "\<forall>y\<in>set post. \<not> lt y x" "post = [] \<or> lt x (hd post)"
  shows "btree_insert lt x (pre @ post) = pre @ x # post"
  using assms(3) lower_bound_append [of pre lt x post] assms(1,2)
  by (cases post) (auto simp: btree_insert_def Let_def)

lemma btree_erase_append [simp]: "btree_erase (length pre) (pre @ x # post) = pre @ post"
  by (simp add: btree_erase_def)

lemma sorted_wrt_remove1: "sorted_wrt P xs \<Longrightarrow> sorted_wrt P (remove1 x xs)"
  by (induction xs) (auto dest: notin_set_remove1)

section \<open>Containers over a strict weak ordering\<close>

locale comparator =
  fixes lt :: "'a \<Rightarrow> 'a \<Rightarrow> bool"
  assumes irrefl: "\<not> lt x x"
    and trans: "lt x y \<Longrightarrow> lt y z \<Longrightarrow> lt x z"
    and weak: "lt x z \<Longrightarrow> lt x y \<or> lt y z"
begin

lemma lower_bound_take: "y \<in> set (take (lower_bound lt x xs) xs) \<Longrightarrow> lt y x"
  by (auto simp: lower_bound_def takeWhile_eq_take [symmetric] dest: set_takeWhileD)

lemma lower_bound_drop:
  assumes "sorted_wrt lt xs" "y \<in> set (drop (lower_bound lt x xs) xs)"
  shows "\<not> lt y x"
proof -
  have d: "drop (lower_bound lt x xs) xs = dropWhile (\<lambda>y. lt y x) xs"
    by (simp add: lower_bound_def dropWhile_eq_drop)
  then have "dropWhile (\<lambda>y. lt y x) xs \<noteq> []" using assms(2) by (metis empty_iff list.set(1))
  then have h: "\<not> lt (hd (dropWhile (\<lambda>y. lt y x) xs)) x" by (rule hd_dropWhile)
  have s: "sorted_wrt lt (dropWhile (\<lambda>y. lt y x) xs)" using assms(1) sorted_wrt_drop d by metis
  have y: "y \<in> set (dropWhile (\<lambda>y. lt y x) xs)" using assms(2) d by simp
  show ?thesis
  proof (cases "dropWhile (\<lambda>y. lt y x) xs")
    case (Cons a as)
    with s h y show ?thesis by (auto dest: trans)
  qed (use y in \<open>simp only: list.set(1) empty_iff\<close>)
qed

lemma lower_bound_split:
  assumes "sorted_wrt lt xs"
  shows "\<exists>pre post. xs = pre @ post \<and> length pre = lower_bound lt x xs \<and>
    (\<forall>y\<in>set pre. lt y x) \<and> (\<forall>y\<in>set post. \<not> lt y x)"
proof -
  let ?i = "lower_bound lt x xs"
  have "?i \<le> length xs" by (simp add: lower_bound_def length_takeWhile_le)
  then show ?thesis
    using lower_bound_take [of _ x xs] lower_bound_drop [OF assms, of _ x]
    by (intro exI [of _ "take ?i xs"] exI [of _ "drop ?i xs"]) auto
qed

lemma btree_insert_new:
  assumes "sorted_wrt lt xs" "\<forall>y\<in>set xs. lt x y \<or> lt y x"
  shows "sorted_wrt lt (btree_insert lt x xs)" "set (btree_insert lt x xs) = insert x (set xs)"
proof -
  obtain pre post where p: "xs = pre @ post" "\<forall>y\<in>set pre. lt y x" "\<forall>y\<in>set post. \<not> lt y x"
    using lower_bound_split [OF assms(1)] by blast
  have gt: "\<forall>y\<in>set post. lt x y" using p assms(2) by auto
  then have e: "btree_insert lt x xs = pre @ x # post"
    using btree_insert_append [of pre lt x post] p by (cases post) auto
  show "sorted_wrt lt (btree_insert lt x xs)"
    using e assms(1) p gt trans by (auto simp: sorted_wrt_append)
  show "set (btree_insert lt x xs) = insert x (set xs)" using e p(1) by auto
qed

lemma sorted_member_unique:
  "sorted_wrt lt xs \<Longrightarrow> distinct xs"
  by (induction xs) (auto simp: irrefl)

end

end
