(* ===== verification/FreeChunks.thy ===== *)
theory FreeChunks
  imports OrderedSet
begin

text \<open>
  \<open>xla/service/heap_simulator/free_chunks_manager.{h,cc}\<close>: the free space of a heap as chunks kept in two
  ordered sets, by offset and by usable size, with lazy removal from the second. The alignment callback the
  manager is built with is the parameter \<open>chunk_alignment\<close>.
\<close>

section \<open>Chunks\<close>

datatype MemoryChunk = MemoryChunk (chunk_offset: int) (chunk_end: int) (aligned_chunk_offset: int) (chunk_id: int)

definition aligned_size :: "MemoryChunk \<Rightarrow> int" where
  "aligned_size c = chunk_end c - aligned_chunk_offset c"

definition OffsetLessThan :: "MemoryChunk \<Rightarrow> MemoryChunk \<Rightarrow> bool" where
  "OffsetLessThan a b \<longleftrightarrow>
     chunk_offset a < chunk_offset b \<or> (chunk_offset a = chunk_offset b \<and> chunk_end a < chunk_end b)"

definition AlignedSizeLessThan :: "MemoryChunk \<Rightarrow> MemoryChunk \<Rightarrow> bool" where
  "AlignedSizeLessThan a b \<longleftrightarrow>
     aligned_size a < aligned_size b \<or>
     (aligned_size a = aligned_size b \<and>
       (chunk_offset a < chunk_offset b \<or> (chunk_offset a = chunk_offset b \<and> chunk_id a < chunk_id b)))"

text \<open>\<open>operator<\<close>: the lexicographic order of all four fields.\<close>

definition MemoryChunk_less :: "MemoryChunk \<Rightarrow> MemoryChunk \<Rightarrow> bool" where
  "MemoryChunk_less a b \<longleftrightarrow> chunk_offset a < chunk_offset b \<or> (chunk_offset a = chunk_offset b \<and>
     (chunk_end a < chunk_end b \<or> (chunk_end a = chunk_end b \<and>
       (aligned_chunk_offset a < aligned_chunk_offset b \<or> (aligned_chunk_offset a = aligned_chunk_offset b \<and>
          chunk_id a < chunk_id b)))))"

instantiation MemoryChunk :: linorder
begin

definition less_MemoryChunk :: "MemoryChunk \<Rightarrow> MemoryChunk \<Rightarrow> bool" where
  "a < b \<longleftrightarrow> MemoryChunk_less a b"

definition less_eq_MemoryChunk :: "MemoryChunk \<Rightarrow> MemoryChunk \<Rightarrow> bool" where
  "(a :: MemoryChunk) \<le> b \<longleftrightarrow> a < b \<or> a = b"

instance
  by standard (auto simp: less_MemoryChunk_def MemoryChunk_less_def less_eq_MemoryChunk_def intro: MemoryChunk.expand)

end

section \<open>The manager\<close>

record FreeChunksManager =
  free_chunks_by_offset :: "MemoryChunk list"
  free_chunks_by_size :: "MemoryChunk list"
  free_chunks_to_be_removed :: "int set"
  next_free_chunk_id :: int

definition very_beginning_chunk :: MemoryChunk where "very_beginning_chunk = MemoryChunk (- 2) (- 1) (- 1) 1"
definition very_end_chunk :: MemoryChunk where "very_end_chunk = MemoryChunk (kint64max - 2) (kint64max - 1) (- 1) 3"

definition MakeFreeChunksManager :: "(int \<Rightarrow> int) \<Rightarrow> FreeChunksManager" where
  "MakeFreeChunksManager chunk_alignment =
     (let real_free_chunk = MemoryChunk 0 (kint64max - 3) (chunk_alignment 0) 2 in
      \<lparr>free_chunks_by_offset =
         btree_insert OffsetLessThan very_end_chunk
           (btree_insert OffsetLessThan real_free_chunk (btree_insert OffsetLessThan very_beginning_chunk [])),
       free_chunks_by_size = btree_insert AlignedSizeLessThan real_free_chunk [],
       free_chunks_to_be_removed = {},
       next_free_chunk_id = 4\<rparr>)"

definition AddNewFreeChunk :: "(int \<Rightarrow> int) \<Rightarrow> FreeChunksManager \<Rightarrow> int \<Rightarrow> int \<Rightarrow> FreeChunksManager" where
  "AddNewFreeChunk chunk_alignment m a b =
     (let chunk = MemoryChunk a b (chunk_alignment a) (next_free_chunk_id m) in
      m\<lparr>next_free_chunk_id := next_free_chunk_id m + 1,
        free_chunks_by_offset := btree_insert OffsetLessThan chunk (free_chunks_by_offset m),
        free_chunks_by_size := btree_insert AlignedSizeLessThan chunk (free_chunks_by_size m)\<rparr>)"

definition RemoveFreeChunk :: "FreeChunksManager \<Rightarrow> nat \<Rightarrow> FreeChunksManager" where
  "RemoveFreeChunk m it =
     m\<lparr>free_chunks_to_be_removed := insert (chunk_id (free_chunks_by_offset m ! it)) (free_chunks_to_be_removed m),
       free_chunks_by_offset := btree_erase it (free_chunks_by_offset m)\<rparr>"

text \<open>Moving an iterator back from the beginning is undefined; the model stops.\<close>

definition prev_iterator :: "nat \<Rightarrow> nat status_or" where
  "prev_iterator it = (if it = 0 then Inl (CheckFailed ''--begin()'') else Inr (it - 1))"

definition Allocate :: "(int \<Rightarrow> int) \<Rightarrow> FreeChunksManager \<Rightarrow> int \<Rightarrow> int \<Rightarrow> FreeChunksManager status_or" where
  "Allocate chunk_alignment m a b =
     bindE (prev_iterator (lower_bound OffsetLessThan (MemoryChunk a kint64max (- 1) (- 1)) (free_chunks_by_offset m))) (\<lambda>it.
       let free_chunk = free_chunks_by_offset m ! it in
       if \<not> (chunk_offset free_chunk \<le> a \<and> b \<le> chunk_end free_chunk)
       then Inl (CheckFailed ''Cannot allocate because it is not fully contained in free chunk'')
       else
         let m1 = RemoveFreeChunk m it;
             m2 = (if chunk_end free_chunk > b then AddNewFreeChunk chunk_alignment m1 b (chunk_end free_chunk) else m1) in
         Inr (if chunk_offset free_chunk < a then AddNewFreeChunk chunk_alignment m2 (chunk_offset free_chunk) a else m2))"

definition Deallocate :: "(int \<Rightarrow> int) \<Rightarrow> FreeChunksManager \<Rightarrow> int \<Rightarrow> int \<Rightarrow> FreeChunksManager status_or" where
  "Deallocate chunk_alignment m a b =
     (let above = lower_bound OffsetLessThan (MemoryChunk b (b + 1) (- 1) (- 1)) (free_chunks_by_offset m);
          above_chunk = free_chunks_by_offset m ! above;
          adjacent = above < length (free_chunks_by_offset m) \<and> chunk_offset above_chunk = b;
          right1 = (if adjacent then chunk_end above_chunk else b);
          m1 = (if adjacent then RemoveFreeChunk m above else m)
      in bindE (prev_iterator (lower_bound OffsetLessThan (MemoryChunk a (a + 1) (- 1) (- 1)) (free_chunks_by_offset m1))) (\<lambda>below.
           let below_chunk = free_chunks_by_offset m1 ! below in
           if chunk_end below_chunk \<ge> a
           then Inr (AddNewFreeChunk chunk_alignment (RemoveFreeChunk m1 below) (chunk_offset below_chunk) (max right1 (chunk_end below_chunk)))
           else Inr (AddNewFreeChunk chunk_alignment m1 a right1)))"

definition FindJustLargeEnough :: "FreeChunksManager \<Rightarrow> int \<Rightarrow> FreeChunksManager \<times> MemoryChunk option" where
  "FindJustLargeEnough m sz =
     (let xs = free_chunks_by_size m;
          it = lower_bound AlignedSizeLessThan (MemoryChunk 0 0 (- sz) (- 1)) xs;
          rest = dropWhile (\<lambda>c. chunk_id c \<in> free_chunks_to_be_removed m) (drop it xs)
      in (m\<lparr>free_chunks_by_size := take it xs @ rest\<rparr>, case rest of [] \<Rightarrow> None | c # _ \<Rightarrow> Some c))"

definition GetFreeChunks :: "FreeChunksManager \<Rightarrow> (int \<times> int) list" where
  "GetFreeChunks m = butlast (map (\<lambda>c. (chunk_offset c, chunk_end c)) (tl (free_chunks_by_offset m)))"

interpretation by_offset: comparator OffsetLessThan
  by unfold_locales (auto simp: OffsetLessThan_def)

interpretation by_size: comparator AlignedSizeLessThan
  by unfold_locales (auto simp: AlignedSizeLessThan_def)

section \<open>The invariant\<close>

text \<open>
  The chunks between the two dummies are non-empty and separated by gaps, so that neighbours are always
  merged; the set by size holds exactly the same chunks once those marked as removed are left out; and
  identifiers are fresh and unique.
\<close>

definition chunk_gap :: "MemoryChunk \<Rightarrow> MemoryChunk \<Rightarrow> bool" where
  "chunk_gap c d \<longleftrightarrow> chunk_end c < chunk_offset d"

definition free_chunks :: "FreeChunksManager \<Rightarrow> MemoryChunk list" where
  "free_chunks m = butlast (tl (free_chunks_by_offset m))"

definition offsets_ok :: "(int \<Rightarrow> int) \<Rightarrow> FreeChunksManager \<Rightarrow> bool" where
  "offsets_ok chunk_alignment m \<longleftrightarrow>
     free_chunks_by_offset m = very_beginning_chunk # free_chunks m @ [very_end_chunk] \<and>
     sorted_wrt chunk_gap (free_chunks_by_offset m) \<and>
     (\<forall>c\<in>set (free_chunks m). chunk_offset c < chunk_end c \<and> aligned_chunk_offset c = chunk_alignment (chunk_offset c))"

definition sizes_ok :: "FreeChunksManager \<Rightarrow> bool" where
  "sizes_ok m \<longleftrightarrow>
     sorted_wrt AlignedSizeLessThan (free_chunks_by_size m) \<and>
     inj_on chunk_id (set (free_chunks_by_size m)) \<and>
     (\<forall>c\<in>set (free_chunks_by_size m). 0 < chunk_id c \<and> chunk_id c < next_free_chunk_id m) \<and>
     (\<forall>i\<in>free_chunks_to_be_removed m. i < next_free_chunk_id m) \<and> 0 < next_free_chunk_id m \<and>
     set (free_chunks m) = {c \<in> set (free_chunks_by_size m). chunk_id c \<notin> free_chunks_to_be_removed m}"

definition manager_ok :: "(int \<Rightarrow> int) \<Rightarrow> FreeChunksManager \<Rightarrow> bool" where
  "manager_ok chunk_alignment m \<longleftrightarrow> offsets_ok chunk_alignment m \<and> sizes_ok m"

definition free_space :: "FreeChunksManager \<Rightarrow> int set" where
  "free_space m = (\<Union>c\<in>set (free_chunks m). {chunk_offset c..<chunk_end c})"

abbreviation whole_space :: "int set" where
  "whole_space \<equiv> {0..<kint64max - 3}"

lemmas manager_defs = manager_ok_def offsets_ok_def sizes_ok_def

lemma dummy_bounds [simp]:
  "chunk_offset very_beginning_chunk = - 2" "chunk_end very_beginning_chunk = - 1"
  "chunk_offset very_end_chunk = kint64max - 2" "chunk_end very_end_chunk = kint64max - 1"
  by (simp_all add: very_beginning_chunk_def very_end_chunk_def)

lemma free_chunks_between:
  "free_chunks_by_offset m = x # cs @ [y] \<Longrightarrow> free_chunks m = cs"
  by (simp add: free_chunks_def)

lemma free_chunk_bounds:
  assumes "manager_ok chunk_alignment m" "c \<in> set (free_chunks m)"
  shows "0 \<le> chunk_offset c" "chunk_offset c < chunk_end c" "chunk_end c \<le> kint64max - 3"
    "aligned_chunk_offset c = chunk_alignment (chunk_offset c)"
proof -
  have e: "free_chunks_by_offset m = very_beginning_chunk # free_chunks m @ [very_end_chunk]"
    and s: "sorted_wrt chunk_gap (free_chunks_by_offset m)"
    using assms(1) unfolding manager_defs by blast+
  have "sorted_wrt chunk_gap (very_beginning_chunk # free_chunks m @ [very_end_chunk])" using s by (simp only: e)
  then have "chunk_gap very_beginning_chunk c" "chunk_gap c very_end_chunk"
    using assms(2) by (simp_all add: sorted_wrt_append)
  then show "0 \<le> chunk_offset c" "chunk_end c \<le> kint64max - 3" by (simp_all add: chunk_gap_def)
  show "chunk_offset c < chunk_end c" "aligned_chunk_offset c = chunk_alignment (chunk_offset c)"
    using assms by (simp_all add: manager_defs)
qed

lemma free_chunks_gaps: "manager_ok chunk_alignment m \<Longrightarrow> sorted_wrt chunk_gap (free_chunks m)"
proof -
  assume "manager_ok chunk_alignment m"
  then have "sorted_wrt chunk_gap (very_beginning_chunk # free_chunks m @ [very_end_chunk])"
    by (metis manager_ok_def offsets_ok_def)
  then show ?thesis by (simp add: sorted_wrt_append)
qed

lemma distinct_sorted_gap:
  "sorted_wrt chunk_gap cs \<Longrightarrow> (\<And>c. c \<in> set cs \<Longrightarrow> chunk_offset c < chunk_end c) \<Longrightarrow> distinct cs"
  by (induction cs) (fastforce simp: chunk_gap_def)+

text \<open>The initial manager offers the whole space as one chunk.\<close>

lemma MakeFreeChunksManager_ok:
  shows "manager_ok chunk_alignment (MakeFreeChunksManager chunk_alignment)"
    "free_space (MakeFreeChunksManager chunk_alignment) = whole_space"
proof -
  let ?m = "MakeFreeChunksManager chunk_alignment"
  let ?c = "MemoryChunk 0 (kint64max - 3) (chunk_alignment 0) 2"
  have b: "free_chunks_by_offset ?m = [very_beginning_chunk, ?c, very_end_chunk]"
    by (simp add: MakeFreeChunksManager_def btree_insert_def lower_bound_def OffsetLessThan_def kint64max_def Let_def)
  then have f: "free_chunks ?m = [?c]" by (simp add: free_chunks_def)
  have s: "free_chunks_by_size ?m = [?c]" "free_chunks_to_be_removed ?m = {}" "next_free_chunk_id ?m = 4"
    by (simp_all add: MakeFreeChunksManager_def btree_insert_def lower_bound_def Let_def)
  show "manager_ok chunk_alignment ?m"
    using b f s by (simp add: manager_defs chunk_gap_def kint64max_def)
  show "free_space ?m = whole_space" using f by (simp add: free_space_def)
qed

section \<open>Removing and adding one chunk\<close>

lemma RemoveFreeChunk_ok:
  assumes ok: "manager_ok chunk_alignment m" and f: "free_chunks m = pre @ c # post"
  shows "manager_ok chunk_alignment (RemoveFreeChunk m (Suc (length pre)))"
    "free_chunks (RemoveFreeChunk m (Suc (length pre))) = pre @ post"
    "free_chunks_by_offset (RemoveFreeChunk m (Suc (length pre))) = very_beginning_chunk # pre @ post @ [very_end_chunk]"
proof -
  let ?m = "RemoveFreeChunk m (Suc (length pre))"
  have b: "free_chunks_by_offset m = (very_beginning_chunk # pre) @ c # (post @ [very_end_chunk])"
    using ok f by (simp add: manager_defs)
  have b': "free_chunks_by_offset ?m = very_beginning_chunk # pre @ post @ [very_end_chunk]"
    using b btree_erase_append [of "very_beginning_chunk # pre" c "post @ [very_end_chunk]"]
    by (simp add: RemoveFreeChunk_def)
  then show "free_chunks_by_offset ?m = very_beginning_chunk # pre @ post @ [very_end_chunk]" .
  show fm: "free_chunks ?m = pre @ post" using b' by (simp add: free_chunks_def butlast_append)
  have r: "free_chunks_to_be_removed ?m = insert (chunk_id c) (free_chunks_to_be_removed m)"
    using b by (simp add: RemoveFreeChunk_def nth_append)
  have keep: "free_chunks_by_size ?m = free_chunks_by_size m" "next_free_chunk_id ?m = next_free_chunk_id m"
    by (simp_all add: RemoveFreeChunk_def)
  have "sorted_wrt chunk_gap ((very_beginning_chunk # pre) @ c # (post @ [very_end_chunk]))"
    using ok b by (metis manager_ok_def offsets_ok_def)
  then have o: "offsets_ok chunk_alignment ?m"
    using ok f fm b' by (auto simp: manager_defs sorted_wrt_append)
  have d: "distinct (pre @ c # post)"
    using distinct_sorted_gap [OF free_chunks_gaps [OF ok] free_chunk_bounds(2) [OF ok]] f by simp
  then have ne: "x \<noteq> c" if "x \<in> set (pre @ post)" for x using that by auto
  have live: "set (pre @ c # post) = {c \<in> set (free_chunks_by_size m). chunk_id c \<notin> free_chunks_to_be_removed m}"
    and inj: "inj_on chunk_id (set (free_chunks_by_size m))" using ok f by (simp_all add: manager_defs)
  have "set (pre @ post) = {x \<in> set (free_chunks_by_size m). chunk_id x \<notin> insert (chunk_id c) (free_chunks_to_be_removed m)}"
  proof (intro set_eqI iffI)
    fix x assume x: "x \<in> set (pre @ post)"
    then have "x \<in> {c \<in> set (free_chunks_by_size m). chunk_id c \<notin> free_chunks_to_be_removed m}"
      "c \<in> {c \<in> set (free_chunks_by_size m). chunk_id c \<notin> free_chunks_to_be_removed m}" using live by auto
    with ne [OF x] inj show "x \<in> {x \<in> set (free_chunks_by_size m). chunk_id x \<notin> insert (chunk_id c) (free_chunks_to_be_removed m)}"
      by (auto simp: inj_on_def)
  next
    fix x assume x: "x \<in> {x \<in> set (free_chunks_by_size m). chunk_id x \<notin> insert (chunk_id c) (free_chunks_to_be_removed m)}"
    then have "x \<in> set (pre @ c # post)" "x \<noteq> c" using live by auto
    then show "x \<in> set (pre @ post)" by auto
  qed
  moreover have "chunk_id c < next_free_chunk_id m" using live ok by (auto simp: manager_defs)
  ultimately have "sizes_ok ?m" using ok fm r keep by (simp add: manager_defs)
  then show "manager_ok chunk_alignment ?m" using o by (simp add: manager_ok_def)
qed


lemma AddNewFreeChunk_ok:
  assumes ok: "manager_ok chunk_alignment m" and f: "free_chunks m = pre @ post"
    and r: "0 \<le> a" "a < b" "b \<le> kint64max - 3"
    and g: "\<forall>c\<in>set pre. chunk_end c < a" "\<forall>c\<in>set post. b < chunk_offset c"
  shows "manager_ok chunk_alignment (AddNewFreeChunk chunk_alignment m a b)"
    "free_chunks (AddNewFreeChunk chunk_alignment m a b) =
       pre @ MemoryChunk a b (chunk_alignment a) (next_free_chunk_id m) # post"
proof -
  let ?m = "AddNewFreeChunk chunk_alignment m a b"
  let ?c = "MemoryChunk a b (chunk_alignment a) (next_free_chunk_id m)"
  have b: "free_chunks_by_offset m = (very_beginning_chunk # pre) @ (post @ [very_end_chunk])"
    using ok f by (simp add: manager_defs)
  have below: "chunk_offset x < a" if "x \<in> set (very_beginning_chunk # pre)" for x
    using that g(1) r(1) free_chunk_bounds(2) [OF ok, of x] f by auto
  have above: "b < chunk_offset x" if "x \<in> set (post @ [very_end_chunk])" for x
    using that g(2) r(3) by auto
  have "btree_insert OffsetLessThan ?c ((very_beginning_chunk # pre) @ (post @ [very_end_chunk])) =
      (very_beginning_chunk # pre) @ ?c # (post @ [very_end_chunk])"
  proof (rule btree_insert_append)
    show "\<forall>y\<in>set (very_beginning_chunk # pre). OffsetLessThan y ?c" using below by (auto simp: OffsetLessThan_def)
    show "\<forall>y\<in>set (post @ [very_end_chunk]). \<not> OffsetLessThan y ?c" using above r(2) by (force simp: OffsetLessThan_def)
    show "post @ [very_end_chunk] = [] \<or> OffsetLessThan ?c (hd (post @ [very_end_chunk]))"
      using above [of "hd (post @ [very_end_chunk])"] r(2) hd_in_set [of "post @ [very_end_chunk]"]
      by (auto simp: OffsetLessThan_def)
  qed
  then have b': "free_chunks_by_offset ?m = very_beginning_chunk # (pre @ ?c # post) @ [very_end_chunk]"
    using b by (simp add: AddNewFreeChunk_def Let_def)
  show fm: "free_chunks ?m = pre @ ?c # post" using free_chunks_between [OF b'] .
  have "sorted_wrt chunk_gap ((very_beginning_chunk # pre) @ (post @ [very_end_chunk]))"
    using ok b by (metis manager_ok_def offsets_ok_def)
  then have "sorted_wrt chunk_gap (very_beginning_chunk # (pre @ ?c # post) @ [very_end_chunk])"
    using g r by (auto simp: sorted_wrt_append chunk_gap_def)
  then have o: "offsets_ok chunk_alignment ?m"
    using b' fm r(2) free_chunk_bounds [OF ok] f unfolding offsets_ok_def by auto
  have k: "next_free_chunk_id ?m = next_free_chunk_id m + 1" "free_chunks_to_be_removed ?m = free_chunks_to_be_removed m"
    "free_chunks_by_size ?m = btree_insert AlignedSizeLessThan ?c (free_chunks_by_size m)"
    by (simp_all add: AddNewFreeChunk_def Let_def)
  have so: "sizes_ok m" using ok by (simp add: manager_ok_def)
  then have fresh: "\<forall>x\<in>set (free_chunks_by_size m). chunk_id x < chunk_id ?c" by (simp add: sizes_ok_def)
  then have "\<forall>x\<in>set (free_chunks_by_size m). AlignedSizeLessThan ?c x \<or> AlignedSizeLessThan x ?c"
    by (force simp: AlignedSizeLessThan_def)
  note ins = by_size.btree_insert_new [OF _ this]
  have bs: "sorted_wrt AlignedSizeLessThan (free_chunks_by_size ?m)"
    "set (free_chunks_by_size ?m) = insert ?c (set (free_chunks_by_size m))"
    using ins so k(3) by (simp_all add: sizes_ok_def)
  have "inj_on chunk_id (insert ?c (set (free_chunks_by_size m)))" using so fresh by (fastforce simp: sizes_ok_def inj_on_def)
  moreover have "set (pre @ ?c # post) =
      {x \<in> insert ?c (set (free_chunks_by_size m)). chunk_id x \<notin> free_chunks_to_be_removed m}"
    using so f by (auto simp: sizes_ok_def)
  ultimately have "sizes_ok ?m" using so bs k fm unfolding sizes_ok_def by auto
  then show "manager_ok chunk_alignment ?m" using o by (simp add: manager_ok_def)
qed


section \<open>Allocation and deallocation on the set of free addresses\<close>

lemma free_chunks_split_gap:
  assumes "manager_ok chunk_alignment m" "free_chunks m = pre @ c # post"
  shows "\<forall>x\<in>set pre. chunk_end x < chunk_offset c" "\<forall>x\<in>set post. chunk_end c < chunk_offset x"
  using free_chunks_gaps [OF assms(1)] assms(2) by (auto simp: sorted_wrt_append chunk_gap_def)

text \<open>A range of free addresses lies in one chunk.\<close>

lemma free_range_in_chunk:
  assumes ok: "manager_ok chunk_alignment m" and r: "a < b" "{a..<b} \<subseteq> free_space m"
  obtains pre c post where "free_chunks m = pre @ c # post" "chunk_offset c \<le> a" "b \<le> chunk_end c"
proof -
  have "a \<in> free_space m" using r by auto
  then obtain c where c: "c \<in> set (free_chunks m)" "chunk_offset c \<le> a" "a < chunk_end c"
    by (auto simp: free_space_def)
  then obtain pre post where s: "free_chunks m = pre @ c # post" by (metis split_list)
  note g = free_chunks_split_gap [OF ok s]
  have "b \<le> chunk_end c"
  proof (rule ccontr)
    assume "\<not> b \<le> chunk_end c"
    then have "chunk_end c \<in> free_space m" using r c by auto
    then obtain d where d: "d \<in> set (free_chunks m)" "chunk_offset d \<le> chunk_end c" "chunk_end c < chunk_end d"
      by (auto simp: free_space_def)
    then consider "d = c" | "d \<in> set pre" | "d \<in> set post" using s by auto
    then show False using g d c by cases fastforce+
  qed
  with that s c show thesis by blast
qed

lemma Allocate_position:
  assumes ok: "manager_ok chunk_alignment m" and f: "free_chunks m = pre @ post"
    and "0 \<le> a" "a < kint64max - 2" "\<forall>x\<in>set pre. chunk_offset x \<le> a" "\<forall>x\<in>set post. a < chunk_offset x"
  shows "lower_bound OffsetLessThan (MemoryChunk a kint64max (- 1) (- 1)) (free_chunks_by_offset m) = Suc (length pre)"
proof -
  have "free_chunks_by_offset m = (very_beginning_chunk # pre) @ (post @ [very_end_chunk])"
    using ok f by (simp add: manager_defs)
  moreover have "lower_bound OffsetLessThan (MemoryChunk a kint64max (- 1) (- 1)) ((very_beginning_chunk # pre) @ (post @ [very_end_chunk]))
      = length (very_beginning_chunk # pre)"
  proof (rule lower_bound_append)
    show "\<forall>y\<in>set (very_beginning_chunk # pre). OffsetLessThan y (MemoryChunk a kint64max (- 1) (- 1))"
      using assms(3,5) free_chunk_bounds(3) [OF ok] f by (fastforce simp: OffsetLessThan_def)
    show "\<forall>y\<in>set (post @ [very_end_chunk]). \<not> OffsetLessThan y (MemoryChunk a kint64max (- 1) (- 1))"
      using assms(4,6) by (fastforce simp: OffsetLessThan_def)
  qed
  ultimately show ?thesis by simp
qed

lemma Allocate_ok:
  assumes ok: "manager_ok chunk_alignment m" and r: "a < b" "{a..<b} \<subseteq> free_space m"
  shows "\<exists>m'. Allocate chunk_alignment m a b = Inr m' \<and> manager_ok chunk_alignment m' \<and>
    free_space m' = free_space m - {a..<b}"
proof -
  obtain pre c post where s: "free_chunks m = pre @ c # post" and c: "chunk_offset c \<le> a" "b \<le> chunk_end c"
    using free_range_in_chunk [OF ok r] .
  note g = free_chunks_split_gap [OF ok s]
  note bd = free_chunk_bounds [OF ok, of c]
  have cb: "0 \<le> chunk_offset c" "chunk_end c \<le> kint64max - 3" using bd s by simp_all
  have pre_lt: "chunk_offset x < chunk_offset c" if "x \<in> set pre" for x
    using g(1) that free_chunk_bounds(2) [OF ok, of x] s by fastforce
  have pos: "lower_bound OffsetLessThan (MemoryChunk a kint64max (- 1) (- 1)) (free_chunks_by_offset m) = Suc (length (pre @ [c]))"
    by (rule Allocate_position [OF ok, where post = post]) (use s c cb r g pre_lt in \<open>fastforce+\<close>)
  have at: "free_chunks_by_offset m ! Suc (length pre) = c" using ok s by (simp add: manager_defs nth_append)
  let ?m1 = "RemoveFreeChunk m (Suc (length pre))"
  note m1 = RemoveFreeChunk_ok(1,2) [OF ok s]
  let ?m2 = "if chunk_end c > b then AddNewFreeChunk chunk_alignment ?m1 b (chunk_end c) else ?m1"
  define tail where "tail = (if chunk_end c > b then [MemoryChunk b (chunk_end c) (chunk_alignment b) (next_free_chunk_id ?m1)] else [])"
  have "\<forall>x\<in>set pre. chunk_end x < b" using g(1) c r by fastforce
  then have m2: "manager_ok chunk_alignment ?m2" "free_chunks ?m2 = pre @ tail @ post"
    using m1 AddNewFreeChunk_ok [OF m1, of b "chunk_end c"] cb c r g unfolding tail_def by auto
  let ?m3 = "if chunk_offset c < a then AddNewFreeChunk chunk_alignment ?m2 (chunk_offset c) a else ?m2"
  define front where "front = (if chunk_offset c < a then [MemoryChunk (chunk_offset c) a (chunk_alignment (chunk_offset c)) (next_free_chunk_id ?m2)] else [])"
  have t: "\<forall>x\<in>set (tail @ post). a < chunk_offset x" using g(2) c r unfolding tail_def by auto
  have m3: "manager_ok chunk_alignment ?m3" "free_chunks ?m3 = pre @ front @ tail @ post"
    using m2 AddNewFreeChunk_ok [OF m2, of "chunk_offset c" a] cb c r g(1) t unfolding front_def by auto
  have e: "Allocate chunk_alignment m a b = Inr ?m3" using pos at c by (simp add: Allocate_def prev_iterator_def Let_def)
  have "free_space ?m3 = free_space m - {a..<b}"
  proof -
    have "(\<Union>x\<in>set (front @ tail). {chunk_offset x..<chunk_end x}) = {chunk_offset c..<chunk_end c} - {a..<b}"
      unfolding front_def tail_def using c r by auto
    moreover have "(\<Union>x\<in>set pre \<union> set post. {chunk_offset x..<chunk_end x}) \<inter> {a..<b} = {}" using g c by force
    ultimately show ?thesis unfolding free_space_def m3(2) s by auto
  qed
  with e m3(1) show ?thesis by blast
qed


lemma Allocate_fails:
  assumes ok: "manager_ok chunk_alignment m" and r: "0 \<le> a" "a < b" "a < kint64max - 2" "\<not> {a..<b} \<subseteq> free_space m"
  shows "\<exists>e. Allocate chunk_alignment m a b = Inl e"
proof -
  define pre where "pre = takeWhile (\<lambda>x. chunk_offset x \<le> a) (free_chunks m)"
  define post where "post = dropWhile (\<lambda>x. chunk_offset x \<le> a) (free_chunks m)"
  have s: "free_chunks m = pre @ post" by (simp add: pre_def post_def)
  have p: "\<forall>x\<in>set pre. chunk_offset x \<le> a" unfolding pre_def by (auto dest: set_takeWhileD)
  have q: "\<forall>x\<in>set post. a < chunk_offset x"
  proof (cases post)
    case (Cons y ys)
    then have d: "dropWhile (\<lambda>x. chunk_offset x \<le> a) (free_chunks m) = y # ys" by (simp add: post_def)
    then have y: "a < chunk_offset y" by (simp add: dropWhile_eq_Cons_conv)
    have "\<forall>x\<in>set ys. chunk_end y < chunk_offset x" using free_chunks_split_gap(2) [OF ok, of pre y ys] s Cons by simp
    with y free_chunk_bounds(2) [OF ok, of y] s Cons show ?thesis by fastforce
  qed simp
  note pos = Allocate_position [OF ok s r(1,3) p q]
  let ?c = "free_chunks_by_offset m ! length pre"
  have "free_chunks_by_offset m = (very_beginning_chunk # pre) @ (post @ [very_end_chunk])" using ok s by (simp add: manager_defs)
  then have c: "?c = (very_beginning_chunk # pre) ! length pre" by (simp only: nth_append) simp
  have "\<not> (chunk_offset ?c \<le> a \<and> b \<le> chunk_end ?c)"
  proof (cases pre rule: rev_cases)
    case Nil then show ?thesis using c r by simp
  next
    case (snoc ys y)
    then have y: "?c = y" "y \<in> set (free_chunks m)" using c s by (simp_all add: nth_append)
    then show ?thesis using r(4) by (force simp: free_space_def)
  qed
  with pos show ?thesis by (auto simp: Allocate_def prev_iterator_def Let_def)
qed

lemma Deallocate_split:
  assumes ok: "manager_ok chunk_alignment m" and r: "a < b" "{a..<b} \<inter> free_space m = {}"
  obtains pre post where "free_chunks m = pre @ post" "\<forall>x\<in>set pre. chunk_end x \<le> a" "\<forall>x\<in>set post. b \<le> chunk_offset x"
proof
  let ?P = "\<lambda>x. chunk_end x \<le> a"
  show "free_chunks m = takeWhile ?P (free_chunks m) @ dropWhile ?P (free_chunks m)" by simp
  show "\<forall>x\<in>set (takeWhile ?P (free_chunks m)). chunk_end x \<le> a" by (auto dest: set_takeWhileD)
  show "\<forall>x\<in>set (dropWhile ?P (free_chunks m)). b \<le> chunk_offset x"
  proof (cases "dropWhile ?P (free_chunks m)")
    case (Cons y ys)
    then have s: "free_chunks m = takeWhile ?P (free_chunks m) @ y # ys" by (metis takeWhile_dropWhile_id)
    have y: "a < chunk_end y" using hd_dropWhile [of ?P "free_chunks m"] Cons by force
    have "y \<in> set (free_chunks m)" by (subst s) simp
    with free_chunk_bounds(2) [OF ok this] have "max a (chunk_offset y) \<in> free_space m"
      using y \<open>y \<in> set (free_chunks m)\<close> unfolding free_space_def by (intro UN_I [of y]) auto
    then have "max a (chunk_offset y) \<notin> {a..<b}" using r by blast
    then have "b \<le> chunk_offset y" using r(1) by (auto simp: max_def split: if_splits)
    with free_chunks_split_gap(2) [OF ok s] free_chunk_bounds(2) [OF ok \<open>y \<in> set (free_chunks m)\<close>] Cons show ?thesis
      by fastforce
  qed (simp only: list.set(1) ball_empty)
qed

lemma Deallocate_ok:
  assumes ok: "manager_ok chunk_alignment m" and r: "0 \<le> a" "a < b" "b \<le> kint64max - 3" "{a..<b} \<inter> free_space m = {}"
  shows "\<exists>m'. Deallocate chunk_alignment m a b = Inr m' \<and> manager_ok chunk_alignment m' \<and>
    free_space m' = free_space m \<union> {a..<b}"
proof -
  obtain pre post where s: "free_chunks m = pre @ post" and p: "\<forall>x\<in>set pre. chunk_end x \<le> a"
    and q: "\<forall>x\<in>set post. b \<le> chunk_offset x"
    using Deallocate_split [OF ok r(2,4)] .
  have bm: "free_chunks_by_offset m = (very_beginning_chunk # pre) @ (post @ [very_end_chunk])"
    using ok s by (simp add: manager_defs)
  have plt: "\<forall>x\<in>set (very_beginning_chunk # pre). chunk_offset x < a"
    using p r(1) free_chunk_bounds(2) [OF ok] s by fastforce
  have ln: "\<forall>x\<in>set post. chunk_offset x < chunk_end x" using free_chunk_bounds(2) [OF ok] s by simp
  have above: "lower_bound OffsetLessThan (MemoryChunk b (b + 1) (- 1) (- 1)) (free_chunks_by_offset m) = Suc (length pre)"
    unfolding bm using lower_bound_append [of "very_beginning_chunk # pre" OffsetLessThan "MemoryChunk b (b + 1) (- 1) (- 1)" "post @ [very_end_chunk]"]
      plt q ln r by (fastforce simp: OffsetLessThan_def)
  have at: "free_chunks_by_offset m ! Suc (length pre) = hd (post @ [very_end_chunk])"
    unfolding bm by (cases post) (simp_all add: nth_append)
  define adj where "adj = (chunk_offset (hd (post @ [very_end_chunk])) = b)"
  have adjpost: "adj \<Longrightarrow> post \<noteq> []" using r(3) by (auto simp: adj_def)
  define right where "right = (if adj then chunk_end (hd post) else b)"
  define m1 where "m1 = (if adj then RemoveFreeChunk m (Suc (length pre)) else m)"
  define post1 where "post1 = (if adj then tl post else post)"
  have m1: "manager_ok chunk_alignment m1" "free_chunks m1 = pre @ post1"
  proof -
    have "manager_ok chunk_alignment m1 \<and> free_chunks m1 = pre @ post1"
    proof (cases adj)
      case True
      then have "free_chunks m = pre @ hd post # tl post" using s adjpost by simp
      from RemoveFreeChunk_ok(1,2) [OF ok this] True show ?thesis by (simp add: m1_def post1_def)
    qed (simp add: m1_def post1_def ok s)
    then show "manager_ok chunk_alignment m1" "free_chunks m1 = pre @ post1" by simp_all
  qed
  have rb: "b \<le> right" "right \<le> kint64max - 3"
  proof -
    have "b \<le> chunk_end (hd post) \<and> chunk_end (hd post) \<le> kint64max - 3" if adj
    proof -
      have h: "hd post \<in> set post" using adjpost that by simp
      with free_chunk_bounds(3) [OF ok, of "hd post"] ln q s show ?thesis by fastforce
    qed
    then show "b \<le> right" "right \<le> kint64max - 3" using r(3) by (simp_all add: right_def)
  qed
  have gap: "\<forall>x\<in>set post1. right < chunk_offset x"
  proof (cases post)
    case (Cons y ys)
    have "\<forall>x\<in>set ys. chunk_end y < chunk_offset x" using free_chunks_split_gap(2) [OF ok, of pre y ys] s Cons by simp
    moreover have "chunk_offset y < chunk_end y" "b \<le> chunk_offset y" using ln q Cons by simp_all
    ultimately show ?thesis using Cons by (auto simp: right_def post1_def adj_def)
  qed (simp add: post1_def)
  have bm1: "free_chunks_by_offset m1 = (very_beginning_chunk # pre) @ (post1 @ [very_end_chunk])"
    using m1 by (simp add: manager_defs)
  have q1: "\<forall>x\<in>set (post1 @ [very_end_chunk]). a < chunk_offset x" using gap rb r by fastforce
  have below: "lower_bound OffsetLessThan (MemoryChunk a (a + 1) (- 1) (- 1)) (free_chunks_by_offset m1) = Suc (length pre)"
    unfolding bm1 using lower_bound_append [of "very_beginning_chunk # pre" OffsetLessThan "MemoryChunk a (a + 1) (- 1) (- 1)" "post1 @ [very_end_chunk]"]
      plt q1 by (fastforce simp: OffsetLessThan_def)
  let ?l = "(very_beginning_chunk # pre) ! length pre"
  have nl: "free_chunks_by_offset m1 ! length pre = ?l" unfolding bm1 by (simp only: nth_append) simp
  have e: "Deallocate chunk_alignment m a b =
      (if chunk_end ?l \<ge> a
       then Inr (AddNewFreeChunk chunk_alignment (RemoveFreeChunk m1 (length pre)) (chunk_offset ?l) (max right (chunk_end ?l)))
       else Inr (AddNewFreeChunk chunk_alignment m1 a right))"
  proof -
    have "Suc (length pre) < length (free_chunks_by_offset m)" unfolding bm by simp
    moreover have "adj \<Longrightarrow> right = chunk_end (hd (post @ [very_end_chunk]))" using adjpost by (simp add: right_def)
    moreover have "\<not> adj \<Longrightarrow> right = b" by (simp add: right_def)
    ultimately show ?thesis
      using above below at nl m1_def adj_def by (cases adj) (simp_all add: Deallocate_def prev_iterator_def Let_def)
  qed
  have space: "(\<Union>x\<in>set post. {chunk_offset x..<chunk_end x}) \<union> {a..<b} =
      {a..<right} \<union> (\<Union>x\<in>set post1. {chunk_offset x..<chunk_end x})"
  proof (cases adj)
    case True
    then obtain y ys where y: "post = y # ys" "chunk_offset y = b" using adjpost by (cases post) (auto simp: adj_def)
    then have "{b..<chunk_end y} \<union> {a..<b} = {a..<right}" using True r(2) ln by (auto simp: right_def)
    then show ?thesis using True y by (auto simp: post1_def)
  qed (auto simp: right_def post1_def)
  show ?thesis
  proof (cases "chunk_end ?l \<ge> a")
    case True
    then obtain ys y where y: "pre = ys @ [y]" using r(1) by (cases pre rule: rev_cases) auto
    have ly: "?l = y" "chunk_end y = a" using True p y by (auto simp: nth_append)
    have s1: "free_chunks m1 = ys @ y # post1" using m1(2) y by simp
    note m2 = RemoveFreeChunk_ok(1,2) [OF m1(1) s1]
    note m3 = AddNewFreeChunk_ok [OF m2, of "chunk_offset y" right]
    have yb: "0 \<le> chunk_offset y" "chunk_offset y < right"
      using free_chunk_bounds(1,2) [OF m1(1), of y] s1 ly rb r by auto
    have g3: "\<forall>x\<in>set ys. chunk_end x < chunk_offset y" using free_chunks_split_gap(1) [OF m1(1) s1] .
    have mx: "max right (chunk_end y) = right" using ly rb r by simp
    let ?m' = "AddNewFreeChunk chunk_alignment (RemoveFreeChunk m1 (length pre)) (chunk_offset y) right"
    have "Deallocate chunk_alignment m a b = Inr ?m'" using e True ly mx by simp
    moreover have "manager_ok chunk_alignment ?m'" "free_space ?m' = free_space m \<union> {a..<b}"
    proof -
      note f = m3 [OF yb rb(2) g3 gap]
      show "manager_ok chunk_alignment ?m'" using f(1) y by simp
      have "{chunk_offset y..<right} = {chunk_offset y..<chunk_end y} \<union> {a..<right}"
        using ly rb r yb free_chunk_bounds(2) [OF m1(1), of y] s1 by auto
      then show "free_space ?m' = free_space m \<union> {a..<b}"
        using f(2) s y space unfolding free_space_def by auto
    qed
    ultimately show ?thesis by blast
  next
    case False
    have pe: "\<forall>x\<in>set pre. chunk_end x < a"
    proof (cases pre rule: rev_cases)
      case (snoc ys y)
      then have "chunk_end y < a" using False by (simp add: nth_append)
      moreover have "\<forall>x\<in>set ys. chunk_end x < chunk_offset y" using free_chunks_split_gap(1) [OF ok, of ys y post] s snoc by simp
      moreover have "chunk_offset y < chunk_end y" using free_chunk_bounds(2) [OF ok, of y] s snoc by simp
      ultimately show ?thesis using snoc by fastforce
    qed simp
    note f = AddNewFreeChunk_ok [OF m1 r(1) _ rb(2) pe gap]
    let ?m' = "AddNewFreeChunk chunk_alignment m1 a right"
    have "Deallocate chunk_alignment m a b = Inr ?m'" using e False by simp
    moreover have "manager_ok chunk_alignment ?m'" using f(1) rb r by simp
    moreover have "free_space ?m' = free_space m \<union> {a..<b}"
      using f(2) rb r s space unfolding free_space_def by auto
    ultimately show ?thesis by blast
  qed
qed



section \<open>The search for the smallest sufficient chunk\<close>

lemma FindJustLargeEnough_ok:
  assumes ok: "manager_ok chunk_alignment m" and f: "FindJustLargeEnough m sz = (m', r)"
  shows "manager_ok chunk_alignment m'" "free_chunks m' = free_chunks m"
    "r = None \<Longrightarrow> c \<in> set (free_chunks m) \<Longrightarrow> aligned_size c < sz"
    "r = Some c \<Longrightarrow> c \<in> set (free_chunks m) \<and> sz \<le> aligned_size c"
    "r = Some c \<Longrightarrow> d \<in> set (free_chunks m) \<Longrightarrow> sz \<le> aligned_size d \<Longrightarrow> d = c \<or> AlignedSizeLessThan c d"
proof -
  let ?q = "MemoryChunk 0 0 (- sz) (- 1)"
  let ?gone = "\<lambda>c. chunk_id c \<in> free_chunks_to_be_removed m"
  have so: "sorted_wrt AlignedSizeLessThan (free_chunks_by_size m)" "inj_on chunk_id (set (free_chunks_by_size m))"
    and live: "set (free_chunks m) = {c \<in> set (free_chunks_by_size m). \<not> ?gone c}"
    and ids: "\<forall>c\<in>set (free_chunks_by_size m). 0 < chunk_id c"
    using ok by (simp_all add: manager_ok_def sizes_ok_def)
  obtain pre post where s: "free_chunks_by_size m = pre @ post" "length pre = lower_bound AlignedSizeLessThan ?q (free_chunks_by_size m)"
    and p: "\<forall>y\<in>set pre. AlignedSizeLessThan y ?q" and q: "\<forall>y\<in>set post. \<not> AlignedSizeLessThan y ?q"
    using by_size.lower_bound_split [OF so(1)] by blast
  define rest where "rest = dropWhile ?gone post"
  define dropped where "dropped = takeWhile ?gone post"
  have dr: "post = dropped @ rest" "\<forall>x\<in>set dropped. ?gone x"
    by (auto simp: dropped_def rest_def dest: set_takeWhileD)
  have m': "m' = m\<lparr>free_chunks_by_size := pre @ rest\<rparr>" "r = (case rest of [] \<Rightarrow> None | c # _ \<Rightarrow> Some c)"
    using f s by (simp_all add: FindJustLargeEnough_def Let_def rest_def flip: s(2))
  show fm: "free_chunks m' = free_chunks m" by (simp add: m' free_chunks_def)
  have "offsets_ok chunk_alignment m'" using ok by (simp add: manager_ok_def offsets_ok_def m' free_chunks_def)
  moreover have "sizes_ok m'"
  proof -
    have "sorted_wrt AlignedSizeLessThan (pre @ rest)" using so s dr by (auto simp: sorted_wrt_append)
    moreover have "inj_on chunk_id (set (pre @ rest))" using so(2) s dr by (auto intro: inj_on_subset)
    moreover have "set (free_chunks m) = {c \<in> set (pre @ rest). \<not> ?gone c}" using live s dr by auto
    moreover have "\<forall>c\<in>set (pre @ rest). 0 < chunk_id c \<and> chunk_id c < next_free_chunk_id m"
      using ok s dr by (auto simp: manager_ok_def sizes_ok_def)
    ultimately show ?thesis using ok fm by (simp add: manager_ok_def sizes_ok_def m')
  qed
  ultimately show "manager_ok chunk_alignment m'" by (simp add: manager_ok_def)
  have small: "aligned_size x < sz" if "x \<in> set pre" "x \<in> set (free_chunks m)" for x
  proof -
    have "0 < chunk_id x" "0 \<le> chunk_offset x" using ids that(2) live free_chunk_bounds(1) [OF ok that(2)] by auto
    with bspec [OF p that(1)] show ?thesis by (auto simp: AlignedSizeLessThan_def aligned_size_def)
  qed
  have big: "sz \<le> aligned_size x" if "x \<in> set post" for x
    using q that by (force simp: AlignedSizeLessThan_def aligned_size_def)
  have cases: "x \<in> set rest" if "x \<in> set (free_chunks m)" "sz \<le> aligned_size x" for x
    using that live s dr small by fastforce
  show "r = None \<Longrightarrow> c \<in> set (free_chunks m) \<Longrightarrow> aligned_size c < sz"
    using cases [of c] m'(2) by (cases rest) fastforce+
  show "r = Some c \<Longrightarrow> c \<in> set (free_chunks m) \<and> sz \<le> aligned_size c"
  proof -
    assume "r = Some c"
    then obtain cs where c: "rest = c # cs" using m'(2) by (cases rest) auto
    then have "\<not> ?gone c" by (simp add: rest_def dropWhile_eq_Cons_conv)
    then show ?thesis using c big [of c] live s dr by auto
  qed
  show "r = Some c \<Longrightarrow> d \<in> set (free_chunks m) \<Longrightarrow> sz \<le> aligned_size d \<Longrightarrow> d = c \<or> AlignedSizeLessThan c d"
  proof -
    assume "r = Some c" "d \<in> set (free_chunks m)" "sz \<le> aligned_size d"
    then obtain cs where c: "rest = c # cs" "d \<in> set rest" using m'(2) cases by (cases rest) auto
    moreover have "sorted_wrt AlignedSizeLessThan rest" using so s dr by (simp add: sorted_wrt_append)
    ultimately show ?thesis by auto
  qed
qed

lemma whole_space_chunk:
  assumes ok: "manager_ok chunk_alignment m" and f: "free_space m = whole_space"
  obtains c where "free_chunks m = [c]" "chunk_offset c = 0" "chunk_end c = kint64max - 3"
proof -
  obtain pre c post where s: "free_chunks m = pre @ c # post" "chunk_offset c \<le> 0" "kint64max - 3 \<le> chunk_end c"
    using free_range_in_chunk [OF ok, of 0 "kint64max - 3"] f by (auto simp: kint64max_def)
  have c: "chunk_offset c = 0" "chunk_end c = kint64max - 3"
    using free_chunk_bounds [OF ok, of c] s by simp_all
  have "pre = []" using free_chunks_split_gap(1) [OF ok s(1)] free_chunk_bounds(1,2) [OF ok] s c
    by (cases pre) fastforce+
  moreover have "post = []" using free_chunks_split_gap(2) [OF ok s(1)] free_chunk_bounds(2,3) [OF ok] s c
    by (cases post) fastforce+
  ultimately show thesis using that s c by simp
qed

lemma GetFreeChunks_ok: "manager_ok chunk_alignment m \<Longrightarrow> GetFreeChunks m = map (\<lambda>c. (chunk_offset c, chunk_end c)) (free_chunks m)"
  by (simp add: GetFreeChunks_def free_chunks_def map_butlast)


section \<open>Clients of a free space\<close>

text \<open>
  What a client of a free-space manager relies on: allocation and deallocation act on the set of free addresses
  as difference and union, and an allocation outside it is refused. A client keeps the list of its live
  ranges and serves requests; its lemmas hold of every manager with this contract.
\<close>

datatype request = AllocateRequest int int | DeallocateRequest int int

fun request_in :: "int set \<Rightarrow> request \<Rightarrow> bool" where
  "request_in space (AllocateRequest a b) \<longleftrightarrow> a < b \<and> {a..<b} \<subseteq> space"
| "request_in space (DeallocateRequest a b) \<longleftrightarrow> True"

fun serve :: "('s \<Rightarrow> int \<Rightarrow> int \<Rightarrow> 's status_or) \<Rightarrow> ('s \<Rightarrow> int \<Rightarrow> int \<Rightarrow> 's status_or) \<Rightarrow>
  's \<times> (int \<times> int) list \<Rightarrow> request \<Rightarrow> ('s \<times> (int \<times> int) list) status_or" where
  "serve alloc dealloc (m, live) (AllocateRequest a b) = bindE (alloc m a b) (\<lambda>m'. Inr (m', (a, b) # live))"
| "serve alloc dealloc (m, live) (DeallocateRequest a b) =
     (if (a, b) \<notin> set live then Inl (InvalidArgument ''not a live range'')
      else bindE (dealloc m a b) (\<lambda>m'. Inr (m', remove1 (a, b) live)))"

definition ranges_disjoint :: "int \<times> int \<Rightarrow> int \<times> int \<Rightarrow> bool" where
  "ranges_disjoint r r' \<longleftrightarrow> {fst r..<snd r} \<inter> {fst r'..<snd r'} = {}"

definition covered :: "(int \<times> int) list \<Rightarrow> int set" where
  "covered live = (\<Union>r\<in>set live. {fst r..<snd r})"

lemma covered_remove1:
  assumes "sorted_wrt ranges_disjoint live" "r \<in> set live" "\<forall>x\<in>set live. fst x < snd x"
  shows "covered (remove1 r live) = covered live - {fst r..<snd r}"
  using assms
proof (induction live)
  case (Cons x live)
  show ?case
  proof (cases "x = r")
    case True
    have "covered live \<inter> {fst r..<snd r} = {}" using Cons.prems(1) True by (auto simp: covered_def ranges_disjoint_def)
    then show ?thesis using True by (auto simp: covered_def)
  next
    case False
    then have r: "r \<in> set live" using Cons.prems(2) by simp
    then have "{fst x..<snd x} \<inter> {fst r..<snd r} = {}" using Cons.prems(1) by (auto simp: ranges_disjoint_def)
    moreover have "covered (remove1 r live) = covered live - {fst r..<snd r}" using Cons r by simp
    ultimately show ?thesis using False by (auto simp: covered_def)
  qed
qed simp

locale free_space_manager =
  fixes inv :: "'s \<Rightarrow> bool" and free :: "'s \<Rightarrow> int set" and space :: "int set"
    and alloc :: "'s \<Rightarrow> int \<Rightarrow> int \<Rightarrow> 's status_or" and dealloc :: "'s \<Rightarrow> int \<Rightarrow> int \<Rightarrow> 's status_or"
  assumes alloc_free: "inv m \<Longrightarrow> a < b \<Longrightarrow> {a..<b} \<subseteq> free m \<Longrightarrow>
      \<exists>m'. alloc m a b = Inr m' \<and> inv m' \<and> free m' = free m - {a..<b}"
    and alloc_taken: "inv m \<Longrightarrow> a < b \<Longrightarrow> {a..<b} \<subseteq> space \<Longrightarrow> \<not> {a..<b} \<subseteq> free m \<Longrightarrow> \<exists>e. alloc m a b = Inl e"
    and dealloc_taken: "inv m \<Longrightarrow> a < b \<Longrightarrow> {a..<b} \<subseteq> space \<Longrightarrow> {a..<b} \<inter> free m = {} \<Longrightarrow>
      \<exists>m'. dealloc m a b = Inr m' \<and> inv m' \<and> free m' = free m \<union> {a..<b}"
begin

definition client_ok :: "'s \<times> (int \<times> int) list \<Rightarrow> bool" where
  "client_ok s \<longleftrightarrow> inv (fst s) \<and> (\<forall>r\<in>set (snd s). fst r < snd r \<and> {fst r..<snd r} \<subseteq> space) \<and>
     sorted_wrt ranges_disjoint (snd s) \<and> free (fst s) = space - covered (snd s)"

lemma client_start: "inv m \<Longrightarrow> free m = space \<Longrightarrow> client_ok (m, [])"
  by (simp add: client_ok_def covered_def)

lemma allocate_request_ok:
  assumes "client_ok (m, live)" "a < b" "{a..<b} \<subseteq> space" "alloc m a b = Inr m'"
  shows "client_ok (m', (a, b) # live)"
proof -
  have inv: "inv m" and fr: "free m = space - covered live" using assms(1) by (simp_all add: client_ok_def)
  have sub: "{a..<b} \<subseteq> free m" using alloc_taken [OF inv assms(2,3)] assms(4) by auto
  then have m': "inv m'" "free m' = free m - {a..<b}" using alloc_free [OF inv assms(2)] assms(4) by auto
  have "\<forall>r\<in>set live. ranges_disjoint (a, b) r"
    using sub fr by (simp only: ranges_disjoint_def covered_def fst_conv snd_conv) blast
  moreover have "free m' = space - covered ((a, b) # live)" using m'(2) fr by (auto simp: covered_def)
  ultimately show ?thesis using assms m'(1) by (simp add: client_ok_def)
qed

lemma deallocate_request_ok:
  assumes "client_ok (m, live)" "r \<in> set live"
  shows "\<exists>m'. dealloc m (fst r) (snd r) = Inr m' \<and> client_ok (m', remove1 r live)"
proof -
  have c: "inv m" "free m = space - covered live" "fst r < snd r" "{fst r..<snd r} \<subseteq> space"
    "sorted_wrt ranges_disjoint live" "\<forall>x\<in>set live. fst x < snd x"
    using assms by (simp_all add: client_ok_def)
  have "{fst r..<snd r} \<inter> free m = {}" using c(2) assms(2) by (auto simp: covered_def)
  then obtain m' where m': "dealloc m (fst r) (snd r) = Inr m'" "inv m'" "free m' = free m \<union> {fst r..<snd r}"
    using dealloc_taken [OF c(1,3,4)] by blast
  have "free m' = space - covered (remove1 r live)"
    using m'(3) c(2,4) covered_remove1 [OF c(5) assms(2) c(6)] by auto
  moreover have "sorted_wrt ranges_disjoint (remove1 r live)" by (rule sorted_wrt_remove1 [OF c(5)])
  ultimately show ?thesis using m'(1,2) assms(1) notin_set_remove1 [of _ live r] by (fastforce simp: client_ok_def)
qed

lemma serve_ok:
  assumes "client_ok s" "request_in space r" "serve alloc dealloc s r = Inr s'"
  shows "client_ok s'"
proof (cases s)
  case (Pair m live)
  show ?thesis
  proof (cases r)
    case (AllocateRequest a b)
    then show ?thesis using assms Pair allocate_request_ok [of m live a b] by (auto simp: bindE_eq_Inr)
  next
    case (DeallocateRequest a b)
    then have l: "(a, b) \<in> set live" using assms Pair by (auto split: if_splits)
    from deallocate_request_ok [of m live "(a, b)"] l assms(1) Pair obtain m'
      where "dealloc m a b = Inr m'" "client_ok (m', remove1 (a, b) live)" by auto
    then show ?thesis using assms(3) Pair DeallocateRequest l by simp
  qed
qed

lemma serve_all_ok:
  assumes "client_ok s" "foldE (serve alloc dealloc) s rs = Inr s'" "\<forall>r\<in>set rs. request_in space r"
  shows "client_ok s'"
  by (rule foldE_invariant [where P = client_ok, OF assms(2,1)]) (use serve_ok assms(3) in blast)

lemma free_all:
  assumes "client_ok (m, live)" "mset order = mset live"
  shows "\<exists>m'. foldE (serve alloc dealloc) (m, live) (map (\<lambda>r. DeallocateRequest (fst r) (snd r)) order) = Inr (m', []) \<and>
    inv m' \<and> free m' = space"
  using assms
proof (induction order arbitrary: m live)
  case Nil
  then show ?case by (simp add: client_ok_def covered_def)
next
  case (Cons r order)
  then have r: "r \<in> set live" by (metis list.set_intros(1) mset_eq_setD)
  obtain m1 where m1: "dealloc m (fst r) (snd r) = Inr m1" "client_ok (m1, remove1 r live)"
    using deallocate_request_ok [OF Cons.prems(1) r] by blast
  have "mset order = mset (remove1 r live)" using Cons.prems(2) by (metis mset_remove1 mset.simps(2) add_mset_remove_trivial)
  from Cons.IH [OF m1(2) this] m1(1) r show ?case by simp
qed

end

interpretation fcm: free_space_manager "manager_ok chunk_alignment" free_space whole_space "Allocate chunk_alignment" "Deallocate chunk_alignment"
  for chunk_alignment
proof
  fix m and a b :: int assume ok: "manager_ok chunk_alignment m" and r: "a < b"
  show "{a..<b} \<subseteq> free_space m \<Longrightarrow>
      \<exists>m'. Allocate chunk_alignment m a b = Inr m' \<and> manager_ok chunk_alignment m' \<and> free_space m' = free_space m - {a..<b}"
    by (rule Allocate_ok [OF ok r])
  assume w: "{a..<b} \<subseteq> whole_space"
  then have b: "0 \<le> a" "b \<le> kint64max - 3" using r atLeastLessThan_subset_iff [OF w] by auto
  show "\<not> {a..<b} \<subseteq> free_space m \<Longrightarrow> \<exists>e. Allocate chunk_alignment m a b = Inl e"
    using Allocate_fails [OF ok b(1) r] b r by simp
  show "{a..<b} \<inter> free_space m = {} \<Longrightarrow>
      \<exists>m'. Deallocate chunk_alignment m a b = Inr m' \<and> manager_ok chunk_alignment m' \<and> free_space m' = free_space m \<union> {a..<b}"
    by (rule Deallocate_ok [OF ok b(1) r b(2)])
qed


section \<open>Properties\<close>

text \<open>
  C4. The manager refines a set of free addresses. From every state that meets the invariant and for every
  range inside the managed space, \<open>Allocate\<close> stops exactly when some address of the range is not free and otherwise
  takes the range out of the set; \<open>Deallocate\<close> of a range with no free address adds it; and both keep
  the invariant: merged neighbours and agreement of the two indexes.
\<close>

theorem FreeChunksManager_refines_set:
  assumes "manager_ok chunk_alignment m" "0 \<le> a" "a < b" "b \<le> kint64max - 3"
  shows "(case Allocate chunk_alignment m a b of
            Inl _ \<Rightarrow> \<not> {a..<b} \<subseteq> free_space m
          | Inr m' \<Rightarrow> {a..<b} \<subseteq> free_space m \<and> manager_ok chunk_alignment m' \<and> free_space m' = free_space m - {a..<b}) \<and>
    ({a..<b} \<inter> free_space m = {} \<longrightarrow>
       (\<exists>m'. Deallocate chunk_alignment m a b = Inr m' \<and> manager_ok chunk_alignment m' \<and> free_space m' = free_space m \<union> {a..<b}))"
proof (intro conjI impI)
  show "case Allocate chunk_alignment m a b of
            Inl _ \<Rightarrow> \<not> {a..<b} \<subseteq> free_space m
          | Inr m' \<Rightarrow> {a..<b} \<subseteq> free_space m \<and> manager_ok chunk_alignment m' \<and> free_space m' = free_space m - {a..<b}"
  proof (cases "{a..<b} \<subseteq> free_space m")
    case True
    from Allocate_ok [OF assms(1,3) this] True show ?thesis by auto
  next
    case False
    have "a < kint64max - 2" using assms(3,4) by simp
    from Allocate_fails [OF assms(1-3) this False] obtain e where "Allocate chunk_alignment m a b = Inl e" ..
    with False show ?thesis by simp
  qed
qed (rule Deallocate_ok [OF assms])

text \<open>
  C21. \<open>FindJustLargeEnough\<close>, with its lazy removal, is best fit on the chunks that are really free: it returns
  no chunk exactly when every free chunk is too small, a returned chunk is free, holds the size from its
  aligned offset on and is the smallest that does, and the free chunks and the invariant are unchanged.
\<close>

theorem FindJustLargeEnough_best_fit:
  assumes "manager_ok chunk_alignment m"
  shows "case FindJustLargeEnough m sz of (m', r) \<Rightarrow>
    manager_ok chunk_alignment m' \<and> GetFreeChunks m' = GetFreeChunks m \<and>
    (case r of
       None \<Rightarrow> \<forall>c\<in>set (free_chunks m). chunk_end c - chunk_alignment (chunk_offset c) < sz
     | Some c \<Rightarrow> c \<in> set (free_chunks m) \<and> chunk_alignment (chunk_offset c) + sz \<le> chunk_end c \<and>
         (\<forall>d\<in>set (free_chunks m). sz \<le> aligned_size d \<longrightarrow> aligned_size c \<le> aligned_size d))"
proof (cases "FindJustLargeEnough m sz")
  case (Pair m' r)
  note f = FindJustLargeEnough_ok [OF assms Pair]
  have al: "aligned_size c = chunk_end c - chunk_alignment (chunk_offset c)" if "c \<in> set (free_chunks m)" for c
    using free_chunk_bounds(4) [OF assms that] by (simp add: aligned_size_def)
  have "GetFreeChunks m' = GetFreeChunks m" using GetFreeChunks_ok [OF f(1)] GetFreeChunks_ok [OF assms] f(2) by simp
  moreover have "case r of
       None \<Rightarrow> \<forall>c\<in>set (free_chunks m). chunk_end c - chunk_alignment (chunk_offset c) < sz
     | Some c \<Rightarrow> c \<in> set (free_chunks m) \<and> chunk_alignment (chunk_offset c) + sz \<le> chunk_end c \<and>
         (\<forall>d\<in>set (free_chunks m). sz \<le> aligned_size d \<longrightarrow> aligned_size c \<le> aligned_size d)"
  proof (cases r)
    case None
    with f(3) al show ?thesis by fastforce
  next
    case (Some c)
    have c: "c \<in> set (free_chunks m)" "sz \<le> aligned_size c" using f(4) [OF Some] by simp_all
    have "aligned_size c \<le> aligned_size d" if "d \<in> set (free_chunks m)" "sz \<le> aligned_size d" for d
      using f(5) [OF Some that] by (auto simp: AlignedSizeLessThan_def)
    with c al [OF c(1)] Some show ?thesis by auto
  qed
  ultimately show ?thesis using Pair f(1) by simp
qed

text \<open>
  C20. No two live allocations overlap: whatever sequence of allocations and deallocations of live ranges a client has
  made on a new manager, its live ranges are pairwise disjoint and the free addresses are exactly the others.
\<close>

theorem live_ranges_disjoint:
  assumes "\<forall>r\<in>set rs. request_in whole_space r"
    "foldE (serve (Allocate chunk_alignment) (Deallocate chunk_alignment)) (MakeFreeChunksManager chunk_alignment, []) rs = Inr (m, live)"
  shows "sorted_wrt ranges_disjoint live \<and> free_space m = whole_space - covered live"
  using fcm.serve_all_ok [OF fcm.client_start [OF MakeFreeChunksManager_ok] assms(2,1)] by (simp add: fcm.client_ok_def)

text \<open>
  C11. Freed memory is always usable again: after any such sequence the live ranges can be freed in any
  order without stopping, and the manager is then back to a single chunk with the whole space, in which every
  size up to the whole is found.
\<close>

theorem all_freed_available:
  assumes "\<forall>r\<in>set rs. request_in whole_space r"
    "foldE (serve (Allocate chunk_alignment) (Deallocate chunk_alignment)) (MakeFreeChunksManager chunk_alignment, []) rs = Inr (m, live)"
    "mset order = mset live"
  shows "\<exists>m'. foldE (serve (Allocate chunk_alignment) (Deallocate chunk_alignment)) (m, live)
      (map (\<lambda>r. DeallocateRequest (fst r) (snd r)) order) = Inr (m', []) \<and>
    GetFreeChunks m' = [(0, kint64max - 3)] \<and>
    (\<forall>sz \<le> kint64max - 3 - chunk_alignment 0. \<exists>c. snd (FindJustLargeEnough m' sz) = Some c)"
proof -
  have "fcm.client_ok chunk_alignment (m, live)"
    by (rule fcm.serve_all_ok [OF fcm.client_start [OF MakeFreeChunksManager_ok] assms(2,1)])
  from fcm.free_all [OF this assms(3)] obtain m' where m':
    "foldE (serve (Allocate chunk_alignment) (Deallocate chunk_alignment)) (m, live)
      (map (\<lambda>r. DeallocateRequest (fst r) (snd r)) order) = Inr (m', [])"
    "manager_ok chunk_alignment m'" "free_space m' = whole_space" by blast
  obtain c where c: "free_chunks m' = [c]" "chunk_offset c = 0" "chunk_end c = kint64max - 3"
    using whole_space_chunk [OF m'(2,3)] .
  have al: "aligned_size c = kint64max - 3 - chunk_alignment 0"
    using free_chunk_bounds(4) [OF m'(2), of c] c by (simp add: aligned_size_def)
  have "\<exists>c. snd (FindJustLargeEnough m' sz) = Some c" if "sz \<le> kint64max - 3 - chunk_alignment 0" for sz
    using FindJustLargeEnough_ok(3) [OF m'(2) prod.collapse [symmetric], of sz c] c al that
    by (cases "snd (FindJustLargeEnough m' sz)") auto
  with m' c GetFreeChunks_ok [OF m'(2)] show ?thesis by auto
qed

text \<open>A manager with 64-byte alignment, for the examples.\<close>

definition align64 :: "int \<Rightarrow> int" where "align64 x = (x + 63) div 64 * 64"

theorem FreeChunksManager_refines_set_witness:
  "\<exists>m'. Allocate align64 (MakeFreeChunksManager align64) 64 100 = Inr m' \<and> free_space m' = whole_space - {64..<100}"
  using FreeChunksManager_refines_set [OF MakeFreeChunksManager_ok(1), of 64 100 align64] MakeFreeChunksManager_ok(2) [of align64]
  by (auto simp: kint64max_def split: sum.splits)

theorem FindJustLargeEnough_best_fit_witness:
  "case FindJustLargeEnough (MakeFreeChunksManager align64) 100 of (m', r) \<Rightarrow>
    manager_ok align64 m' \<and> (case r of None \<Rightarrow> False | Some c \<Rightarrow> align64 (chunk_offset c) + 100 \<le> chunk_end c)"
proof -
  have "snd (FindJustLargeEnough (MakeFreeChunksManager align64) 100) \<noteq> None"
    by (simp add: FindJustLargeEnough_def MakeFreeChunksManager_def btree_insert_def lower_bound_def AlignedSizeLessThan_def
        aligned_size_def align64_def kint64max_def Let_def)
  with FindJustLargeEnough_best_fit [OF MakeFreeChunksManager_ok(1), of align64 100] show ?thesis
    by (auto split: option.splits prod.splits)
qed

theorem live_ranges_disjoint_witness:
  "case foldE (serve (Allocate align64) (Deallocate align64)) (MakeFreeChunksManager align64, [])
     [AllocateRequest 0 64, AllocateRequest 64 100, DeallocateRequest 0 64] of
     Inl _ \<Rightarrow> False | Inr (m, live) \<Rightarrow> live = [(64, 100)] \<and> free_space m = whole_space - {64..<100}"
proof -
  let ?rs = "[AllocateRequest 0 64, AllocateRequest 64 100, DeallocateRequest 0 64]"
  let ?f = "foldE (serve (Allocate align64) (Deallocate align64)) (MakeFreeChunksManager align64, []) ?rs"
  have "map_sum (\<lambda>_. ()) snd ?f = Inr [(64, 100)]" by code_simp
  then obtain m where m: "?f = Inr (m, [(64, 100)])" by (cases ?f) auto
  have "\<forall>r\<in>set ?rs. request_in whole_space r" by (simp add: kint64max_def)
  from live_ranges_disjoint [OF this m] m show ?thesis by (simp add: covered_def)
qed

theorem all_freed_available_witness:
  "case foldE (serve (Allocate align64) (Deallocate align64)) (MakeFreeChunksManager align64, [])
     [AllocateRequest 0 64, AllocateRequest 64 100] of
     Inl _ \<Rightarrow> False
   | Inr (m, live) \<Rightarrow> (\<exists>m'. foldE (serve (Allocate align64) (Deallocate align64)) (m, live)
       [DeallocateRequest 0 64, DeallocateRequest 64 100] = Inr (m', []) \<and> GetFreeChunks m' = [(0, kint64max - 3)])"
proof -
  let ?rs = "[AllocateRequest 0 64, AllocateRequest 64 100]"
  let ?f = "foldE (serve (Allocate align64) (Deallocate align64)) (MakeFreeChunksManager align64, []) ?rs"
  have "map_sum (\<lambda>_. ()) snd ?f = Inr [(64, 100), (0, 64)]" by code_simp
  then obtain m where m: "?f = Inr (m, [(64, 100), (0, 64)])" by (cases ?f) auto
  have "\<forall>r\<in>set ?rs. request_in whole_space r" by (simp add: kint64max_def)
  from all_freed_available [OF this m, of "[(0, 64), (64, 100)]"] m show ?thesis by auto
qed

end
