(* ===== verification/BufferIntervalTree.thy ===== *)
theory BufferIntervalTree
  imports Prelude "HOL-Library.Multiset"
begin

text \<open>
  \<open>BufferIntervalTree\<close> of \<open>xla/service/heap_simulator/heap_simulator.{h,cc}\<close>: the chunks assigned so far, indexed by
  the time interval in which each is in use. Nodes are linked by owning child pointers, so a tree of nodes is a
  datatype; the \<open>parent\<close> pointers, which only serve \<open>fix_up\<close>, are the path from the root, and
  \<open>fix_up\<close> is the update of the nodes on that path on the way back.
\<close>

section \<open>Chunks and nodes\<close>

record Chunk =
  offset :: int
  chunk_size :: int

definition FromOffsetSize :: "int \<Rightarrow> int \<Rightarrow> Chunk" where
  "FromOffsetSize off s = \<lparr>offset = off, chunk_size = s\<rparr>"

definition FromOffsetEnd :: "int \<Rightarrow> int \<Rightarrow> Chunk" where
  "FromOffsetEnd off e = FromOffsetSize off (e - off)"

definition Chunk_end :: "Chunk \<Rightarrow> int" where
  "Chunk_end c = offset c + chunk_size c"

definition OverlapsWith :: "Chunk \<Rightarrow> Chunk \<Rightarrow> bool status_or" where
  "OverlapsWith c d =
     (if chunk_size c = 0 then Inl (CheckFailed ''size != 0'')
      else if chunk_size d = 0 then Inl (CheckFailed ''other_chunk.size != 0'')
      else Inr (offset c < Chunk_end d \<and> offset d < Chunk_end c))"

text \<open>A node: its interval of time with both ends included, the latest end below it, and its chunk.\<close>

datatype BufferIntervalTreeNode =
    Nullptr
  | Node (left: BufferIntervalTreeNode) (node_start: int) (node_end: int) (subtree_end: int) (node_chunk: Chunk)
      (right: BufferIntervalTreeNode)

type_synonym interval = "int \<times> int \<times> Chunk"

section \<open>Operations\<close>

fun Add :: "int \<Rightarrow> int \<Rightarrow> Chunk \<Rightarrow> BufferIntervalTreeNode \<Rightarrow> BufferIntervalTreeNode" where
  "Add s e c Nullptr = Node Nullptr s e e c Nullptr"
| "Add s e c (Node l ns ne se nc r) =
     (if ns > s then Node (Add s e c l) ns ne (max se e) nc r
      else Node l ns ne (max se e) nc (Add s e c r))"

text \<open>The step of \<open>fix_up\<close> at one node.\<close>

definition fix_up :: "BufferIntervalTreeNode \<Rightarrow> int \<Rightarrow> int \<Rightarrow> Chunk \<Rightarrow> BufferIntervalTreeNode \<Rightarrow> BufferIntervalTreeNode" where
  "fix_up l s e c r =
     (let e1 = (case l of Nullptr \<Rightarrow> e | Node _ _ _ se _ _ \<Rightarrow> max e se);
          e2 = (case r of Nullptr \<Rightarrow> e1 | Node _ _ _ se _ _ \<Rightarrow> max e1 se)
      in Node l s e e2 c r)"

text \<open>The left-most node of a subtree, and the subtree with its right child moved up in its place.\<close>

fun promote :: "BufferIntervalTreeNode \<Rightarrow> (interval \<times> BufferIntervalTreeNode) option" where
  "promote Nullptr = None"
| "promote (Node l s e se c r) =
     (case promote l of
        None \<Rightarrow> Some ((s, e, c), r)
      | Some (p, l') \<Rightarrow> Some (p, fix_up l' s e c r))"

fun Remove :: "int \<Rightarrow> int \<Rightarrow> Chunk \<Rightarrow> BufferIntervalTreeNode \<Rightarrow> BufferIntervalTreeNode option" where
  "Remove s e c Nullptr = None"
| "Remove s e c (Node l ns ne se nc r) =
     (if ns = s \<and> ne = e \<and> offset nc = offset c
      then case promote r of
             None \<Rightarrow> Some l
           | Some ((ps, pe, pc), r') \<Rightarrow> Some (fix_up l ps pe pc r')
      else if s < ns
      then map_option (\<lambda>l'. fix_up l' ns ne nc r) (Remove s e c l)
      else map_option (\<lambda>r'. fix_up l ns ne nc r') (Remove s e c r))"

text \<open>
  \<open>ApplyToNodesOverlappingInTime\<close>: the nodes on which the callback is called, in the order of the calls; the
  list is the stack of nodes still to visit, its head the top.
\<close>

function overlapping_loop :: "int \<Rightarrow> int \<Rightarrow> BufferIntervalTreeNode list \<Rightarrow> interval list" where
  "overlapping_loop s e [] = []"
| "overlapping_loop s e (Nullptr # stack) = overlapping_loop s e stack"
| "overlapping_loop s e (Node l ns ne se c r # stack) =
     (if s > se then overlapping_loop s e stack
      else
        let stack1 = (if l \<noteq> Nullptr then l # stack else stack);
            visited = (if ns \<le> e \<and> ne \<ge> s then [(ns, ne, c)] else [])
        in if e < ns then visited @ overlapping_loop s e stack1
           else visited @ overlapping_loop s e (if r \<noteq> Nullptr then r # stack1 else stack1))"
  by pat_completeness auto

termination
  by (relation "measure (\<lambda>(s, e, ts). sum_list (map (\<lambda>t. Suc (2 * size t)) ts))") auto

definition NodesOverlappingInTime :: "int \<Rightarrow> int \<Rightarrow> BufferIntervalTreeNode \<Rightarrow> interval list" where
  "NodesOverlappingInTime s e root = (if root = Nullptr then [] else overlapping_loop s e [root])"

definition NumChunksOverlappingInTime :: "int \<Rightarrow> int \<Rightarrow> BufferIntervalTreeNode \<Rightarrow> nat" where
  "NumChunksOverlappingInTime s e root = length (NodesOverlappingInTime s e root)"

definition ChunksOverlappingInTime :: "int \<Rightarrow> int \<Rightarrow> BufferIntervalTreeNode \<Rightarrow> Chunk list" where
  "ChunksOverlappingInTime s e root = map (\<lambda>(_, _, c). c) (NodesOverlappingInTime s e root)"

text \<open>
  \<open>ApplyToSortedNodesOverlapping\<close>: a stack entry remembers whether its left subtree has been visited. The
  callback works on a state of its own and says whether to stop.
\<close>

fun sorted_weight :: "BufferIntervalTreeNode \<times> bool \<Rightarrow> nat" where
  "sorted_weight (t, visited) = (if visited then Suc (Suc (3 * size (right t))) else Suc (3 * size t))"

function sorted_loop :: "int \<Rightarrow> int \<Rightarrow> ('s \<Rightarrow> interval \<Rightarrow> 's \<times> bool) \<Rightarrow> int \<Rightarrow> (BufferIntervalTreeNode \<times> bool) list \<Rightarrow> 's \<Rightarrow> 's status_or" where
  "sorted_loop s e f prev_start [] st = Inr st"
| "sorted_loop s e f prev_start ((Nullptr, visited) # stack) st = sorted_loop s e f prev_start stack st"
| "sorted_loop s e f prev_start ((Node l ns ne se c r, visited) # stack) st =
     (if s > se then sorted_loop s e f prev_start stack st
      else if \<not> visited \<and> l \<noteq> Nullptr
      then sorted_loop s e f prev_start ((l, False) # (Node l ns ne se c r, True) # stack) st
      else
        let stack' = (if e < ns then stack else if r \<noteq> Nullptr then (r, False) # stack else stack) in
        if ns \<le> e \<and> ne \<ge> s
        then if \<not> prev_start \<le> ns then Inl (CheckFailed ''prev_start <= top_start'')
             else case f st (ns, ne, c) of
                    (st', stop) \<Rightarrow> if stop then Inr st' else sorted_loop s e f ns stack' st'
        else sorted_loop s e f prev_start stack' st)"
  by pat_completeness auto

termination
  by (relation "measure (\<lambda>(s, e, f, p, ts, st). sum_list (map sorted_weight ts))") auto

definition ApplyToSortedNodesOverlapping ::
  "int \<Rightarrow> int \<Rightarrow> ('s \<Rightarrow> interval \<Rightarrow> 's \<times> bool) \<Rightarrow> BufferIntervalTreeNode \<Rightarrow> 's \<Rightarrow> 's status_or" where
  "ApplyToSortedNodesOverlapping s e f root st =
     (if root = Nullptr then Inr st else sorted_loop s e f (- 1) [(root, False)] st)"

definition add_usage :: "int \<Rightarrow> int \<Rightarrow> int list \<Rightarrow> interval \<Rightarrow> int list" where
  "add_usage s e used n =
     (case n of (ns, ne, c) \<Rightarrow>
      map (\<lambda>i. if max ns s \<le> s + int i \<and> s + int i \<le> min ne e then used ! i + chunk_size c else used ! i) [0..<length used])"

definition MemoryUsedInInterval :: "int \<Rightarrow> int \<Rightarrow> BufferIntervalTreeNode \<Rightarrow> int list status_or" where
  "MemoryUsedInInterval s e root =
     (let total_time = e - s + 1 in
      if \<not> total_time \<ge> 0 then Inl (CheckFailed ''total_time >= 0'')
      else Inr (foldl (add_usage s e) (replicate (nat total_time) 0) (NodesOverlappingInTime s e root)))"

definition HeapSizeInInterval :: "int \<Rightarrow> int \<Rightarrow> BufferIntervalTreeNode \<Rightarrow> int status_or" where
  "HeapSizeInInterval s e root =
     (if \<not> s \<le> e then Inl (CheckFailed ''start <= end'')
      else Inr (foldl (\<lambda>m n. max m (Chunk_end (snd (snd n)))) 0 (NodesOverlappingInTime s e root)))"


section \<open>The invariant and the intervals of a tree\<close>

fun inorder :: "BufferIntervalTreeNode \<Rightarrow> interval list" where
  "inorder Nullptr = []"
| "inorder (Node l s e se c r) = inorder l @ (s, e, c) # inorder r"

abbreviation istart :: "interval \<Rightarrow> int" where "istart x \<equiv> fst x"
abbreviation iend :: "interval \<Rightarrow> int" where "iend x \<equiv> fst (snd x)"

fun tree_ok :: "BufferIntervalTreeNode \<Rightarrow> bool" where
  "tree_ok Nullptr \<longleftrightarrow> True"
| "tree_ok (Node l s e se c r) \<longleftrightarrow> tree_ok l \<and> tree_ok r \<and> (\<forall>x\<in>set (inorder l). istart x < s) \<and>
     (\<forall>x\<in>set (inorder r). s \<le> istart x) \<and> Node l s e se c r = fix_up l s e c r"

lemma inorder_fix_up [simp]: "inorder (fix_up l s e c r) = inorder l @ (s, e, c) # inorder r"
  by (simp add: fix_up_def Let_def)

lemma tree_ok_fix_up [simp]:
  "tree_ok (fix_up l s e c r) \<longleftrightarrow> tree_ok l \<and> tree_ok r \<and> (\<forall>x\<in>set (inorder l). istart x < s) \<and> (\<forall>x\<in>set (inorder r). s \<le> istart x)"
  by (simp add: fix_up_def Let_def)

lemma fix_up_not_Nullptr [simp]: "fix_up l s e c r \<noteq> Nullptr"
  by (simp add: fix_up_def Let_def)

lemma subtree_end_latest: "tree_ok t \<Longrightarrow> x \<in> set (inorder t) \<Longrightarrow> iend x \<le> subtree_end t"
proof (induction t)
  case (Node l s e se c r)
  have se: "se = subtree_end (fix_up l s e c r)" using Node.prems(1) by (metis tree_ok.simps(2) BufferIntervalTreeNode.sel(4))
  consider "x \<in> set (inorder l)" | "x = (s, e, c)" | "x \<in> set (inorder r)" using Node.prems(2) by auto
  then show ?case
  proof cases
    case 1
    then show ?thesis using Node se by (cases l; cases r) (auto simp: fix_up_def Let_def)
  next
    case 2
    then show ?thesis using se by (cases l; cases r) (auto simp: fix_up_def Let_def)
  next
    case 3
    then show ?thesis using Node se by (cases l; cases r) (auto simp: fix_up_def Let_def)
  qed
qed simp

lemma node_end_latest: "tree_ok (Node l s e se c r) \<Longrightarrow> \<forall>x\<in>set (inorder (Node l s e se c r)). iend x \<le> se"
  using subtree_end_latest [of "Node l s e se c r"] by (metis BufferIntervalTreeNode.sel(4))

lemma tree_ok_sorted: "tree_ok t \<Longrightarrow> sorted (map fst (inorder t))"
  by (induction t) (fastforce simp: sorted_append)+

section \<open>Adding and removing\<close>

lemma Add_intervals: "mset (inorder (Add s e c t)) = add_mset (s, e, c) (mset (inorder t))"
  by (induction t) auto

lemma Add_set: "set (inorder (Add s e c t)) = insert (s, e, c) (set (inorder t))"
  using Add_intervals [of s e c t] by (metis set_mset_add_mset_insert set_mset_mset)

lemma Add_not_Nullptr [simp]: "Add s e c t \<noteq> Nullptr"
  by (cases t) auto

lemma Add_subtree_end: "subtree_end (Add s e c t) = (if t = Nullptr then e else max (subtree_end t) e)"
  by (cases t) auto

lemma fix_up_eq_iff:
  "Node l s e se c r = fix_up l s e c r \<longleftrightarrow>
   se = max e (max (if l = Nullptr then e else subtree_end l) (if r = Nullptr then e else subtree_end r))"
  by (cases l; cases r) (auto simp: fix_up_def Let_def)

lemma Add_ok: "tree_ok t \<Longrightarrow> tree_ok (Add s e c t)"
proof (induction t)
  case (Node l ns ne se nc r)
  then show ?case by (auto simp: Add_set fix_up_eq_iff Add_subtree_end max_def simp del: tree_ok_fix_up split: if_splits)
qed (simp add: fix_up_def)

lemma promote_None [simp]: "promote t = None \<longleftrightarrow> t = Nullptr"
  by (cases t) (auto split: option.splits)

lemma promote_Some: "promote t = Some (p, t') \<Longrightarrow> inorder t = p # inorder t' \<and> (tree_ok t \<longrightarrow> tree_ok t')"
proof (induction t arbitrary: p t')
  case (Node l s e se c r)
  show ?case
  proof (cases "promote l")
    case None
    then show ?thesis using Node.prems by auto
  next
    case (Some q)
    then obtain l' where q: "promote l = Some (p, l')" "t' = fix_up l' s e c r" using Node.prems by (cases q) auto
    with Node.IH(1) [OF q(1)] show ?thesis by auto
  qed
qed simp

text \<open>What \<open>Remove\<close> looks for: the size of the chunk does not matter.\<close>

definition matches :: "int \<Rightarrow> int \<Rightarrow> Chunk \<Rightarrow> interval \<Rightarrow> bool" where
  "matches s e c x \<longleftrightarrow> istart x = s \<and> iend x = e \<and> offset (snd (snd x)) = offset c"

lemma Remove_None: "tree_ok t \<Longrightarrow> Remove s e c t = None \<longleftrightarrow> (\<forall>x\<in>set (inorder t). \<not> matches s e c x)"
proof (induction t)
  case (Node l ns ne se nc r)
  have ok: "tree_ok l" "tree_ok r" "\<forall>x\<in>set (inorder l). istart x < ns" "\<forall>x\<in>set (inorder r). ns \<le> istart x"
    using Node.prems by simp_all
  show ?case
  proof (cases "matches s e c (ns, ne, nc)")
    case True
    then show ?thesis by (auto simp: matches_def split: option.splits)
  next
    case False
    then have r: "Remove s e c (Node l ns ne se nc r) = None \<longleftrightarrow>
        (if s < ns then Remove s e c l = None else Remove s e c r = None)" by (auto simp: matches_def)
    have "s < ns \<Longrightarrow> \<forall>x\<in>set (inorder r). \<not> matches s e c x" "\<not> s < ns \<Longrightarrow> \<forall>x\<in>set (inorder l). \<not> matches s e c x"
      using ok(3,4) by (auto simp: matches_def)
    then show ?thesis unfolding r using False Node.IH ok(1,2) by auto
  qed
qed simp

lemma Remove_Some:
  assumes "tree_ok t" "Remove s e c t = Some t'"
  shows "tree_ok t' \<and> (\<exists>x xs ys. matches s e c x \<and> inorder t = xs @ x # ys \<and> inorder t' = xs @ ys)"
  using assms
proof (induction t arbitrary: t')
  case (Node l ns ne se nc r)
  consider (here) "ns = s \<and> ne = e \<and> offset nc = offset c" | (left) "\<not> (ns = s \<and> ne = e \<and> offset nc = offset c)" "s < ns"
    | (right) "\<not> (ns = s \<and> ne = e \<and> offset nc = offset c)" "\<not> s < ns" by blast
  then show ?case
  proof cases
    case here
    have m: "matches s e c (ns, ne, nc)" using here by (simp add: matches_def)
    show ?thesis
    proof (cases "promote r")
      case None
      then have "t' = l" "r = Nullptr" using here Node.prems(2) by auto
      then show ?thesis using m Node.prems(1) by (intro conjI exI [of _ "(ns, ne, nc)"] exI [of _ "inorder l"] exI [of _ "[]"]) auto
    next
      case (Some q)
      then obtain ps pe pc r' where q: "promote r = Some ((ps, pe, pc), r')" "t' = fix_up l ps pe pc r'"
        using here Node.prems(2) by (cases q) auto
      note pr = promote_Some [OF q(1)]
      have "sorted (map fst (inorder r))" using Node.prems(1) tree_ok_sorted by auto
      then have "tree_ok t'" using Node.prems(1) pr q(2) by fastforce
      then show ?thesis using m pr q(2)
        by (intro conjI exI [of _ "(ns, ne, nc)"] exI [of _ "inorder l"] exI [of _ "inorder r"]) auto
    qed
  next
    case left
    then obtain l' where l': "Remove s e c l = Some l'" "t' = fix_up l' ns ne nc r" using Node.prems(2) by auto
    obtain x xs ys where x: "tree_ok l'" "matches s e c x" "inorder l = xs @ x # ys" "inorder l' = xs @ ys"
      using Node.IH(1) [OF _ l'(1)] Node.prems(1) by auto
    then show ?thesis using l' Node.prems(1)
      by (intro conjI exI [of _ x] exI [of _ xs] exI [of _ "ys @ (ns, ne, nc) # inorder r"]) auto
  next
    case right
    then obtain r' where r': "Remove s e c r = Some r'" "t' = fix_up l ns ne nc r'" using Node.prems(2) by auto
    obtain x xs ys where x: "tree_ok r'" "matches s e c x" "inorder r = xs @ x # ys" "inorder r' = xs @ ys"
      using Node.IH(2) [OF _ r'(1)] Node.prems(1) by auto
    then show ?thesis using r' Node.prems(1)
      by (intro conjI exI [of _ x] exI [of _ "inorder l @ (ns, ne, nc) # xs"] exI [of _ ys]) auto
  qed
qed simp


section \<open>Queries\<close>

definition overlaps_time :: "int \<Rightarrow> int \<Rightarrow> interval \<Rightarrow> bool" where
  "overlaps_time s e x \<longleftrightarrow> istart x \<le> e \<and> s \<le> iend x"

lemma early_no_overlap:
  assumes "tree_ok (Node l ns ne se c r)" "s > se"
  shows "filter (overlaps_time s e) (inorder (Node l ns ne se c r)) = []"
proof -
  have "\<not> overlaps_time s e x" if "x \<in> set (inorder (Node l ns ne se c r))" for x
    using bspec [OF node_end_latest [OF assms(1)] that] assms(2) by (simp add: overlaps_time_def)
  then show ?thesis by (simp only: filter_empty_conv) blast
qed

lemma late_no_overlap: "\<forall>x\<in>set xs. ns \<le> istart x \<Longrightarrow> e < ns \<Longrightarrow> filter (overlaps_time s e) xs = []"
  by (fastforce simp: overlaps_time_def filter_empty_conv)

lemma overlaps_time_node: "overlaps_time s e (ns, ne, c) \<longleftrightarrow> ns \<le> e \<and> s \<le> ne"
  by (simp add: overlaps_time_def)

lemma overlapping_loop_intervals:
  "\<forall>t\<in>set stack. tree_ok t \<Longrightarrow>
   mset (overlapping_loop s e stack) = mset (filter (overlaps_time s e) (concat (map inorder stack)))"
proof (induction s e stack rule: overlapping_loop.induct)
  case (3 s e l ns ne se c r stack)
  have ok: "tree_ok l" "tree_ok r" "\<forall>x\<in>set (inorder r). ns \<le> istart x" using "3.prems" by simp_all
  have n: "tree_ok (Node l ns ne se c r)" and rest: "\<forall>t\<in>set stack. tree_ok t"
    using "3.prems" by (simp_all del: tree_ok.simps)
  let ?f = "\<lambda>xs. mset (filter (overlaps_time s e) xs)"
  let ?st = "if l \<noteq> Nullptr then l # stack else stack"
  have node: "?f (concat (map inorder (Node l ns ne se c r # stack))) =
      ?f (inorder l) + ?f [(ns, ne, c)] + ?f (inorder r) + ?f (concat (map inorder stack))"
    by (simp del: mset_filter)
  consider (skip) "s > se" | (no_right) "\<not> s > se" "e < ns" | (both) "\<not> s > se" "\<not> e < ns" by linarith
  then show ?case
  proof cases
    case skip
    have "?f (concat (map inorder (Node l ns ne se c r # stack))) = ?f (concat (map inorder stack))"
      by (simp only: list.map concat.simps filter_append early_no_overlap [OF n skip] append_Nil)
    then show ?thesis using "3.IH"(1) [OF skip rest] skip by (simp only: overlapping_loop.simps if_True)
  next
    case no_right
    have "mset (overlapping_loop s e ?st) = ?f (inorder l) + ?f (concat (map inorder stack))"
      using "3.IH"(2) [OF no_right(1) refl refl no_right(2)] rest ok(1) by (cases "l = Nullptr") (simp_all del: mset_filter)
    then show ?thesis unfolding node late_no_overlap [OF ok(3) no_right(2)] using no_right
      by (simp del: mset_filter add: overlaps_time_node Let_def)
  next
    case both
    have "mset (overlapping_loop s e (if r \<noteq> Nullptr then r # ?st else ?st)) =
        ?f (inorder l) + ?f (inorder r) + ?f (concat (map inorder stack))"
      using "3.IH"(3) [OF both(1) refl refl both(2)] rest ok(1,2)
      by (cases "l = Nullptr"; cases "r = Nullptr") (simp_all del: mset_filter)
    then show ?thesis unfolding node using both by (simp del: mset_filter add: overlaps_time_node Let_def)
  qed
qed simp_all

lemma NodesOverlappingInTime_intervals:
  "tree_ok t \<Longrightarrow> mset (NodesOverlappingInTime s e t) = filter_mset (overlaps_time s e) (mset (inorder t))"
  using overlapping_loop_intervals [of "[t]" s e] by (auto simp: NodesOverlappingInTime_def)

text \<open>The reference for the sorted traversal: the callback over a list until it stops.\<close>

fun fold_until :: "('s \<Rightarrow> interval \<Rightarrow> 's \<times> bool) \<Rightarrow> 's \<Rightarrow> interval list \<Rightarrow> 's" where
  "fold_until f st [] = st"
| "fold_until f st (x # xs) = (case f st x of (st', stop) \<Rightarrow> if stop then st' else fold_until f st' xs)"

fun pending :: "(BufferIntervalTreeNode \<times> bool) list \<Rightarrow> interval list" where
  "pending [] = []"
| "pending ((t, visited) # stack) =
     (if visited then (case t of Nullptr \<Rightarrow> [] | Node l s e se c r \<Rightarrow> (s, e, c) # inorder r) else inorder t) @ pending stack"

lemma sorted_loop_fold:
  assumes "\<forall>x\<in>set stack. tree_ok (fst x)" "sorted (map fst (filter (overlaps_time s e) (pending stack)))"
    "\<forall>x\<in>set (filter (overlaps_time s e) (pending stack)). prev_start \<le> istart x"
  shows "sorted_loop s e f prev_start stack st = Inr (fold_until f st (filter (overlaps_time s e) (pending stack)))"
  using assms
proof (induction s e f prev_start stack st rule: sorted_loop.induct)
  case (2 s e f prev_start visited stack st)
  then show ?case by (cases visited) auto
next
  case (3 s e f prev_start l ns ne se c r visited stack st)
  let ?F = "filter (overlaps_time s e)"
  let ?n = "Node l ns ne se c r"
  have ok: "tree_ok l" "tree_ok r" "\<forall>x\<in>set (inorder r). ns \<le> istart x" using "3.prems"(1) by simp_all
  have n: "tree_ok ?n" and tail: "\<forall>x\<in>set stack. tree_ok (fst x)" using "3.prems"(1) by (simp_all del: tree_ok.simps)
  consider (skip) "s > se" | (left) "\<not> s > se" "\<not> visited" "l \<noteq> Nullptr" | (visit) "\<not> s > se" "visited \<or> l = Nullptr" by blast
  then show ?case
  proof cases
    case skip
    have "?F (inorder ?n) = []" by (rule early_no_overlap [OF n skip])
    then have "?F (pending ((?n, visited) # stack)) = ?F (pending stack)" by (cases visited) auto
    then show ?thesis using "3.IH"(1) [OF skip tail] "3.prems"(2,3) skip by simp
  next
    case left
    have e: "pending ((l, False) # (?n, True) # stack) = pending ((?n, visited) # stack)" using left by simp
    have "\<forall>x\<in>set ((l, False) # (?n, True) # stack). tree_ok (fst x)" using n tail ok by (simp del: tree_ok.simps)
    from "3.IH"(2) [OF left(1) conjI [OF left(2,3)] this] "3.prems"(2,3) show ?thesis using left by (simp only: e sorted_loop.simps) simp
  next
    case visit
    let ?stack = "if e < ns then stack else if r \<noteq> Nullptr then (r, False) # stack else stack"
    have "e < ns \<Longrightarrow> ?F (inorder r) = []" by (rule late_no_overlap [OF ok(3)])
    then have rest: "?F (pending ?stack) = ?F (inorder r) @ ?F (pending stack)" by auto
    have p: "?F (pending ((?n, visited) # stack)) = ?F [(ns, ne, c)] @ ?F (pending ?stack)"
      using visit(2) rest by (cases visited) auto
    have st: "\<forall>x\<in>set ?stack. tree_ok (fst x)" using tail ok by auto
    have sp: "sorted (map fst (?F [(ns, ne, c)] @ ?F (pending ?stack)))" using "3.prems"(2) by (simp only: p)
    have pp: "\<forall>x\<in>set (?F [(ns, ne, c)] @ ?F (pending ?stack)). prev_start \<le> istart x" using "3.prems"(3) by (simp only: p)
    have so: "sorted (map fst (?F (pending ?stack)))" using sp by (simp only: map_append sorted_append)
    show ?thesis
    proof (cases "overlaps_time s e (ns, ne, c)")
      case True
      then have o: "ns \<le> e \<and> ne \<ge> s" by (simp add: overlaps_time_def)
      have le: "prev_start \<le> ns" using pp True by simp
      have ge: "\<forall>x\<in>set (?F (pending ?stack)). ns \<le> istart x" using sp True by (simp del: set_filter)
      obtain st' stop where f: "f st (ns, ne, c) = (st', stop)" by (cases "f st (ns, ne, c)")
      have "\<not> stop \<Longrightarrow> sorted_loop s e f ns ?stack st' = Inr (fold_until f st' (?F (pending ?stack)))"
        using "3.IH"(3) [OF visit(1) _ refl o] visit(2) le f st so ge by auto
      then show ?thesis unfolding p using visit o le f True by (auto simp: Let_def)
    next
      case False
      then have o: "\<not> (ns \<le> e \<and> ne \<ge> s)" by (simp add: overlaps_time_def)
      have ge: "\<forall>x\<in>set (?F (pending ?stack)). prev_start \<le> istart x" using pp by simp
      have "sorted_loop s e f prev_start ?stack st = Inr (fold_until f st (?F (pending ?stack)))"
        using "3.IH"(4) [OF visit(1) _ refl o st so ge] visit(2) by auto
      then show ?thesis unfolding p using visit o False by (auto simp: Let_def)
    qed
  qed
qed simp


section \<open>Memory in use\<close>

definition in_use :: "int \<Rightarrow> interval \<Rightarrow> bool" where
  "in_use t x \<longleftrightarrow> istart x \<le> t \<and> t \<le> iend x"

lemma length_add_usage [simp]: "length (add_usage s e used n) = length used"
  by (cases n) (simp add: add_usage_def)

lemma add_usage_nth:
  "i < length used \<Longrightarrow> s + int i \<le> e \<Longrightarrow>
   add_usage s e used n ! i = used ! i + (if in_use (s + int i) n then chunk_size (snd (snd n)) else 0)"
  by (cases n) (auto simp: add_usage_def in_use_def)

lemma foldl_add_usage:
  assumes "i < length used" "s + int i \<le> e"
  shows "length (foldl (add_usage s e) used ns) = length used \<and> foldl (add_usage s e) used ns ! i =
    used ! i + (\<Sum>x\<in>#mset ns. if in_use (s + int i) x then chunk_size (snd (snd x)) else 0)"
  using assms
proof (induction ns arbitrary: used)
  case (Cons n ns)
  from Cons.IH [of "add_usage s e used n"] Cons.prems show ?case by (simp add: add_usage_nth)
qed simp

text \<open>The memory in use at each time is the sum of the chunks whose interval contains it.\<close>

lemma MemoryUsedInInterval_sum:
  assumes "tree_ok t" "MemoryUsedInInterval s e t = Inr used" "s \<le> time" "time \<le> e"
  shows "used ! nat (time - s) = (\<Sum>x\<in>#filter_mset (in_use time) (mset (inorder t)). chunk_size (snd (snd x)))"
proof -
  let ?i = "nat (time - s)"
  let ?z = "replicate (nat (e - s + 1)) (0 :: int)"
  let ?g = "\<lambda>x. if in_use time x then chunk_size (snd (snd x)) else 0"
  have i: "?i < length ?z" "s + int ?i \<le> e" "s + int ?i = time" using assms(3,4) by auto
  have u: "used = foldl (add_usage s e) ?z (NodesOverlappingInTime s e t)"
    using assms(2) by (auto simp: MemoryUsedInInterval_def Let_def split: if_splits)
  have "used ! ?i = ?z ! ?i + (\<Sum>x\<in>#mset (NodesOverlappingInTime s e t). ?g x)"
    using foldl_add_usage [OF i(1,2), of "NodesOverlappingInTime s e t"] i(3) u by simp
  also have "\<dots> = (\<Sum>x\<in>#filter_mset (overlaps_time s e) (mset (inorder t)). ?g x)"
    using i(1) by (simp add: NodesOverlappingInTime_intervals [OF assms(1)])
  also have "\<dots> = (\<Sum>x\<in>#filter_mset (in_use time) (mset (inorder t)). chunk_size (snd (snd x)))"
  proof -
    have "(\<Sum>x\<in>#filter_mset (overlaps_time s e) M. ?g x) = (\<Sum>x\<in>#filter_mset (in_use time) M. chunk_size (snd (snd x)))" for M
      using assms(3,4) by (induction M) (auto simp: in_use_def overlaps_time_def)
    then show ?thesis .
  qed
  finally show ?thesis .
qed

lemma foldl_max_bound:
  "(m :: int) \<le> foldl (\<lambda>m n. max m (f n)) m ns \<and> (\<forall>n\<in>set ns. f n \<le> foldl (\<lambda>m n. max m (f n)) m ns) \<and>
   (foldl (\<lambda>m n. max m (f n)) m ns = m \<or> (\<exists>n\<in>set ns. foldl (\<lambda>m n. max m (f n)) m ns = f n))"
proof (induction ns arbitrary: m)
  case (Cons n ns)
  from Cons.IH [of "max m (f n)"] show ?case by (auto simp: max_def split: if_splits)
qed simp

text \<open>The heap size is the highest end of a chunk in use, and no chunk in use reaches above it.\<close>

lemma HeapSizeInInterval_max:
  assumes "tree_ok t" "HeapSizeInInterval s e t = Inr h"
  shows "(\<forall>x\<in>set (inorder t). overlaps_time s e x \<longrightarrow> Chunk_end (snd (snd x)) \<le> h) \<and>
    (h = 0 \<or> (\<exists>x\<in>set (inorder t). overlaps_time s e x \<and> h = Chunk_end (snd (snd x))))"
proof -
  have "set_mset (mset (NodesOverlappingInTime s e t)) = {x \<in> set (inorder t). overlaps_time s e x}"
    by (simp only: NodesOverlappingInTime_intervals [OF assms(1)] set_mset_filter set_mset_mset)
  then have n: "set (NodesOverlappingInTime s e t) = {x \<in> set (inorder t). overlaps_time s e x}" by simp
  show ?thesis
    using foldl_max_bound [of 0 "\<lambda>n. Chunk_end (snd (snd n))" "NodesOverlappingInTime s e t"] assms(2)
    unfolding n by (auto simp: HeapSizeInInterval_def split: if_splits)
qed

section \<open>Properties\<close>

text \<open>
  C10. The tree refines a multiset of intervals with chunks: \<open>Add\<close> adds one, \<open>Remove\<close> takes out one with the
  given times and offset and fails exactly when there is none, a query by time returns exactly the
  intervals that overlap it, each as often as it was added, and the order of the starts and the latest ends that
  cut the search short are kept by both.
\<close>

theorem BufferIntervalTree_refines_multiset:
  assumes "tree_ok t"
  shows "tree_ok (Add s e c t) \<and> mset (inorder (Add s e c t)) = add_mset (s, e, c) (mset (inorder t)) \<and>
    (case Remove s e c t of
       None \<Rightarrow> \<forall>x\<in>set (inorder t). \<not> matches s e c x
     | Some t' \<Rightarrow> tree_ok t' \<and> (\<exists>x. matches s e c x \<and> mset (inorder t) = add_mset x (mset (inorder t')))) \<and>
    mset (NodesOverlappingInTime a b t) = filter_mset (overlaps_time a b) (mset (inorder t))"
proof (intro conjI)
  show "case Remove s e c t of
       None \<Rightarrow> \<forall>x\<in>set (inorder t). \<not> matches s e c x
     | Some t' \<Rightarrow> tree_ok t' \<and> (\<exists>x. matches s e c x \<and> mset (inorder t) = add_mset x (mset (inorder t')))"
  proof (cases "Remove s e c t")
    case None
    have "\<forall>x\<in>set (inorder t). \<not> matches s e c x" using None Remove_None [OF assms, of s e c] by (rule iffD1 [rotated])
    then show ?thesis by (simp only: None option.case)
  next
    case (Some t')
    then show ?thesis using Remove_Some [OF assms Some] by auto
  qed
qed (use assms in \<open>simp_all add: Add_ok Add_intervals NodesOverlappingInTime_intervals\<close>)

text \<open>
  C19. The sorted traversal, an iteration with an explicit stack that skips subtrees, calls its callback on
  the intervals that overlap the given time in the order of their starts until the callback stops it; its
  internal check never fails when no interval starts before time -1.
\<close>

theorem ApplyToSortedNodesOverlapping_inorder:
  assumes "tree_ok t" "\<forall>x\<in>set (inorder t). - 1 \<le> istart x"
  shows "ApplyToSortedNodesOverlapping s e f t st = Inr (fold_until f st (filter (overlaps_time s e) (inorder t))) \<and>
    sorted (map istart (inorder t))"
proof -
  have so: "sorted (map istart (inorder t))" by (rule tree_ok_sorted [OF assms(1)])
  have "sorted_loop s e f (- 1) [(t, False)] st = Inr (fold_until f st (filter (overlaps_time s e) (pending [(t, False)])))"
    by (rule sorted_loop_fold) (use assms so in \<open>auto intro: sorted_filter\<close>)
  then show ?thesis using so by (auto simp: ApplyToSortedNodesOverlapping_def)
qed

theorem BufferIntervalTree_refines_multiset_witness:
  "\<exists>t'. Remove 1 5 (FromOffsetSize 8 8) (Add 3 4 (FromOffsetSize 0 8) (Add 1 5 (FromOffsetSize 8 8) Nullptr)) = Some t' \<and>
     tree_ok t' \<and>
   mset (NodesOverlappingInTime 5 6 (Add 3 4 (FromOffsetSize 0 8) (Add 1 5 (FromOffsetSize 8 8) Nullptr))) = {#(1, 5, FromOffsetSize 8 8)#}"
proof -
  let ?t = "Add 3 4 (FromOffsetSize 0 8) (Add 1 5 (FromOffsetSize 8 8) Nullptr)"
  have ok: "tree_ok ?t" by (intro Add_ok) (simp only: tree_ok.simps)
  have "Remove 1 5 (FromOffsetSize 8 8) ?t \<noteq> None" by (simp add: FromOffsetSize_def)
  then obtain t' where r: "Remove 1 5 (FromOffsetSize 8 8) ?t = Some t'" by (cases "Remove 1 5 (FromOffsetSize 8 8) ?t") simp_all
  have "filter_mset (overlaps_time 5 6) (mset (inorder ?t)) = {#(1, 5, FromOffsetSize 8 8)#}" by (simp add: overlaps_time_def)
  with BufferIntervalTree_refines_multiset [OF ok, of 1 5 "FromOffsetSize 8 8" 5 6] r show ?thesis
    by (simp only: option.case) blast
qed

theorem ApplyToSortedNodesOverlapping_inorder_witness:
  "ApplyToSortedNodesOverlapping 2 4 (\<lambda>st x. (st @ [istart x], False))
     (Add 7 9 (FromOffsetSize 16 8) (Add 1 5 (FromOffsetSize 8 8) (Add 3 4 (FromOffsetSize 0 8) Nullptr))) [] = Inr [1, 3]"
proof -
  let ?t = "Add 7 9 (FromOffsetSize 16 8) (Add 1 5 (FromOffsetSize 8 8) (Add 3 4 (FromOffsetSize 0 8) Nullptr))"
  have ok: "tree_ok ?t" by (intro Add_ok) (simp only: tree_ok.simps)
  have late: "\<forall>x\<in>set (inorder ?t). - 1 \<le> istart x" by simp
  have "fold_until (\<lambda>st x. (st @ [istart x], False)) [] (filter (overlaps_time 2 4) (inorder ?t)) = [1, 3]"
    by (simp add: overlaps_time_def)
  then show ?thesis
    using ApplyToSortedNodesOverlapping_inorder [OF ok late, of 2 4 "\<lambda>st x. (st @ [istart x], False)" "[]"] by (simp only:)
qed

end
