(* ===== verification/SlicedAllocationFinder.thy ===== *)
theory SlicedAllocationFinder
  imports BufferIntervalTree OrderedSet MathUtil
begin

text \<open>
  \<open>SlicedAllocationFinder\<close> of \<open>xla/service/heap_simulator/heap_simulator.{h,cc}\<close>: where to place a buffer
  whose slices are allocated at successive slice times. The free chunks at the latest slice time are the roots; each
  root is cut into pieces that remember how far back in slice time they are free. The permutations of slice times that
  the iterator produces are a list, and \<open>is_offset_allowed\<close> is the callback the caller passes. A use that the
  header excludes (a slice time out of range, an alignment below 1) is a failed check.
\<close>

section \<open>Pieces and roots\<close>

text \<open>Maps ordered by \<open>std::greater\<close> are association lists in descending order of their keys.\<close>

type_synonym FreeChunks = "(int \<times> int) list"

definition key_greater :: "int \<times> 'a \<Rightarrow> int \<times> 'a \<Rightarrow> bool" where
  "key_greater a b \<longleftrightarrow> fst a > fst b"

definition key_lower_bound :: "int \<Rightarrow> (int \<times> 'a) list \<Rightarrow> nat" where
  "key_lower_bound k m = length (takeWhile (\<lambda>x. fst x > k) m)"

record FreeChunkPiece =
  earliest_free_slice_time :: int
  piece_dimensions :: Chunk

record FreeChunkRoot =
  root_chunk :: Chunk
  root_pieces :: "(int \<times> FreeChunkPiece) list"

definition MakeFreeChunkRoot :: "Chunk \<Rightarrow> int \<Rightarrow> FreeChunkRoot" where
  "MakeFreeChunkRoot free_chunk free_chunk_slice_time =
     \<lparr>root_chunk = free_chunk,
      root_pieces = [(offset free_chunk,
        \<lparr>earliest_free_slice_time = free_chunk_slice_time, piece_dimensions = free_chunk\<rparr>)]\<rparr>"

text \<open>The up to three pieces that replace a piece of which a part is free one slice time earlier.\<close>

definition split_piece :: "int \<Rightarrow> Chunk \<Rightarrow> FreeChunkPiece \<Rightarrow> FreeChunkPiece list" where
  "split_piece t free_chunk piece =
     (let d = piece_dimensions piece;
          new_piece0 = \<lparr>earliest_free_slice_time = earliest_free_slice_time piece,
            piece_dimensions = FromOffsetEnd (offset d) (min (offset free_chunk) (Chunk_end d))\<rparr>;
          new_piece1 = \<lparr>earliest_free_slice_time = t,
            piece_dimensions = FromOffsetEnd (max (offset free_chunk) (offset d)) (min (Chunk_end free_chunk) (Chunk_end d))\<rparr>;
          new_piece2 = \<lparr>earliest_free_slice_time = earliest_free_slice_time piece,
            piece_dimensions = FromOffsetEnd (Chunk_end free_chunk) (Chunk_end d)\<rparr>
      in (if offset free_chunk > offset d then [new_piece0] else []) @ [new_piece1] @
         (if Chunk_end free_chunk < Chunk_end d then [new_piece2] else []))"

text \<open>The loop of \<open>Update\<close> from its first iterator: the pieces it keeps, and the pieces it collects for insertion.\<close>

fun update_loop :: "int \<Rightarrow> Chunk \<Rightarrow> (int \<times> FreeChunkPiece) list \<Rightarrow> ((int \<times> FreeChunkPiece) list \<times> FreeChunkPiece list) status_or" where
  "update_loop t free_chunk [] = Inr ([], [])"
| "update_loop t free_chunk ((k, piece) # rest) =
     (if Chunk_end (piece_dimensions piece) \<ge> offset free_chunk
      then bindE (OverlapsWith free_chunk (piece_dimensions piece)) (\<lambda>overlaps.
           bindE (update_loop t free_chunk rest) (\<lambda>(kept, new_pieces).
             if \<not> overlaps \<or> t \<noteq> earliest_free_slice_time piece - 1 then Inr ((k, piece) # kept, new_pieces)
             else Inr (kept, split_piece t free_chunk piece @ new_pieces)))
      else Inr ((k, piece) # rest, []))"

definition insert_piece :: "FreeChunkPiece \<Rightarrow> (int \<times> FreeChunkPiece) list \<Rightarrow> (int \<times> FreeChunkPiece) list" where
  "insert_piece p = btree_insert key_greater (offset (piece_dimensions p), p)"

definition Update :: "Chunk \<Rightarrow> int \<Rightarrow> FreeChunkRoot \<Rightarrow> FreeChunkRoot status_or" where
  "Update free_chunk t root =
     (let i = key_lower_bound (Chunk_end free_chunk - 1) (root_pieces root) in
      bindE (update_loop t free_chunk (drop i (root_pieces root))) (\<lambda>(kept, new_pieces).
        Inr (root\<lparr>root_pieces := fold insert_piece new_pieces (take i (root_pieces root) @ kept)\<rparr>)))"

section \<open>The finder\<close>

record SlicedAllocationFinder =
  sorted_slice_sizes :: "int list"
  max_colocation_size :: int
  preferred_offset :: int
  finder_alignment :: int
  finder_roots :: "(int \<times> FreeChunkRoot) list"
  slice_time_permutations :: "int list list"
  is_offset_allowed :: "int \<Rightarrow> bool"

abbreviation LatestSliceTime :: "SlicedAllocationFinder \<Rightarrow> int" where
  "LatestSliceTime f \<equiv> int (length (sorted_slice_sizes f)) - 1"

definition insert_root :: "int \<Rightarrow> (int \<times> FreeChunkRoot) list \<Rightarrow> int \<times> int \<Rightarrow> (int \<times> FreeChunkRoot) list status_or" where
  "insert_root latest roots = (\<lambda>(o1, e1).
     let free_chunk = FromOffsetEnd o1 e1 in
     if chunk_size free_chunk = 0 then Inr roots
     else if \<not> chunk_size free_chunk > 0 then Inl (CheckFailed ''free_chunk.size > 0'')
     else Inr (btree_insert key_greater (o1, MakeFreeChunkRoot free_chunk latest) roots))"

text \<open>
  The walk over the roots at one slice time. The iterator \<open>it\<close> is the head of the last list; the roots before
  it are the list in front. \<open>update_from\<close> is the inner loop once \<open>previous_it\<close> has been updated: it ends
  with \<open>it\<close> on the last root that was updated.
\<close>

fun update_from :: "int \<Rightarrow> Chunk \<Rightarrow> int \<times> FreeChunkRoot \<Rightarrow> (int \<times> FreeChunkRoot) list \<Rightarrow>
    ((int \<times> FreeChunkRoot) list \<times> (int \<times> FreeChunkRoot) list) status_or" where
  "update_from t free_chunk previous [] = Inr ([], [previous])"
| "update_from t free_chunk previous ((k, root) # rest) =
     bindE (OverlapsWith (root_chunk root) free_chunk) (\<lambda>overlaps.
       if \<not> overlaps then Inr ([], previous # (k, root) # rest)
       else bindE (Update free_chunk t root) (\<lambda>root'.
            bindE (update_from t free_chunk (k, root') rest) (\<lambda>(passed, todo).
              Inr (previous # passed, todo))))"

fun update_overlapping :: "int \<Rightarrow> Chunk \<Rightarrow> (int \<times> FreeChunkRoot) list \<Rightarrow>
    ((int \<times> FreeChunkRoot) list \<times> (int \<times> FreeChunkRoot) list) status_or" where
  "update_overlapping t free_chunk [] = Inr ([], [])"
| "update_overlapping t free_chunk ((k, root) # rest) =
     bindE (OverlapsWith (root_chunk root) free_chunk) (\<lambda>overlaps.
       if \<not> overlaps then Inr ([], (k, root) # rest)
       else bindE (Update free_chunk t root) (\<lambda>root'. update_from t free_chunk (k, root') rest))"

definition all_before :: "Chunk \<Rightarrow> int \<times> FreeChunkRoot \<Rightarrow> bool" where
  "all_before free_chunk x \<longleftrightarrow> Chunk_end free_chunk - 1 < offset (root_chunk (snd x))"

fun slice_time_pass :: "int \<Rightarrow> FreeChunks \<Rightarrow> (int \<times> FreeChunkRoot) list \<Rightarrow> (int \<times> FreeChunkRoot) list \<Rightarrow>
    (int \<times> FreeChunkRoot) list status_or" where
  "slice_time_pass t [] passed todo = Inr (passed @ todo)"
| "slice_time_pass t ((o1, e1) # chunks) passed todo =
     (let free_chunk = FromOffsetEnd o1 e1 in
      if chunk_size free_chunk = 0 then slice_time_pass t chunks passed todo
      else if \<not> chunk_size free_chunk > 0 then Inl (CheckFailed ''free_chunk.size > 0'')
      else if dropWhile (all_before free_chunk) todo = [] then Inr (passed @ todo)
      else bindE (update_overlapping t free_chunk (dropWhile (all_before free_chunk) todo)) (\<lambda>(updated, todo').
             slice_time_pass t chunks (passed @ takeWhile (all_before free_chunk) todo @ updated) todo'))"

text \<open>The constructor.\<close>

definition MakeSlicedAllocationFinder ::
  "FreeChunks list \<Rightarrow> int list \<Rightarrow> int \<Rightarrow> int \<Rightarrow> int \<Rightarrow> int list list \<Rightarrow> (int \<Rightarrow> bool) \<Rightarrow> SlicedAllocationFinder status_or" where
  "MakeSlicedAllocationFinder free_chunks_per_slice_time slice_sizes max_size preferred alignment permutations allowed =
     (if length slice_sizes \<noteq> length free_chunks_per_slice_time
      then Inl (CheckFailed ''sorted_slice_sizes_.size() == free_chunks_per_slice_time.size()'')
      else if free_chunks_per_slice_time = [] then Inl (CheckFailed ''!free_chunks_per_slice_time.empty()'')
      else
        let slice_size_sum = sum_list slice_sizes;
            latest = length slice_sizes - 1 in
        bindE (foldE (insert_root (int latest)) [] (free_chunks_per_slice_time ! latest)) (\<lambda>roots.
        bindE (foldE (\<lambda>rs t. slice_time_pass (int t) (free_chunks_per_slice_time ! t) [] rs) roots (rev [0..<latest])) (\<lambda>roots'.
        Inr \<lparr>sorted_slice_sizes = slice_sizes,
             max_colocation_size = (if max_size < slice_size_sum then slice_size_sum else max_size),
             preferred_offset = preferred, finder_alignment = alignment, finder_roots = roots',
             slice_time_permutations = permutations, is_offset_allowed = allowed\<rparr>)))"

text \<open>
  The loop of \<open>DoesPermutationFitImpl\<close> over the remaining slices (slice time and size) and the remaining pieces
  in ascending order of offset.
\<close>

abbreviation remaining_in_slice :: "int \<times> int \<Rightarrow> int \<Rightarrow> int" where
  "remaining_in_slice s consumed \<equiv> snd s - consumed"

abbreviation remaining_in_piece :: "FreeChunkPiece \<Rightarrow> int \<Rightarrow> int" where
  "remaining_in_piece piece current_offset \<equiv> Chunk_end (piece_dimensions piece) - current_offset"

abbreviation amount_to_consume :: "int \<times> int \<Rightarrow> int \<Rightarrow> FreeChunkPiece \<Rightarrow> int \<Rightarrow> int" where
  "amount_to_consume s consumed piece current_offset \<equiv>
     min (remaining_in_slice s consumed) (remaining_in_piece piece current_offset)"

fun fit_loop :: "(int \<times> int) list \<Rightarrow> FreeChunkPiece list \<Rightarrow> int \<Rightarrow> int \<Rightarrow> unit status_or" where
  "fit_loop [] pieces consumed current_offset = Inr ()"
| "fit_loop (s # slices) [] consumed current_offset = Inl (InternalError ''Ran out of space in root'')"
| "fit_loop (s # slices) (piece # pieces) consumed current_offset =
     (if earliest_free_slice_time piece > fst s then Inl (FailedPrecondition ''slice does not fit'')
      else if remaining_in_slice s consumed > remaining_in_piece piece current_offset
      then fit_loop (s # slices) pieces (consumed + amount_to_consume s consumed piece current_offset)
             (current_offset + amount_to_consume s consumed piece current_offset)
      else if remaining_in_slice s consumed = remaining_in_piece piece current_offset
      then fit_loop slices pieces 0 (current_offset + amount_to_consume s consumed piece current_offset)
      else fit_loop slices (piece # pieces) 0 (current_offset + amount_to_consume s consumed piece current_offset))"

definition DoesPermutationFit :: "SlicedAllocationFinder \<Rightarrow> int list \<Rightarrow> FreeChunkRoot \<Rightarrow> int \<Rightarrow> unit status_or" where
  "DoesPermutationFit f permutation root off =
     (let c = root_chunk root;
          i = key_lower_bound off (root_pieces root) in
      if length permutation \<noteq> length (sorted_slice_sizes f) then Inl (InvalidArgument ''slices times expected in permutation'')
      else if off \<ge> Chunk_end c then Inl (FailedPrecondition ''does not overlap with offset'')
      else if off + max_colocation_size f > Chunk_end c then Inl (FailedPrecondition ''Not enough space to fit enitre allocation'')
      else if \<not> is_offset_allowed f off then Inl (FailedPrecondition ''We are not permitted to place an allocation at offset'')
      else if i = length (root_pieces root) then Inl (FailedPrecondition ''Offset comes before free chunk root'')
      else fit_loop (zip permutation (sorted_slice_sizes f)) (rev (map snd (take (Suc i) (root_pieces root)))) 0 off)"

text \<open>The assignments of \<open>PermutationToChunks\<close>, one slice at a time.\<close>

fun place_slices :: "(int \<times> int) list \<Rightarrow> int \<Rightarrow> Chunk list \<Rightarrow> (Chunk list \<times> int) status_or" where
  "place_slices [] current_offset chunks = Inr (chunks, current_offset)"
| "place_slices ((t, s) # slices) current_offset chunks =
     (if 0 \<le> t \<and> t < int (length chunks)
      then place_slices slices (current_offset + s) (chunks[nat t := FromOffsetSize current_offset s])
      else Inl (CheckFailed ''slice time out of range''))"

definition PermutationToChunks :: "SlicedAllocationFinder \<Rightarrow> int list \<Rightarrow> int \<Rightarrow> Chunk list status_or" where
  "PermutationToChunks f permutation off =
     bindE (place_slices (zip permutation (sorted_slice_sizes f)) off (replicate (Suc (length permutation)) (FromOffsetSize (- 1) 1)))
       (\<lambda>(chunks, current_offset).
         Inr (chunks[length permutation := FromOffsetSize current_offset (max_colocation_size f - (current_offset - off))]))"

definition fitting_permutation :: "SlicedAllocationFinder \<Rightarrow> FreeChunkRoot \<Rightarrow> int \<Rightarrow> int list option" where
  "fitting_permutation f root off = find (\<lambda>p. \<not> isl (DoesPermutationFit f p root off)) (slice_time_permutations f)"

function offset_loop :: "SlicedAllocationFinder \<Rightarrow> FreeChunkRoot \<Rightarrow> int \<Rightarrow> int \<Rightarrow> Chunk list status_or" where
  "offset_loop f root off last_end =
     (if \<not> finder_alignment f \<ge> 1 then Inl (CheckFailed ''alignment >= 1'')
      else if off + max_colocation_size f \<le> last_end
      then case fitting_permutation f root off of
             Some p \<Rightarrow> PermutationToChunks f p off
           | None \<Rightarrow> if length (root_pieces root) = 1 then Inr []
                     else offset_loop f root (off + finder_alignment f) last_end
      else Inr [])"
  by pat_completeness auto

termination
  by (relation "measure (\<lambda>(f, root, off, last_end). nat (last_end - max_colocation_size f - off + 1))") auto

declare offset_loop.simps [simp del]

definition FindInRoot :: "SlicedAllocationFinder \<Rightarrow> FreeChunkRoot \<Rightarrow> int option \<Rightarrow> Chunk list status_or" where
  "FindInRoot f root only_try_this_offset =
     (case only_try_this_offset of
        Some off \<Rightarrow>
          bindE (cmod off (finder_alignment f)) (\<lambda>m.
            if m \<noteq> 0 then Inr [] else offset_loop f root off (off + max_colocation_size f))
      | None \<Rightarrow>
          let o1 = offset (root_chunk root) in
          bindE (cmod o1 (finder_alignment f)) (\<lambda>m.
            let first_offset = (if m \<noteq> 0 then o1 + (finder_alignment f - m) else o1) in
            bindE (cmod first_offset (finder_alignment f)) (\<lambda>m'.
              if m' \<noteq> 0 then Inl (CheckFailed ''first_offset % alignment_ == 0'')
              else offset_loop f root first_offset (Chunk_end (root_chunk root)))))"

definition FindForOffset :: "SlicedAllocationFinder \<Rightarrow> int \<Rightarrow> Chunk list status_or" where
  "FindForOffset f off =
     (let i = key_lower_bound off (finder_roots f) in
      if i < length (finder_roots f) then FindInRoot f (snd (finder_roots f ! i)) (Some off) else Inr [])"

text \<open>Popping the heap of roots yields them by size, equal sizes by offset.\<close>

definition root_heap :: "SlicedAllocationFinder \<Rightarrow> FreeChunkRoot list" where
  "root_heap f = sort_key (\<lambda>r. chunk_size (root_chunk r)) (map snd (rev (finder_roots f)))"

fun find_in_roots :: "SlicedAllocationFinder \<Rightarrow> FreeChunkRoot list \<Rightarrow> Chunk list status_or" where
  "find_in_roots f [] = Inr []"
| "find_in_roots f (root # rest) =
     bindE (FindInRoot f root None) (\<lambda>chunks. if chunks \<noteq> [] then Inr chunks else find_in_roots f rest)"

definition Find :: "SlicedAllocationFinder \<Rightarrow> Chunk list status_or" where
  "Find f =
     bindE (if preferred_offset f \<ge> 0 then FindForOffset f (preferred_offset f) else Inr []) (\<lambda>chunks.
       if chunks \<noteq> [] then Inr chunks else find_in_roots f (root_heap f))"

section \<open>Maps in descending order of their keys\<close>

interpretation desc: comparator key_greater
  by unfold_locales (auto simp: key_greater_def)

lemma desc_insert:
  assumes "sorted_wrt key_greater m" "\<forall>y\<in>set m. fst y = fst x \<longrightarrow> y = x"
  shows "sorted_wrt key_greater (btree_insert key_greater x m)" "set (btree_insert key_greater x m) = insert x (set m)"
proof -
  have "sorted_wrt key_greater (btree_insert key_greater x m) \<and> set (btree_insert key_greater x m) = insert x (set m)"
  proof (cases "x \<in> set m")
    case True
    obtain pre post where p: "m = pre @ post" "length pre = lower_bound key_greater x m"
        "\<forall>y\<in>set pre. key_greater y x" "\<forall>y\<in>set post. \<not> key_greater y x"
      using desc.lower_bound_split [OF assms(1)] by blast
    have "x \<in> set post" using True p(1,3) by (auto simp: key_greater_def)
    moreover have "sorted_wrt key_greater post" using assms(1) p(1) by (simp add: sorted_wrt_append)
    ultimately have "\<not> key_greater x (hd post)" "post \<noteq> []" by (cases post; auto simp: key_greater_def)+
    then have "btree_insert key_greater x m = m"
      using p(1) lower_bound_append [of pre key_greater x post] p(3,4)
      by (simp add: btree_insert_def Let_def nth_append hd_conv_nth)
    then show ?thesis using True assms(1) by auto
  next
    case False
    then have "\<forall>y\<in>set m. key_greater x y \<or> key_greater y x" using assms(2) by (auto simp: key_greater_def)
    from desc.btree_insert_new [OF assms(1) this] show ?thesis by simp
  qed
  then show "sorted_wrt key_greater (btree_insert key_greater x m)" "set (btree_insert key_greater x m) = insert x (set m)"
    by simp_all
qed

lemma desc_unique:
  "sorted_wrt key_greater xs \<Longrightarrow> sorted_wrt key_greater ys \<Longrightarrow> set xs = set ys \<Longrightarrow> xs = ys"
proof (induction xs arbitrary: ys)
  case (Cons x xs)
  then obtain y ys' where y: "ys = y # ys'" by (cases ys) auto
  have g: "\<forall>a\<in>set xs. fst a < fst x" "\<forall>a\<in>set ys'. fst a < fst y"
    using Cons.prems(1,2) y by (auto simp: key_greater_def)
  have "x = y"
  proof (rule ccontr)
    assume "x \<noteq> y"
    then have "x \<in> set ys'" "y \<in> set xs" using Cons.prems(3) y by auto
    then show False using g by fastforce
  qed
  moreover have "set xs = set ys'" using Cons.prems(3) y g \<open>x = y\<close> by fastforce
  ultimately show ?case using Cons y by auto
qed simp

lemma desc_key_inj: "sorted_wrt key_greater m \<Longrightarrow> x \<in> set m \<Longrightarrow> y \<in> set m \<Longrightarrow> fst x = fst y \<Longrightarrow> x = y"
  by (induction m) (auto simp: key_greater_def)

text \<open>Inserting elements of a descending list into a part of it, in any order, gives the list of both.\<close>

lemma desc_fold_insert:
  assumes "sorted_wrt key_greater T" "sorted_wrt key_greater m" "set m \<subseteq> set T" "set xs \<subseteq> set T"
  shows "sorted_wrt key_greater (fold (btree_insert key_greater) xs m) \<and>
    set (fold (btree_insert key_greater) xs m) = set m \<union> set xs"
  using assms(2-4)
proof (induction xs arbitrary: m)
  case (Cons x xs)
  have "x \<in> set T" using Cons.prems by simp
  then have "\<forall>y\<in>set m. fst y = fst x \<longrightarrow> y = x"
    using desc_key_inj [OF assms(1), of _ x] Cons.prems(2) by blast
  from desc_insert [OF Cons.prems(1) this] Cons show ?case by auto
qed simp

lemma desc_fold_insert_eq:
  assumes "sorted_wrt key_greater T" "sorted_wrt key_greater m" "set m \<union> set xs = set T"
  shows "fold (btree_insert key_greater) xs m = T"
proof -
  have "set m \<subseteq> set T" "set xs \<subseteq> set T" using assms(3) by auto
  from desc_fold_insert [OF assms(1,2) this] show ?thesis
    using assms(1,3) by (intro desc_unique) simp_all
qed

section \<open>The pieces of a root\<close>

definition in_chunk :: "Chunk \<Rightarrow> int \<Rightarrow> bool" where
  "in_chunk c x \<longleftrightarrow> offset c \<le> x \<and> x < Chunk_end c"

text \<open>The pieces, in descending order, cover the range from \<open>lo\<close> to \<open>hi\<close> without gap or overlap.\<close>

fun tiles :: "int \<Rightarrow> int \<Rightarrow> (int \<times> FreeChunkPiece) list \<Rightarrow> bool" where
  "tiles lo hi [] \<longleftrightarrow> lo = hi"
| "tiles lo hi ((k, p) # ps) \<longleftrightarrow>
     k = offset (piece_dimensions p) \<and> k < hi \<and> Chunk_end (piece_dimensions p) = hi \<and> tiles lo k ps"

text \<open>The slice time since which an address of the root is free.\<close>

fun time_at :: "(int \<times> FreeChunkPiece) list \<Rightarrow> int \<Rightarrow> int option" where
  "time_at [] x = None"
| "time_at ((k, p) # ps) x =
     (if in_chunk (piece_dimensions p) x then Some (earliest_free_slice_time p) else time_at ps x)"

lemma tiles_le: "tiles lo hi ps \<Longrightarrow> lo \<le> hi"
  by (induction ps arbitrary: hi) fastforce+

lemma tiles_append: "tiles lo hi (xs @ ys) \<longleftrightarrow> (\<exists>m. tiles m hi xs \<and> tiles lo m ys)"
  by (induction xs arbitrary: hi) auto

lemma tiles_keys: "tiles lo hi ps \<Longrightarrow> x \<in> set ps \<Longrightarrow> fst x < hi \<and> lo \<le> fst x"
  by (induction ps arbitrary: hi) (use tiles_le in fastforce)+

lemma tiles_ends: "tiles lo hi ps \<Longrightarrow> x \<in> set ps \<Longrightarrow> Chunk_end (piece_dimensions (snd x)) \<le> hi"
  by (induction ps arbitrary: hi) fastforce+

lemma tiles_keyed: "tiles lo hi ps \<Longrightarrow> x \<in> set ps \<Longrightarrow> fst x = offset (piece_dimensions (snd x))"
  by (induction ps arbitrary: hi) fastforce+

lemma tiles_sorted: "tiles lo hi ps \<Longrightarrow> sorted_wrt key_greater ps"
proof (induction ps arbitrary: hi)
  case (Cons x ps)
  obtain k p where x: "x = (k, p)" by fastforce
  have t: "tiles lo k ps" using Cons.prems x by auto
  show ?case using Cons.IH [OF t] tiles_keys [OF t] x by (auto simp: key_greater_def simp del: tiles.simps)
qed simp

lemma time_at_outside: "tiles lo hi ps \<Longrightarrow> x < lo \<or> hi \<le> x \<Longrightarrow> time_at ps x = None"
  by (induction ps arbitrary: hi) (use tiles_le in \<open>fastforce simp: in_chunk_def\<close>)+

lemma time_at_inside: "tiles lo hi ps \<Longrightarrow> lo \<le> x \<Longrightarrow> x < hi \<Longrightarrow> \<exists>t. time_at ps x = Some t"
  by (induction ps arbitrary: hi) (auto simp: in_chunk_def)

lemma time_at_append: "time_at (xs @ ys) x = (case time_at xs x of None \<Rightarrow> time_at ys x | Some t \<Rightarrow> Some t)"
  by (induction xs) auto

section \<open>Updating a root\<close>

text \<open>What an update is to do with one piece.\<close>

definition hit :: "int \<Rightarrow> Chunk \<Rightarrow> FreeChunkPiece \<Rightarrow> bool" where
  "hit t c p \<longleftrightarrow> chunk_size c > 0 \<and> offset c < Chunk_end (piece_dimensions p) \<and>
     offset (piece_dimensions p) < Chunk_end c \<and> t = earliest_free_slice_time p - 1"

definition keyed :: "FreeChunkPiece \<Rightarrow> int \<times> FreeChunkPiece" where
  "keyed p = (offset (piece_dimensions p), p)"

definition refined :: "int \<Rightarrow> Chunk \<Rightarrow> int \<times> FreeChunkPiece \<Rightarrow> (int \<times> FreeChunkPiece) list" where
  "refined t c x = (if hit t c (snd x) then rev (map keyed (split_piece t c (snd x))) else [x])"

lemma Chunk_end_FromOffsetEnd [simp]: "Chunk_end (FromOffsetEnd a b) = b" "offset (FromOffsetEnd a b) = a"
    "chunk_size (FromOffsetEnd a b) = b - a"
  by (simp_all add: Chunk_end_def FromOffsetEnd_def FromOffsetSize_def)

lemma nonempty_chunk: "0 < chunk_size c \<longleftrightarrow> offset c < Chunk_end c"
  by (simp add: Chunk_end_def)

lemma tiles_refined:
  "tiles lo hi [(k, p)] \<Longrightarrow> tiles lo hi (refined t c (k, p))"
  by (auto simp: refined_def hit_def split_piece_def keyed_def Let_def nonempty_chunk)

lemma tiles_refine: "tiles lo hi ps \<Longrightarrow> tiles lo hi (concat (map (refined t c) ps))"
proof (induction ps arbitrary: hi)
  case (Cons x ps)
  obtain k p where x: "x = (k, p)" by fastforce
  have "tiles k hi (refined t c x)" using Cons.prems x by (auto intro!: tiles_refined)
  moreover have "tiles lo k (concat (map (refined t c) ps))" using Cons x by auto
  ultimately show ?case by (auto simp: tiles_append)
qed simp

definition freed_at :: "int \<Rightarrow> bool \<Rightarrow> int \<Rightarrow> int" where
  "freed_at t is_free e = (if is_free \<and> e = t + 1 then t else e)"

lemma time_at_refined:
  assumes "chunk_size c > 0"
  shows "time_at (refined t c (k, p)) x =
    (if in_chunk (piece_dimensions p) x then Some (freed_at t (in_chunk c x) (earliest_free_slice_time p)) else None)"
  using assms by (auto simp: refined_def hit_def split_piece_def keyed_def Let_def freed_at_def in_chunk_def)

lemma time_at_refine:
  assumes "chunk_size c > 0"
  shows "time_at (concat (map (refined t c) ps)) x = map_option (freed_at t (in_chunk c x)) (time_at ps x)"
proof (induction ps)
  case (Cons a ps)
  obtain k p where "a = (k, p)" by fastforce
  with Cons show ?case by (simp add: time_at_append time_at_refined [OF assms])
qed simp

lemma refined_missed:
  "tiles lo hi ps \<Longrightarrow> hi \<le> offset c \<or> Chunk_end c \<le> lo \<Longrightarrow> concat (map (refined t c) ps) = ps"
proof (induction ps arbitrary: hi)
  case (Cons x ps)
  obtain k p where x: "x = (k, p)" by fastforce
  have "lo \<le> k" using Cons.prems(1) x tiles_le by auto
  then have "\<not> hit t c p" using Cons.prems x by (auto simp: hit_def)
  then have "refined t c x = [x]" using x by (simp add: refined_def)
  moreover have "concat (map (refined t c) ps) = ps" using Cons x by auto
  ultimately show ?case by simp
qed simp

lemma update_loop_eq:
  assumes "tiles lo hi ps" "chunk_size c > 0"
  shows "update_loop t c ps =
    Inr (filter (\<lambda>x. \<not> hit t c (snd x)) ps, concat (map (split_piece t c \<circ> snd) (filter (hit t c \<circ> snd) ps)))"
  using assms(1)
proof (induction ps arbitrary: hi)
  case (Cons x ps)
  obtain k p where x: "x = (k, p)" by fastforce
  let ?d = "piece_dimensions p"
  have d: "k = offset ?d" "k < hi" "Chunk_end ?d = hi" "tiles lo k ps" using Cons.prems x by auto
  have sz: "chunk_size ?d \<noteq> 0" using d by (auto simp: Chunk_end_def)
  show ?case
  proof (cases "hi \<ge> offset c")
    case True
    then show ?thesis
      using Cons.IH [OF d(4)] x d sz assms(2) by (auto simp: OverlapsWith_def hit_def)
  next
    case False
    then have "\<forall>y\<in>set ps. \<not> hit t c (snd y)"
      using tiles_ends [OF d(4)] d(2) by (fastforce simp: hit_def)
    moreover have "\<not> hit t c p" using False d by (auto simp: hit_def)
    ultimately show ?thesis using False x d by (simp add: filter_id_conv)
  qed
qed simp

lemma set_refine:
  "set (concat (map (refined t c) ps)) =
   set (filter (\<lambda>x. \<not> hit t c (snd x)) ps) \<union> set (map keyed (concat (map (split_piece t c \<circ> snd) (filter (hit t c \<circ> snd) ps))))"
  by (induction ps) (auto simp: refined_def)

lemma Update_eq:
  assumes "tiles lo hi (root_pieces root)" "chunk_size c > 0"
  shows "Update c t root = Inr (root\<lparr>root_pieces := concat (map (refined t c) (root_pieces root))\<rparr>)"
proof -
  let ?P = "root_pieces root" and ?i = "key_lower_bound (Chunk_end c - 1) (root_pieces root)"
  let ?new = "concat (map (split_piece t c \<circ> snd) (filter (hit t c \<circ> snd) ?P))"
  obtain m where m: "tiles m hi (take ?i ?P)" "tiles lo m (drop ?i ?P)"
    using assms(1) by (metis append_take_drop_id tiles_append)
  have "take ?i ?P = takeWhile (\<lambda>x. fst x > Chunk_end c - 1) ?P"
    by (simp add: key_lower_bound_def takeWhile_eq_take [symmetric])
  then have far: "\<forall>x\<in>set (take ?i ?P). Chunk_end c \<le> fst x" by (auto dest: set_takeWhileD)
  have "\<forall>x\<in>set ?P. fst x = offset (piece_dimensions (snd x))" using assms(1) tiles_keyed by blast
  then have "\<forall>x\<in>set (take ?i ?P). \<not> hit t c (snd x)" using far in_set_takeD by (fastforce simp: hit_def)
  then have t: "filter (\<lambda>x. \<not> hit t c (snd x)) (take ?i ?P) = take ?i ?P" "filter (hit t c \<circ> snd) (take ?i ?P) = []"
    by (auto simp: filter_empty_conv)
  have split: "filter Q ?P = filter Q (take ?i ?P) @ filter Q (drop ?i ?P)" for Q
    by (metis append_take_drop_id filter_append)
  have "take ?i ?P @ filter (\<lambda>x. \<not> hit t c (snd x)) (drop ?i ?P) = filter (\<lambda>x. \<not> hit t c (snd x)) ?P"
       "filter (hit t c \<circ> snd) (drop ?i ?P) = filter (hit t c \<circ> snd) ?P"
    using t split by simp_all
  then have "Update c t root = Inr (root\<lparr>root_pieces := fold insert_piece ?new (filter (\<lambda>x. \<not> hit t c (snd x)) ?P)\<rparr>)"
    by (simp add: Update_def Let_def update_loop_eq [OF m(2) assms(2)])
  moreover have "fold insert_piece ?new m = fold (btree_insert key_greater) (map keyed ?new) m" for m
    by (simp add: fold_map insert_piece_def [abs_def] keyed_def [abs_def] comp_def)
  moreover have "fold (btree_insert key_greater) (map keyed ?new) (filter (\<lambda>x. \<not> hit t c (snd x)) ?P) =
      concat (map (refined t c) ?P)"
    using tiles_sorted [OF tiles_refine [OF assms(1)]] tiles_sorted [OF assms(1)]
    by (intro desc_fold_insert_eq) (simp_all only: sorted_wrt_filter set_refine)
  ultimately show ?thesis by simp
qed

section \<open>Building the roots\<close>

definition root_ok :: "FreeChunkRoot \<Rightarrow> bool" where
  "root_ok r \<longleftrightarrow> chunk_size (root_chunk r) > 0 \<and> tiles (offset (root_chunk r)) (Chunk_end (root_chunk r)) (root_pieces r)"

definition roots_ok :: "(int \<times> FreeChunkRoot) list \<Rightarrow> bool" where
  "roots_ok rs \<longleftrightarrow>
     sorted_wrt (\<lambda>a b. Chunk_end (root_chunk (snd b)) \<le> offset (root_chunk (snd a))) rs \<and>
     (\<forall>x\<in>set rs. fst x = offset (root_chunk (snd x)) \<and> root_ok (snd x))"

text \<open>Free chunks as the callers provide them: in descending order, disjoint.\<close>

definition chunks_ok :: "FreeChunks \<Rightarrow> bool" where
  "chunks_ok cs \<longleftrightarrow> sorted_wrt (\<lambda>a b. snd b \<le> fst a) cs \<and> (\<forall>x\<in>set cs. fst x \<le> snd x)"

definition free_at :: "FreeChunks \<Rightarrow> int \<Rightarrow> bool" where
  "free_at cs x \<longleftrightarrow> (\<exists>c\<in>set cs. fst c \<le> x \<and> x < snd c)"

definition refine_root :: "int \<Rightarrow> Chunk \<Rightarrow> int \<times> FreeChunkRoot \<Rightarrow> int \<times> FreeChunkRoot" where
  "refine_root t c x = (fst x, (snd x)\<lparr>root_pieces := concat (map (refined t c) (root_pieces (snd x)))\<rparr>)"

definition refine_all :: "int \<Rightarrow> FreeChunks \<Rightarrow> int \<times> FreeChunkRoot \<Rightarrow> int \<times> FreeChunkRoot" where
  "refine_all t cs x = foldl (\<lambda>x c. refine_root t (FromOffsetEnd (fst c) (snd c)) x) x cs"

lemma refine_root_simps [simp]:
  "fst (refine_root t c x) = fst x" "root_chunk (snd (refine_root t c x)) = root_chunk (snd x)"
  "root_pieces (snd (refine_root t c x)) = concat (map (refined t c) (root_pieces (snd x)))"
  by (simp_all add: refine_root_def)

lemma refine_all_Cons: "refine_all t (c # cs) x = refine_all t cs (refine_root t (FromOffsetEnd (fst c) (snd c)) x)"
  by (simp add: refine_all_def)

lemma refine_all_fst [simp]: "fst (refine_all t cs x) = fst x"
    and refine_all_chunk [simp]: "root_chunk (snd (refine_all t cs x)) = root_chunk (snd x)"
  by (induction cs arbitrary: x) (simp_all add: refine_all_def)

lemma root_ok_refine_root [simp]: "root_ok (snd x) \<Longrightarrow> root_ok (snd (refine_root t c x))"
  by (simp add: root_ok_def tiles_refine)

lemma root_ok_refine_all: "root_ok (snd x) \<Longrightarrow> root_ok (snd (refine_all t cs x))"
  by (induction cs arbitrary: x) (simp_all add: refine_all_def)

lemma roots_ok_append: "roots_ok (xs @ ys) \<Longrightarrow> roots_ok xs \<and> roots_ok ys"
  by (auto simp: roots_ok_def sorted_wrt_append)

lemma roots_ok_map:
  assumes "roots_ok rs" "\<And>x. fst (g x) = fst x" "\<And>x. root_chunk (snd (g x)) = root_chunk (snd x)"
    "\<And>x. root_ok (snd x) \<Longrightarrow> root_ok (snd (g x))"
  shows "roots_ok (map g rs)"
  using assms by (auto simp: roots_ok_def sorted_wrt_map)

lemmas roots_ok_refine = roots_ok_map [OF _ refine_root_simps(1,2) root_ok_refine_root]
  roots_ok_map [OF _ refine_all_fst refine_all_chunk root_ok_refine_all]

lemma refine_root_missed:
  assumes "root_ok (snd x)" "Chunk_end (root_chunk (snd x)) \<le> offset c \<or> Chunk_end c \<le> offset (root_chunk (snd x))"
  shows "refine_root t c x = x"
  using assms refined_missed [of "offset (root_chunk (snd x))" "Chunk_end (root_chunk (snd x))" "root_pieces (snd x)" c t]
  by (simp add: root_ok_def refine_root_def)

lemma refine_root_empty: "\<not> chunk_size c > 0 \<Longrightarrow> refine_root t c x = x"
proof -
  assume "\<not> chunk_size c > 0"
  then have "refined t c y = [y]" for y by (simp add: refined_def hit_def)
  then have "refined t c = (\<lambda>y. [y])" by blast
  then show ?thesis by (simp add: refine_root_def)
qed

lemma refine_all_missed:
  assumes "root_ok (snd x)" "\<forall>c\<in>set cs. snd c \<le> offset (root_chunk (snd x))"
  shows "refine_all t cs x = x"
  using assms(2)
proof (induction cs)
  case (Cons c cs)
  have "refine_root t (FromOffsetEnd (fst c) (snd c)) x = x"
    using Cons.prems assms(1) by (intro refine_root_missed) auto
  then show ?case using Cons by (simp add: refine_all_Cons)
qed (simp add: refine_all_def)

lemma refine_root_pair [simp]: "(k, snd (refine_root t c (k, r))) = refine_root t c (k, r)"
  by (simp add: refine_root_def)

lemma Update_refine_root:
  "root_ok root \<Longrightarrow> chunk_size c > 0 \<Longrightarrow> Update c t root = Inr (snd (refine_root t c (k, root)))"
  using Update_eq by (auto simp: root_ok_def refine_root_def)

lemma OverlapsWith_root: "root_ok root \<Longrightarrow> chunk_size c > 0 \<Longrightarrow>
  OverlapsWith (root_chunk root) c = Inr (offset (root_chunk root) < Chunk_end c \<and> offset c < Chunk_end (root_chunk root))"
  by (auto simp: OverlapsWith_def root_ok_def)

text \<open>
  Inside the run of roots that overlap the chunk: every root is refined, and those left behind lie above a byte of the
  chunk.
\<close>

lemma update_from_refines:
  assumes "roots_ok (x # rs)" "chunk_size c > 0" "offset (root_chunk (snd x)) < Chunk_end c"
    "offset c < Chunk_end (root_chunk (snd x))"
  shows "\<exists>ps ts. update_from t c (refine_root t c x) rs = Inr (ps, ts) \<and>
    ps @ ts = map (refine_root t c) (x # rs) \<and> (\<forall>y\<in>set ps. offset c \<le> offset (root_chunk (snd y)))"
  using assms(1,3,4)
proof (induction rs arbitrary: x)
  case (Cons y rs)
  obtain k r where y: "y = (k, r)" by fastforce
  have ok: "roots_ok (y # rs)" "root_ok r" and below: "Chunk_end (root_chunk r) \<le> offset (root_chunk (snd x))"
    using Cons.prems(1) y by (auto simp: roots_ok_def)
  show ?case
  proof (cases "offset c < Chunk_end (root_chunk r)")
    case True
    have lo: "offset (root_chunk r) < Chunk_end c"
      using below ok(2) Cons.prems(2) by (auto simp: root_ok_def nonempty_chunk)
    obtain ps ts where ih: "update_from t c (refine_root t c y) rs = Inr (ps, ts)"
        "ps @ ts = map (refine_root t c) (y # rs)" "\<forall>z\<in>set ps. offset c \<le> offset (root_chunk (snd z))"
      using Cons.IH [OF ok(1)] lo True y by auto
    have "update_from t c (refine_root t c x) (y # rs) = Inr (refine_root t c x # ps, ts)"
      using ih(1) y True lo ok(2) assms(2) by (simp add: OverlapsWith_root Update_refine_root [of r c t k])
    moreover have "offset c \<le> offset (root_chunk (snd x))" using True below by simp
    ultimately show ?thesis using ih(2,3) by auto
  next
    case False
    have rest: "\<forall>z\<in>set (y # rs). Chunk_end (root_chunk (snd z)) \<le> offset c \<and> root_ok (snd z)"
    proof
      fix z assume z: "z \<in> set (y # rs)"
      then have "Chunk_end (root_chunk (snd z)) \<le> Chunk_end (root_chunk r)"
        using ok y by (auto simp: roots_ok_def root_ok_def nonempty_chunk intro: order.trans less_imp_le)
      then show "Chunk_end (root_chunk (snd z)) \<le> offset c \<and> root_ok (snd z)"
        using False z ok(1) by (auto simp: roots_ok_def)
    qed
    then have "map (refine_root t c) (y # rs) = y # rs" by (auto intro!: map_idI refine_root_missed)
    moreover have "update_from t c (refine_root t c x) (y # rs) = Inr ([], refine_root t c x # y # rs)"
      using y False ok(2) assms(2) by (simp add: OverlapsWith_root)
    ultimately show ?thesis by auto
  qed
qed simp

lemma update_overlapping_refines:
  assumes "roots_ok rs" "rs \<noteq> []" "chunk_size c > 0" "offset (root_chunk (snd (hd rs))) < Chunk_end c"
  shows "\<exists>ps ts. update_overlapping t c rs = Inr (ps, ts) \<and>
    ps @ ts = map (refine_root t c) rs \<and> (\<forall>y\<in>set ps. offset c \<le> offset (root_chunk (snd y)))"
proof -
  obtain k r rest where rs: "rs = (k, r) # rest" using assms(2) by (cases rs) auto
  have ok: "root_ok r" using assms(1) rs by (simp add: roots_ok_def)
  show ?thesis
  proof (cases "offset c < Chunk_end (root_chunk r)")
    case True
    then show ?thesis
      using update_from_refines [of "(k, r)" rest c t] assms rs ok
      by (simp add: OverlapsWith_root Update_refine_root [of r c t k])
  next
    case False
    have "\<forall>z\<in>set rs. Chunk_end (root_chunk (snd z)) \<le> offset c"
      using False assms(1) rs by (fastforce simp: roots_ok_def root_ok_def nonempty_chunk)
    then have "map (refine_root t c) rs = rs"
      using assms(1) by (auto simp: roots_ok_def intro!: map_idI refine_root_missed)
    then show ?thesis using rs False ok assms(3) by (simp add: OverlapsWith_root)
  qed
qed

lemma slice_time_pass_refines:
  assumes "roots_ok (passed @ todo)" "chunks_ok cs" "\<forall>x\<in>set passed. \<forall>c\<in>set cs. snd c \<le> offset (root_chunk (snd x))"
  shows "slice_time_pass t cs passed todo = Inr (map (refine_all t cs) (passed @ todo))"
  using assms
proof (induction cs arbitrary: passed todo)
  case Nil
  then show ?case by (simp add: refine_all_def map_idI)
next
  case (Cons c0 cs)
  obtain o1 e1 where c0: "c0 = (o1, e1)" by fastforce
  let ?c = "FromOffsetEnd o1 e1"
  have cs: "chunks_ok cs" "o1 \<le> e1" "\<forall>c\<in>set cs. snd c \<le> o1" using Cons.prems(2) c0 by (auto simp: chunks_ok_def)
  show ?case
  proof (cases "o1 = e1")
    case True
    then have "refine_root t ?c = id" using refine_root_empty [of ?c t] by auto
    then show ?thesis using Cons.IH [OF Cons.prems(1) cs(1)] Cons.prems(3) True c0 by (simp add: refine_all_Cons [abs_def])
  next
    case False
    then have sz: "chunk_size ?c > 0" using cs(2) by simp
    let ?sk = "takeWhile (all_before ?c) todo" and ?rs = "dropWhile (all_before ?c) todo"
    have "roots_ok (?sk @ ?rs)" unfolding takeWhile_dropWhile_id using roots_ok_append Cons.prems(1) by blast
    then have ok: "roots_ok ?rs" by (blast dest: roots_ok_append)
    have rok: "\<forall>x\<in>set (passed @ todo). root_ok (snd x)" using Cons.prems(1) unfolding roots_ok_def by blast
    have sk: "\<forall>x\<in>set ?sk. e1 \<le> offset (root_chunk (snd x))"
      by (auto dest: set_takeWhileD simp: all_before_def)
    have pa: "\<forall>x\<in>set passed. e1 \<le> offset (root_chunk (snd x))" using Cons.prems(3) c0 by auto
    have id1: "map (refine_root t ?c) (passed @ ?sk) = passed @ ?sk"
      using sk pa rok by (auto intro!: map_idI refine_root_missed dest: set_takeWhileD)
    show ?thesis
    proof (cases "?rs = []")
      case True
      then have "\<forall>x\<in>set todo. e1 \<le> offset (root_chunk (snd x))" by (auto simp: all_before_def)
      then have "\<forall>x\<in>set (passed @ todo). \<forall>c\<in>set (c0 # cs). snd c \<le> offset (root_chunk (snd x))"
        using pa cs c0 by fastforce
      then have "map (refine_all t (c0 # cs)) (passed @ todo) = passed @ todo"
        using rok by (intro map_idI refine_all_missed) auto
      then show ?thesis using True False c0 cs(2) by simp
    next
      case rs: False
      have "offset (root_chunk (snd (hd ?rs))) < Chunk_end ?c"
        using hd_dropWhile [OF rs] by (simp add: all_before_def)
      from update_overlapping_refines [OF ok rs sz this, of t] obtain ps ts where u:
          "update_overlapping t ?c ?rs = Inr (ps, ts)" "ps @ ts = map (refine_root t ?c) ?rs"
          "\<forall>y\<in>set ps. o1 \<le> offset (root_chunk (snd y))" by auto
      have eq: "(passed @ ?sk @ ps) @ ts = map (refine_root t ?c) (passed @ todo)"
        using u(2) id1 by (metis append.assoc map_append takeWhile_dropWhile_id)
      have "roots_ok ((passed @ ?sk @ ps) @ ts)" unfolding eq by (rule roots_ok_refine(1) [OF Cons.prems(1)])
      moreover have "\<forall>x\<in>set (passed @ ?sk @ ps). \<forall>c\<in>set cs. snd c \<le> offset (root_chunk (snd x))"
        using cs sk pa u(3) by fastforce
      ultimately have "slice_time_pass t cs (passed @ ?sk @ ps) ts = Inr (map (refine_all t cs) ((passed @ ?sk @ ps) @ ts))"
        using Cons.IH cs(1) by blast
      then show ?thesis
        using u(1) rs False c0 cs(2) unfolding eq by (auto simp: refine_all_Cons [abs_def] comp_def Let_def)
    qed
  qed
qed

lemma time_at_refine_all:
  assumes "\<forall>c\<in>set cs. fst c \<le> snd c"
  shows "time_at (root_pieces (snd (refine_all t cs x))) y =
    map_option (freed_at t (free_at cs y)) (time_at (root_pieces (snd x)) y)"
  using assms
proof (induction cs arbitrary: x)
  case Nil
  have "freed_at t (free_at [] y) = id" by (auto simp: freed_at_def free_at_def)
  then show ?case by (simp add: refine_all_def option.map_ident)
next
  case (Cons c cs)
  let ?c = "FromOffsetEnd (fst c) (snd c)"
  have "freed_at t (free_at cs y) (freed_at t (in_chunk ?c y) e) = freed_at t (free_at (c # cs) y) e" for e
    by (auto simp: freed_at_def free_at_def in_chunk_def)
  moreover have "time_at (root_pieces (snd (refine_root t ?c x))) y = map_option (freed_at t (in_chunk ?c y)) (time_at (root_pieces (snd x)) y)"
  proof (cases "chunk_size ?c > 0")
    case True
    then show ?thesis by (simp only: refine_root_simps time_at_refine)
  next
    case False
    then have "freed_at t (in_chunk ?c y) = id" by (auto simp: freed_at_def in_chunk_def)
    then show ?thesis using refine_root_empty [OF False] by (simp only: option.map_id0 id_apply)
  qed
  ultimately show ?case using Cons by (simp add: refine_all_Cons option.map_comp comp_def)
qed

text \<open>The roots at the latest slice time, and how the constructor refines them.\<close>

definition initial_roots :: "int \<Rightarrow> FreeChunks \<Rightarrow> (int \<times> FreeChunkRoot) list" where
  "initial_roots latest cs =
     map (\<lambda>c. (fst c, MakeFreeChunkRoot (FromOffsetEnd (fst c) (snd c)) latest)) (filter (\<lambda>c. fst c < snd c) cs)"

lemma foldE_insert_root:
  assumes "chunks_ok cs" "\<forall>x\<in>set rs. \<forall>c\<in>set cs. fst c < snd c \<longrightarrow> fst c < fst x"
  shows "foldE (insert_root latest) rs cs = Inr (rs @ initial_roots latest cs)"
  using assms
proof (induction cs arbitrary: rs)
  case (Cons c cs)
  have cs: "chunks_ok cs" "fst c \<le> snd c" "\<forall>d\<in>set cs. snd d \<le> fst c" using Cons.prems(1) by (auto simp: chunks_ok_def)
  show ?case
  proof (cases "fst c = snd c")
    case True
    then show ?thesis
      using Cons.IH [OF cs(1)] Cons.prems(2) by (simp add: insert_root_def case_prod_beta Let_def initial_roots_def)
  next
    case False
    let ?x = "(fst c, MakeFreeChunkRoot (FromOffsetEnd (fst c) (snd c)) latest)"
    have "\<forall>y\<in>set rs. key_greater y ?x" using Cons.prems(2) cs(2) False by (auto simp: key_greater_def)
    then have "btree_insert key_greater ?x rs = rs @ [?x]" using btree_insert_append [of rs key_greater ?x "[]"] by simp
    moreover have "\<forall>y\<in>set (rs @ [?x]). \<forall>d\<in>set cs. fst d < snd d \<longrightarrow> fst d < fst y"
      using Cons.prems(2) cs by fastforce
    ultimately show ?thesis
      using Cons.IH [OF cs(1)] cs(2) False by (simp add: insert_root_def case_prod_beta Let_def initial_roots_def)
  qed
qed (simp add: initial_roots_def)

lemma roots_ok_initial: "chunks_ok cs \<Longrightarrow> roots_ok (initial_roots latest cs)"
  by (auto simp: roots_ok_def chunks_ok_def initial_roots_def MakeFreeChunkRoot_def root_ok_def sorted_wrt_map
      sorted_wrt_filter)

text \<open>
  The earliest slice time \<open>e\<close> since which an address is free: it is free at all slice times from \<open>e\<close> to the
  latest, and not at the one before. The second part is stated down to the slice time \<open>t\<close> treated so far.
\<close>

definition free_since :: "FreeChunks list \<Rightarrow> nat \<Rightarrow> int \<Rightarrow> nat \<Rightarrow> bool" where
  "free_since fr t x e \<longleftrightarrow> t \<le> e \<and> e < length fr \<and> (\<forall>s\<in>{e..<length fr}. free_at (fr ! s) x) \<and>
     (t < e \<longrightarrow> \<not> free_at (fr ! (e - 1)) x)"

definition pieces_ok :: "FreeChunks list \<Rightarrow> nat \<Rightarrow> (int \<times> FreeChunkRoot) list \<Rightarrow> bool" where
  "pieces_ok fr t rs \<longleftrightarrow> roots_ok rs \<and>
     map (\<lambda>x. (offset (root_chunk (snd x)), Chunk_end (root_chunk (snd x)))) rs = filter (\<lambda>c. fst c < snd c) (fr ! (length fr - 1)) \<and>
     (\<forall>r\<in>set rs. \<forall>x. in_chunk (root_chunk (snd r)) x \<longrightarrow>
        (\<exists>e. time_at (root_pieces (snd r)) x = Some (int e) \<and> free_since fr t x e))"

lemma pieces_ok_initial:
  assumes "fr \<noteq> []" "chunks_ok (fr ! (length fr - 1))"
  shows "pieces_ok fr (length fr - 1) (initial_roots (int (length fr - 1)) (fr ! (length fr - 1)))"
proof -
  let ?l = "length fr - 1"
  have "\<exists>e. time_at (root_pieces (snd r)) x = Some (int e) \<and> free_since fr ?l x e"
    if "r \<in> set (initial_roots (int ?l) (fr ! ?l))" "in_chunk (root_chunk (snd r)) x" for r x
  proof (intro exI conjI)
    show "time_at (root_pieces (snd r)) x = Some (int ?l)" using that by (auto simp: initial_roots_def MakeFreeChunkRoot_def)
    have "free_at (fr ! ?l) x" using that by (force simp: initial_roots_def MakeFreeChunkRoot_def in_chunk_def free_at_def)
    moreover have "{?l..<length fr} = {?l}" using assms(1) by (cases fr) auto
    ultimately show "free_since fr ?l x ?l" using assms(1) by (simp add: free_since_def)
  qed
  moreover have "map (\<lambda>x. (offset (root_chunk (snd x)), Chunk_end (root_chunk (snd x)))) (initial_roots (int ?l) cs) =
      filter (\<lambda>c. fst c < snd c) cs" for cs
    by (simp add: initial_roots_def MakeFreeChunkRoot_def comp_def)
  ultimately show ?thesis using roots_ok_initial [OF assms(2)] by (simp add: pieces_ok_def)
qed

lemma free_since_step:
  assumes "free_since fr (Suc t) x e"
  shows "\<exists>e'. freed_at (int t) (free_at (fr ! t) x) (int e) = int e' \<and> free_since fr t x e'"
proof (cases "free_at (fr ! t) x \<and> e = Suc t")
  case True
  then have "free_at (fr ! s) x" if "t \<le> s" "s < length fr" for s
    using assms that by (cases "s = t") (auto simp: free_since_def)
  then show ?thesis
    using True assms by (intro exI [of _ t]) (auto simp: freed_at_def free_since_def)
next
  case False
  then show ?thesis using assms by (intro exI [of _ e]) (auto simp: freed_at_def free_since_def)
qed

lemma pieces_ok_step:
  assumes "pieces_ok fr (Suc t) rs" "chunks_ok (fr ! t)"
  shows "pieces_ok fr t (map (refine_all (int t) (fr ! t)) rs)"
proof -
  have c: "\<forall>c\<in>set (fr ! t). fst c \<le> snd c" using assms(2) by (simp add: chunks_ok_def)
  have "\<exists>e. time_at (root_pieces (snd (refine_all (int t) (fr ! t) r))) x = Some (int e) \<and> free_since fr t x e"
    if r: "r \<in> set rs" "in_chunk (root_chunk (snd r)) x" for r x
  proof -
    obtain e where "time_at (root_pieces (snd r)) x = Some (int e)" "free_since fr (Suc t) x e"
      using assms(1) r by (auto simp: pieces_ok_def)
    then show ?thesis using free_since_step [of fr t x e] by (auto simp: time_at_refine_all [OF c])
  qed
  then show ?thesis using assms(1) by (auto simp: pieces_ok_def roots_ok_refine(2) comp_def)
qed

lemma foldE_passes:
  assumes "pieces_ok fr n rs" "n < length fr" "\<forall>c\<in>set fr. chunks_ok c"
  shows "\<exists>rs'. foldE (\<lambda>rs t. slice_time_pass (int t) (fr ! t) [] rs) rs (rev [0..<n]) = Inr rs' \<and> pieces_ok fr 0 rs'"
  using assms(1,2)
proof (induction n arbitrary: rs)
  case (Suc n)
  have c: "chunks_ok (fr ! n)" using Suc.prems(2) assms(3) by simp
  have "slice_time_pass (int n) (fr ! n) [] rs = Inr (map (refine_all (int n) (fr ! n)) rs)"
    using slice_time_pass_refines [of "[]" rs "fr ! n" "int n"] Suc.prems(1) c by (simp add: pieces_ok_def)
  then show ?case using Suc.IH [OF pieces_ok_step [OF Suc.prems(1) c]] Suc.prems(2) by simp
qed simp

lemma MakeSlicedAllocationFinder_ok:
  assumes "length sizes = length fr" "fr \<noteq> []" "\<forall>c\<in>set fr. chunks_ok c"
  shows "\<exists>rs. MakeSlicedAllocationFinder fr sizes max_size preferred alignment perms allowed =
      Inr \<lparr>sorted_slice_sizes = sizes, max_colocation_size = max max_size (sum_list sizes), preferred_offset = preferred,
        finder_alignment = alignment, finder_roots = rs, slice_time_permutations = perms, is_offset_allowed = allowed\<rparr> \<and>
    pieces_ok fr 0 rs"
proof -
  have l: "length fr - 1 < length fr" "chunks_ok (fr ! (length fr - 1))" using assms(2,3) by simp_all
  obtain rs where "foldE (\<lambda>rs t. slice_time_pass (int t) (fr ! t) [] rs)
      (initial_roots (int (length fr - 1)) (fr ! (length fr - 1))) (rev [0..<length fr - 1]) = Inr rs" "pieces_ok fr 0 rs"
    using foldE_passes [OF pieces_ok_initial [OF assms(2) l(2)] l(1) assms(3)] by blast
  then show ?thesis
    using assms foldE_insert_root [OF l(2), of "[]" "int (length fr - 1)"]
    by (auto simp: MakeSlicedAllocationFinder_def Let_def max_def)
qed

section \<open>Fitting slices into pieces\<close>

text \<open>Every address of a slice placed from \<open>off\<close> on is free since the slice's own slice time.\<close>

fun slices_fit :: "(int \<times> FreeChunkPiece) list \<Rightarrow> int \<Rightarrow> (int \<times> int) list \<Rightarrow> bool" where
  "slices_fit P off [] \<longleftrightarrow> True"
| "slices_fit P off ((t, s) # ss) \<longleftrightarrow>
     (\<forall>x. off \<le> x \<and> x < off + s \<longrightarrow> (\<exists>e. time_at P x = Some e \<and> e \<le> t)) \<and> slices_fit P (off + s) ss"

lemma slices_fit_cut:
  assumes "off \<le> m" "m \<le> off + s"
  shows "slices_fit P off ((t, s) # ss) \<longleftrightarrow>
    (\<forall>x. off \<le> x \<and> x < m \<longrightarrow> (\<exists>e. time_at P x = Some e \<and> e \<le> t)) \<and> slices_fit P m ((t, s - (m - off)) # ss)"
proof -
  let ?g = "\<lambda>x. \<exists>e. time_at P x = Some e \<and> e \<le> t"
  have e: "m + (s - (m - off)) = off + s" by simp
  have "(\<forall>x. off \<le> x \<and> x < off + s \<longrightarrow> ?g x) \<longleftrightarrow> (\<forall>x. off \<le> x \<and> x < m \<longrightarrow> ?g x) \<and> (\<forall>x. m \<le> x \<and> x < off + s \<longrightarrow> ?g x)"
    using assms by (meson linorder_not_le order_trans order_less_le_trans)
  then show ?thesis unfolding slices_fit.simps e by blast
qed

text \<open>Pieces in ascending order, the first of which holds the current offset.\<close>

fun chain :: "(int \<times> FreeChunkPiece) list \<Rightarrow> int \<Rightarrow> FreeChunkPiece list \<Rightarrow> int \<Rightarrow> bool" where
  "chain P off [] hi \<longleftrightarrow> off = hi"
| "chain P off (p # ps) hi \<longleftrightarrow>
     off < Chunk_end (piece_dimensions p) \<and>
     (\<forall>x. off \<le> x \<and> x < Chunk_end (piece_dimensions p) \<longrightarrow> time_at P x = Some (earliest_free_slice_time p)) \<and>
     chain P (Chunk_end (piece_dimensions p)) ps hi"

lemma chain_snoc:
  "chain P off ps k \<Longrightarrow> k < Chunk_end (piece_dimensions p) \<Longrightarrow>
   \<forall>x. k \<le> x \<and> x < Chunk_end (piece_dimensions p) \<longrightarrow> time_at P x = Some (earliest_free_slice_time p) \<Longrightarrow>
   chain P off (ps @ [p]) (Chunk_end (piece_dimensions p))"
  by (induction ps arbitrary: off) auto

lemma chain_from:
  assumes "tiles lo hi ps" "lo \<le> off" "off < hi" "\<forall>x. lo \<le> x \<and> x < hi \<longrightarrow> time_at P x = time_at ps x"
  shows "key_lower_bound off ps < length ps \<and>
    chain P off (rev (map snd (take (Suc (key_lower_bound off ps)) ps))) hi"
  using assms
proof (induction ps arbitrary: hi)
  case (Cons y ps)
  obtain k p where y: "y = (k, p)" by fastforce
  have d: "k = offset (piece_dimensions p)" "k < hi" "hi = Chunk_end (piece_dimensions p)" "tiles lo k ps"
    using Cons.prems(1) y by auto
  have tp: "time_at P x = Some (earliest_free_slice_time p)" if "k \<le> x" "x < hi" for x
    using Cons.prems(4) that tiles_le [OF d(4)] y d by (auto simp: in_chunk_def)
  show ?case
  proof (cases "k \<le> off")
    case True
    then show ?thesis using Cons.prems(3) d(3) tp y by (simp add: key_lower_bound_def)
  next
    case False
    have "\<forall>x. lo \<le> x \<and> x < k \<longrightarrow> time_at P x = time_at ps x" using Cons.prems(4) y d by (auto simp: in_chunk_def)
    then have ih: "key_lower_bound off ps < length ps"
        "chain P off (rev (map snd (take (Suc (key_lower_bound off ps)) ps))) k"
      using Cons.IH [OF d(4) Cons.prems(2)] False by auto
    have "key_lower_bound off (y # ps) = Suc (key_lower_bound off ps)" using False y by (simp add: key_lower_bound_def)
    then show ?thesis using ih chain_snoc [OF ih(2), of p] d(2,3) tp y by simp
  qed
qed simp

lemma fit_loop_sound:
  assumes "chain P off ps hi" "fit_loop ss ps c off = Inr ()" "\<forall>s\<in>set ss. 0 \<le> snd s" "ss \<noteq> [] \<longrightarrow> c \<le> snd (hd ss)"
  shows "slices_fit P off (case ss of [] \<Rightarrow> [] | s # ss' \<Rightarrow> (fst s, snd s - c) # ss')"
  using assms
proof (induction ss ps c off rule: fit_loop.induct)
  case (3 s slices piece pieces consumed off)
  let ?e = "Chunk_end (piece_dimensions piece)"
  have t: "earliest_free_slice_time piece \<le> fst s" using "3.prems"(2) by (simp split: if_splits)
  have here: "time_at P x = Some (earliest_free_slice_time piece)" if "off \<le> x" "x < ?e" for x
    using "3.prems"(1) that by simp
  have rest: "slices_fit P o' (case slices of [] \<Rightarrow> [] | s # ss' \<Rightarrow> (fst s, snd s - 0) # ss') \<longleftrightarrow> slices_fit P o' slices" for o'
    by (cases slices) auto
  have nn: "slices \<noteq> [] \<longrightarrow> 0 \<le> snd (hd slices)" using "3.prems"(3) by (cases slices) auto
  consider "snd s - consumed > ?e - off" | "snd s - consumed = ?e - off" | "snd s - consumed < ?e - off" by linarith
  then show ?case
  proof cases
    case 1
    have "slices_fit P ?e ((fst s, snd s - consumed - (?e - off)) # slices)"
      using "3.IH"(1) "3.prems" 1 t by (simp add: algebra_simps)
    moreover have "off \<le> ?e" "?e \<le> off + (snd s - consumed)" using 1 "3.prems"(1) by auto
    ultimately show ?thesis using slices_fit_cut [of off ?e "snd s - consumed" P "fst s" slices] here t by simp
  next
    case 2
    have "slices_fit P (off + (?e - off)) slices" using "3.IH"(2) "3.prems" 2 t nn unfolding rest [symmetric] by simp
    moreover have "off + (snd s - consumed) = off + (?e - off)" using 2 by simp
    ultimately show ?thesis using here t by simp
  next
    case 3
    have c: "chain P (off + (snd s - consumed)) (piece # pieces) hi" using "3.prems"(1,4) 3 by auto
    have "slices_fit P (off + (snd s - consumed)) slices"
      using "3.IH"(3) "3.prems" 3 t nn c unfolding rest [symmetric] by simp
    then show ?thesis using here t 3 by auto
  qed
qed simp_all

lemma fit_loop_complete:
  assumes "chain P off ps hi" "\<forall>x. hi \<le> x \<longrightarrow> time_at P x = None"
    "slices_fit P off (case ss of [] \<Rightarrow> [] | s # ss' \<Rightarrow> (fst s, snd s - c) # ss')"
    "\<forall>s\<in>set ss. 0 < snd s" "ss \<noteq> [] \<longrightarrow> c < snd (hd ss)"
  shows "fit_loop ss ps c off = Inr ()"
  using assms
proof (induction ss ps c off rule: fit_loop.induct)
  case (2 s slices consumed off)
  have "off \<le> off \<and> off < off + (snd s - consumed)" using "2.prems"(5) by simp
  then have "\<exists>e. time_at P off = Some e" using "2.prems"(3) by auto
  then show ?case using "2.prems"(1,2) by simp
next
  case (3 s slices piece pieces consumed off)
  let ?e = "Chunk_end (piece_dimensions piece)"
  have pos: "consumed < snd s" using "3.prems"(5) by simp
  have here: "time_at P off = Some (earliest_free_slice_time piece)" "off < ?e" using "3.prems"(1) by auto
  have fit: "slices_fit P off ((fst s, snd s - consumed) # slices)" using "3.prems"(3) by simp
  have "off \<le> off \<and> off < off + (snd s - consumed)" using pos by simp
  then have t: "\<not> earliest_free_slice_time piece > fst s" using fit here(1) by auto
  have rest: "slices_fit P o' (case slices of [] \<Rightarrow> [] | s # ss' \<Rightarrow> (fst s, snd s - 0) # ss') \<longleftrightarrow> slices_fit P o' slices" for o'
    by (cases slices) auto
  have nn: "slices \<noteq> [] \<longrightarrow> 0 < snd (hd slices)" using "3.prems"(4) by (cases slices) auto
  consider "snd s - consumed > ?e - off" | "snd s - consumed = ?e - off" | "snd s - consumed < ?e - off" by linarith
  then show ?case
  proof cases
    case 1
    have "slices_fit P ?e ((fst s, snd s - consumed - (?e - off)) # slices)"
      using slices_fit_cut [of off ?e "snd s - consumed" P "fst s" slices] fit here(2) 1 by simp
    then have "fit_loop (s # slices) pieces (consumed + (?e - off)) ?e = Inr ()"
      using "3.IH"(1) "3.prems" 1 t by (simp add: algebra_simps)
    then show ?thesis using 1 t by simp
  next
    case 2
    then have "slices_fit P ?e slices" using fit by (simp add: algebra_simps)
    then have "fit_loop slices pieces 0 ?e = Inr ()" using "3.IH"(2) "3.prems" 2 t nn unfolding rest [symmetric] by simp
    then show ?thesis using 2 t by simp
  next
    case 3
    have c: "chain P (off + (snd s - consumed)) (piece # pieces) hi" using "3.prems"(1) 3 pos by auto
    have "slices_fit P (off + (snd s - consumed)) slices" using fit by simp
    then have "fit_loop slices (piece # pieces) 0 (off + (snd s - consumed)) = Inr ()"
      using "3.IH"(3) "3.prems" 3 t nn c unfolding rest [symmetric] by simp
    then show ?thesis using 3 t by simp
  qed
qed simp

lemma key_lower_bound_before:
  "tiles lo hi ps \<Longrightarrow> off < lo \<Longrightarrow> key_lower_bound off ps = length ps"
  unfolding key_lower_bound_def by (metis tiles_keys less_le_trans takeWhile_eq_all_conv)

text \<open>What it means that a permutation of the slice times fits at an offset of a root.\<close>

definition placement_ok :: "SlicedAllocationFinder \<Rightarrow> int list \<Rightarrow> FreeChunkRoot \<Rightarrow> int \<Rightarrow> bool" where
  "placement_ok f permutation root off \<longleftrightarrow>
     length permutation = length (sorted_slice_sizes f) \<and> offset (root_chunk root) \<le> off \<and> off < Chunk_end (root_chunk root) \<and>
     off + max_colocation_size f \<le> Chunk_end (root_chunk root) \<and> is_offset_allowed f off \<and>
     slices_fit (root_pieces root) off (zip permutation (sorted_slice_sizes f))"

lemma zip_consumed: "(case zip xs ys of [] \<Rightarrow> [] | s # ss \<Rightarrow> (fst s, snd s - (0 :: int)) # ss) = zip xs ys"
  by (cases "zip xs ys") auto

lemma DoesPermutationFit_sound:
  assumes "root_ok root" "\<forall>s\<in>set (sorted_slice_sizes f). 0 \<le> s" "DoesPermutationFit f p root off = Inr ()"
  shows "placement_ok f p root off"
proof -
  let ?c = "root_chunk root"
  have t: "tiles (offset ?c) (Chunk_end ?c) (root_pieces root)" using assms(1) by (simp add: root_ok_def)
  have d: "length p = length (sorted_slice_sizes f)" "off < Chunk_end ?c" "off + max_colocation_size f \<le> Chunk_end ?c"
      "is_offset_allowed f off" "key_lower_bound off (root_pieces root) \<noteq> length (root_pieces root)"
      "fit_loop (zip p (sorted_slice_sizes f)) (rev (map snd (take (Suc (key_lower_bound off (root_pieces root))) (root_pieces root)))) 0 off = Inr ()"
    using assms(3) by (auto simp: DoesPermutationFit_def Let_def split: if_splits)
  have lo: "offset ?c \<le> off" using key_lower_bound_before [OF t] d(5) by force
  have "chain (root_pieces root) off (rev (map snd (take (Suc (key_lower_bound off (root_pieces root))) (root_pieces root)))) (Chunk_end ?c)"
    using chain_from [OF t lo d(2)] by blast
  from fit_loop_sound [OF this d(6)] have "slices_fit (root_pieces root) off (zip p (sorted_slice_sizes f))"
    unfolding zip_consumed using assms(2) by (fastforce dest: set_zip_rightD simp: hd_zip)
  then show ?thesis using d lo by (simp add: placement_ok_def)
qed

lemma DoesPermutationFit_complete:
  assumes "root_ok root" "\<forall>s\<in>set (sorted_slice_sizes f). 0 < s" "placement_ok f p root off"
  shows "DoesPermutationFit f p root off = Inr ()"
proof -
  let ?c = "root_chunk root"
  have t: "tiles (offset ?c) (Chunk_end ?c) (root_pieces root)" using assms(1) by (simp add: root_ok_def)
  have d: "offset ?c \<le> off" "off < Chunk_end ?c" using assms(3) by (simp_all add: placement_ok_def)
  let ?ps = "rev (map snd (take (Suc (key_lower_bound off (root_pieces root))) (root_pieces root)))"
  have c: "key_lower_bound off (root_pieces root) < length (root_pieces root)" "chain (root_pieces root) off ?ps (Chunk_end ?c)"
    using chain_from [OF t d] by blast+
  have o: "\<forall>x. Chunk_end ?c \<le> x \<longrightarrow> time_at (root_pieces root) x = None" using time_at_outside [OF t] by blast
  have pos: "\<forall>s\<in>set (zip p (sorted_slice_sizes f)). 0 < snd s" using assms(2) by (fastforce dest: set_zip_rightD)
  then have "zip p (sorted_slice_sizes f) \<noteq> [] \<longrightarrow> 0 < snd (hd (zip p (sorted_slice_sizes f)))"
    by (cases "zip p (sorted_slice_sizes f)") auto
  from fit_loop_complete [OF c(2) o _ pos this] have "fit_loop (zip p (sorted_slice_sizes f)) ?ps 0 off = Inr ()"
    unfolding zip_consumed using assms(3) by (simp add: placement_ok_def)
  then show ?thesis using assms(3) c(1) by (simp add: DoesPermutationFit_def Let_def placement_ok_def)
qed

section \<open>Searching the roots\<close>

definition is_permutation :: "nat \<Rightarrow> int list \<Rightarrow> bool" where
  "is_permutation n p \<longleftrightarrow> distinct p \<and> set p = {0..<int n}"

lemma is_permutation_length: "is_permutation n p \<Longrightarrow> length p = n"
  by (metis is_permutation_def distinct_card card_atLeastLessThan_int diff_zero nat_int)

lemma place_slices_ok:
  assumes "distinct (map fst ss)" "\<forall>s\<in>set ss. 0 \<le> fst s \<and> fst s < int (length chunks)"
  shows "\<exists>cs. place_slices ss off chunks = Inr (cs, off + sum_list (map snd ss)) \<and> length cs = length chunks \<and>
    (\<forall>i<length ss. cs ! nat (fst (ss ! i)) = FromOffsetSize (off + sum_list (take i (map snd ss))) (snd (ss ! i))) \<and>
    (\<forall>j<length chunks. int j \<notin> fst ` set ss \<longrightarrow> cs ! j = chunks ! j)"
  using assms
proof (induction ss arbitrary: off chunks)
  case (Cons a ss)
  obtain t s where a: "a = (t, s)" by fastforce
  let ?cs = "chunks[nat t := FromOffsetSize off s]"
  have t: "0 \<le> t" "t < int (length chunks)" "t \<notin> fst ` set ss" using Cons.prems a by auto
  obtain cs where cs: "place_slices ss (off + s) ?cs = Inr (cs, off + s + sum_list (map snd ss))" "length cs = length chunks"
      "\<forall>i<length ss. cs ! nat (fst (ss ! i)) = FromOffsetSize (off + s + sum_list (take i (map snd ss))) (snd (ss ! i))"
      "\<forall>j<length chunks. int j \<notin> fst ` set ss \<longrightarrow> cs ! j = ?cs ! j"
    using Cons.IH [of ?cs "off + s"] Cons.prems by auto
  have "cs ! nat t = FromOffsetSize off s" using cs(4) t by (metis int_nat_eq nat_less_iff nth_list_update_eq)
  then have "cs ! nat (fst ((a # ss) ! i)) = FromOffsetSize (off + sum_list (take i (map snd (a # ss)))) (snd ((a # ss) ! i))"
    if "i < length (a # ss)" for i
    using that cs(3) a by (cases i) (auto simp: add.assoc)
  moreover have "cs ! j = chunks ! j" if "j < length chunks" "int j \<notin> fst ` set (a # ss)" for j
    using that cs(4) a t by auto
  ultimately show ?case using cs(1,2) a t by (simp add: add.assoc)
qed simp

text \<open>The chunks that place the slices from an offset on, by slice time, and the rest of the colocation size.\<close>

definition placed_at :: "int list \<Rightarrow> int \<Rightarrow> int list \<Rightarrow> int \<Rightarrow> Chunk list \<Rightarrow> bool" where
  "placed_at sizes max_size p off chunks \<longleftrightarrow> length chunks = Suc (length sizes) \<and>
     (\<forall>i<length sizes. chunks ! nat (p ! i) = FromOffsetSize (off + sum_list (take i sizes)) (sizes ! i)) \<and>
     chunks ! length sizes = FromOffsetSize (off + sum_list sizes) (max_size - sum_list sizes)"

lemma PermutationToChunks_ok:
  assumes "is_permutation (length (sorted_slice_sizes f)) p"
  shows "\<exists>cs. PermutationToChunks f p off = Inr cs \<and> placed_at (sorted_slice_sizes f) (max_colocation_size f) p off cs"
proof -
  let ?n = "length (sorted_slice_sizes f)" and ?ss = "zip p (sorted_slice_sizes f)"
  let ?init = "replicate (Suc (length p)) (FromOffsetSize (- 1) 1)"
  have n: "length p = ?n" using is_permutation_length [OF assms] .
  have m: "map fst ?ss = p" "map snd ?ss = sorted_slice_sizes f" using n by simp_all
  have "distinct (map fst ?ss)" using assms m(1) by (simp add: is_permutation_def)
  moreover have "\<forall>s\<in>set ?ss. 0 \<le> fst s \<and> fst s < int (length ?init)"
    using assms n by (fastforce simp: is_permutation_def dest: set_zip_leftD)
  ultimately obtain cs where cs: "place_slices ?ss off ?init = Inr (cs, off + sum_list (sorted_slice_sizes f))"
      "length cs = length ?init"
      "\<forall>i<length ?ss. cs ! nat (fst (?ss ! i)) = FromOffsetSize (off + sum_list (take i (sorted_slice_sizes f))) (snd (?ss ! i))"
    using place_slices_ok [of ?ss ?init off] unfolding m(2) by blast
  have at: "(cs[length p := c]) ! nat (p ! i) = FromOffsetSize (off + sum_list (take i (sorted_slice_sizes f))) (sorted_slice_sizes f ! i)"
    if "i < ?n" for c i
  proof -
    have "p ! i \<in> set p" using that n by simp
    then have "p ! i < int ?n" "0 \<le> p ! i" using assms by (simp_all only: is_permutation_def atLeastLessThan_iff)
    then have "nat (p ! i) \<noteq> length p" using n by linarith
    then show ?thesis using cs(3) that n by simp
  qed
  let ?r = "cs[length p := FromOffsetSize (off + sum_list (sorted_slice_sizes f)) (max_colocation_size f - sum_list (sorted_slice_sizes f))]"
  have "PermutationToChunks f p off = Inr ?r" using cs(1) by (simp add: PermutationToChunks_def)
  moreover have "placed_at (sorted_slice_sizes f) (max_colocation_size f) p off ?r"
    using at cs(2) n by (simp add: placed_at_def)
  ultimately show ?thesis by blast
qed

lemma fitting_permutation_Some:
  "fitting_permutation f root off = Some p \<Longrightarrow> p \<in> set (slice_time_permutations f) \<and> DoesPermutationFit f p root off = Inr ()"
  by (auto simp: fitting_permutation_def find_Some_iff in_set_conv_nth) (metis isl_def old.unit.exhaust sum.exhaust)

lemma fitting_permutation_None:
  "fitting_permutation f root off = None \<Longrightarrow> p \<in> set (slice_time_permutations f) \<Longrightarrow> DoesPermutationFit f p root off \<noteq> Inr ()"
  by (auto simp: fitting_permutation_def find_None_iff)

text \<open>The outcomes of the search along the offsets of one root.\<close>

inductive search_outcome :: "SlicedAllocationFinder \<Rightarrow> FreeChunkRoot \<Rightarrow> int \<Rightarrow> int \<Rightarrow> Chunk list status_or \<Rightarrow> bool"
  for f root off last_end where
  found: "0 \<le> k \<Longrightarrow> p \<in> set (slice_time_permutations f) \<Longrightarrow>
    DoesPermutationFit f p root (off + k * finder_alignment f) = Inr () \<Longrightarrow>
    placed_at (sorted_slice_sizes f) (max_colocation_size f) p (off + k * finder_alignment f) cs \<Longrightarrow>
    search_outcome f root off last_end (Inr cs)"
| none: "(\<And>k. 0 \<le> k \<Longrightarrow> off + k * finder_alignment f + max_colocation_size f \<le> last_end \<Longrightarrow>
      length (root_pieces root) = 1 \<and> k > 0 \<or> fitting_permutation f root (off + k * finder_alignment f) = None) \<Longrightarrow>
    search_outcome f root off last_end (Inr [])"

lemma search_outcome_shift:
  assumes "search_outcome f root (off + finder_alignment f) last_end r" "fitting_permutation f root off = None"
    "length (root_pieces root) \<noteq> 1"
  shows "search_outcome f root off last_end r"
proof -
  have sh: "off + finder_alignment f + k * finder_alignment f = off + (k + 1) * finder_alignment f" for k
    by (simp add: algebra_simps)
  from assms(1) show ?thesis
  proof cases
    case (found k p cs)
    have "0 \<le> k + 1" using found(2) by simp
    from search_outcome.found [OF this found(3) found(4,5) [unfolded sh]] show ?thesis unfolding found(1) .
  next
    case none
    have "length (root_pieces root) = 1 \<and> k > 0 \<or> fitting_permutation f root (off + k * finder_alignment f) = None"
      if "0 \<le> k" "off + k * finder_alignment f + max_colocation_size f \<le> last_end" for k
    proof (cases "k = 0")
      case False
      then show ?thesis using none(2) [of "k - 1", unfolded sh] that assms(3) by simp
    qed (simp add: assms(2))
    then show ?thesis unfolding none(1) by (rule search_outcome.none)
  qed
qed

lemma offset_loop_outcome:
  assumes "finder_alignment f \<ge> 1" "\<forall>p\<in>set (slice_time_permutations f). is_permutation (length (sorted_slice_sizes f)) p"
  shows "search_outcome f root off last_end (offset_loop f root off last_end)"
  using assms
proof (induction f root off last_end rule: offset_loop.induct)
  case (1 f root off last_end)
  let ?a = "finder_alignment f" and ?m = "max_colocation_size f" and ?r = "offset_loop f root off last_end"
  have step: "off + ?m \<le> last_end \<Longrightarrow> ?r = (case fitting_permutation f root off of
             Some p \<Rightarrow> PermutationToChunks f p off
           | None \<Rightarrow> if length (root_pieces root) = 1 then Inr [] else offset_loop f root (off + ?a) last_end)"
    "\<not> off + ?m \<le> last_end \<Longrightarrow> ?r = Inr []"
    using "1.prems"(1) by (simp_all add: offset_loop.simps [of f root off last_end])
  consider (stop) "\<not> off + ?m \<le> last_end" | (found) p where "off + ?m \<le> last_end" "fitting_permutation f root off = Some p"
    | (single) "off + ?m \<le> last_end" "fitting_permutation f root off = None" "length (root_pieces root) = 1"
    | (more) "off + ?m \<le> last_end" "fitting_permutation f root off = None" "length (root_pieces root) \<noteq> 1"
    by (cases "fitting_permutation f root off") auto
  then show ?case
  proof cases
    case stop
    have "\<not> off + k * ?a + ?m \<le> last_end" if "k \<ge> 0" for k
      using stop mult_nonneg_nonneg [OF that, of ?a] "1.prems"(1) by linarith
    then show ?thesis unfolding step(2) [OF stop] by (intro search_outcome.none) blast
  next
    case found
    then have p: "p \<in> set (slice_time_permutations f)" "DoesPermutationFit f p root (off + 0 * ?a) = Inr ()"
      using fitting_permutation_Some by fastforce+
    obtain cs where "PermutationToChunks f p off = Inr cs" "placed_at (sorted_slice_sizes f) ?m p (off + 0 * ?a) cs"
      using PermutationToChunks_ok [of f p off] "1.prems"(2) p(1) by auto
    then show ?thesis using search_outcome.found [OF order_refl p] step(1) [OF found(1)] found(2) by simp
  next
    case single
    have "k > 0 \<or> fitting_permutation f root (off + k * ?a) = None" if "k \<ge> 0" for k using single(2) that by (cases "k = 0") auto
    moreover have "?r = Inr []" using step(1) [OF single(1)] single(2,3) by simp
    ultimately show ?thesis using single(3) by (simp add: search_outcome.none)
  next
    case more
    have "?r = offset_loop f root (off + ?a) last_end" using step(1) [OF more(1)] more(2,3) by simp
    moreover have "\<not> \<not> 1 \<le> ?a" using "1.prems"(1) by simp
    ultimately show ?thesis
      using search_outcome_shift [OF "1.IH" more(2,3)] more "1.prems" by simp
  qed
qed

lemma first_offset:
  assumes "0 \<le> o1" "1 \<le> (a :: int)"
  shows "\<exists>m. cmod o1 a = Inr m \<and> cmod (if m \<noteq> 0 then o1 + (a - m) else o1) a = Inr 0 \<and>
    (let fo = (if m \<noteq> 0 then o1 + (a - m) else o1) in o1 \<le> fo \<and> a dvd fo \<and> (\<forall>x\<ge>o1. a dvd x \<longrightarrow> fo \<le> x))"
proof -
  let ?m = "o1 mod a" and ?fo = "if o1 mod a \<noteq> 0 then o1 + (a - o1 mod a) else o1"
  have m: "0 \<le> ?m" "?m < a" "cmod o1 a = Inr ?m" using assms by (simp_all add: cmod_pos)
  have "a * (o1 div a) = o1 - ?m" by (rule minus_mod_eq_mult_div [symmetric])
  then have "?fo = a * (o1 div a + (if ?m \<noteq> 0 then 1 else 0))" by (simp add: distrib_left)
  then have d: "a dvd ?fo" by (metis dvd_triv_left)
  have ge: "o1 \<le> ?fo" and lt: "?fo < o1 + a" using m by auto
  have "?fo \<le> x" if "o1 \<le> x" "a dvd x" for x
  proof (rule ccontr)
    assume "\<not> ?fo \<le> x"
    then have "0 < ?fo - x" "?fo - x < a" using that(1) lt by linarith+
    moreover have "a dvd ?fo - x" using d that(2) by (rule dvd_diff)
    ultimately show False using zdvd_not_zless by blast
  qed
  moreover have "cmod ?fo a = Inr 0" using d ge assms by (simp add: cmod_pos del: if_split)
  ultimately show ?thesis using m(3) d ge unfolding Let_def by blast
qed

text \<open>A placement in some root, at an aligned offset.\<close>

definition placeable :: "SlicedAllocationFinder \<Rightarrow> int list \<Rightarrow> int \<Rightarrow> bool" where
  "placeable f p off \<longleftrightarrow> p \<in> set (slice_time_permutations f) \<and> finder_alignment f dvd off \<and>
     (\<exists>root\<in>snd ` set (finder_roots f). placement_ok f p root off)"

definition finder_ok :: "SlicedAllocationFinder \<Rightarrow> bool" where
  "finder_ok f \<longleftrightarrow> finder_alignment f \<ge> 1 \<and> roots_ok (finder_roots f) \<and> (\<forall>r\<in>set (finder_roots f). 0 \<le> fst r) \<and>
     (\<forall>s\<in>set (sorted_slice_sizes f). 0 < s) \<and> sorted_slice_sizes f \<noteq> [] \<and>
     sum_list (sorted_slice_sizes f) \<le> max_colocation_size f \<and>
     (\<forall>p\<in>set (slice_time_permutations f). is_permutation (length (sorted_slice_sizes f)) p)"

lemma time_at_single:
  "length P = 1 \<Longrightarrow> tiles lo hi P \<Longrightarrow> lo \<le> x \<Longrightarrow> x < hi \<Longrightarrow> time_at P x = time_at P lo"
  by (cases P) (auto simp: in_chunk_def)

text \<open>A root that is free since one slice time throughout fits at its first offset if it fits anywhere.\<close>

lemma slices_fit_uniform:
  assumes "\<forall>x e. time_at P x = Some e \<longrightarrow> e = e0" "\<forall>x. off \<le> x \<and> x < off + sum_list (map snd ss) \<longrightarrow> time_at P x \<noteq> None"
    "\<forall>s\<in>set ss. 0 < snd s" "slices_fit P off' ss"
  shows "slices_fit P off ss"
  using assms(2-4)
proof (induction ss arbitrary: off off')
  case (Cons a ss)
  obtain t s where a: "a = (t, s)" by fastforce
  have nn: "0 \<le> sum_list (map snd ss)" using Cons.prems(2) by (intro sum_list_nonneg) auto
  have s: "0 < s" using Cons.prems(2) a by simp
  then obtain e where "time_at P off' = Some e" "e \<le> t" using Cons.prems(3) a by fastforce
  then have "e0 \<le> t" using assms(1) by blast
  then have "\<exists>e. time_at P x = Some e \<and> e \<le> t" if "off \<le> x" "x < off + s" for x
    using Cons.prems(1) [rule_format, of x] that assms(1) a nn by fastforce
  moreover have "slices_fit P (off + s) ss" using Cons.IH [of "off + s" "off' + s"] Cons.prems a s by simp
  ultimately show ?case using a by simp
qed simp

lemma placement_ok_uniform:
  assumes "root_ok root" "length (root_pieces root) = 1" "placement_ok f p root off'" "offset (root_chunk root) \<le> off" "off \<le> off'"
    "is_offset_allowed f off" "\<forall>s\<in>set (sorted_slice_sizes f). 0 < s" "sum_list (sorted_slice_sizes f) \<le> max_colocation_size f"
  shows "placement_ok f p root off"
proof -
  let ?P = "root_pieces root" and ?c = "root_chunk root" and ?ss = "zip p (sorted_slice_sizes f)"
  have t: "tiles (offset ?c) (Chunk_end ?c) ?P" using assms(1) by (simp add: root_ok_def)
  have d: "length p = length (sorted_slice_sizes f)" "off' + max_colocation_size f \<le> Chunk_end ?c" "off' < Chunk_end ?c"
      "slices_fit ?P off' ?ss" using assms(3) by (simp_all add: placement_ok_def)
  have uni: "time_at ?P x = Some e \<Longrightarrow> time_at ?P (offset ?c) = Some e" for x e
    using time_at_single [OF assms(2) t, of x] time_at_outside [OF t, of x] by force
  have sum: "sum_list (map snd ?ss) = sum_list (sorted_slice_sizes f)" using d(1) by simp
  have "slices_fit ?P off ?ss"
  proof (rule slices_fit_uniform [of _ "the (time_at ?P (offset ?c))", OF _ _ _ d(4)])
    show "\<forall>x e. time_at ?P x = Some e \<longrightarrow> e = the (time_at ?P (offset ?c))" using uni by fastforce
    show "\<forall>x. off \<le> x \<and> x < off + sum_list (map snd ?ss) \<longrightarrow> time_at ?P x \<noteq> None"
      using time_at_inside [OF t] assms(4,5,8) d(2) sum by (smt (verit) option.distinct(1))
    show "\<forall>s\<in>set ?ss. 0 < snd s" using assms(7) by (fastforce dest: set_zip_rightD)
  qed
  then show ?thesis using d assms(4-6) by (simp add: placement_ok_def)
qed

lemma placed_at_not_empty: "placed_at sizes m p off cs \<Longrightarrow> cs \<noteq> []"
  by (auto simp: placed_at_def)

definition found_placement :: "SlicedAllocationFinder \<Rightarrow> Chunk list \<Rightarrow> bool" where
  "found_placement f cs \<longleftrightarrow>
     (\<exists>p off. placeable f p off \<and> placed_at (sorted_slice_sizes f) (max_colocation_size f) p off cs)"

lemma found_placement_intro:
  assumes "finder_ok f" "root \<in> snd ` set (finder_roots f)" "p \<in> set (slice_time_permutations f)"
    "finder_alignment f dvd off" "DoesPermutationFit f p root off = Inr ()"
    "placed_at (sorted_slice_sizes f) (max_colocation_size f) p off cs"
  shows "found_placement f cs"
proof -
  have "root_ok root" "\<forall>s\<in>set (sorted_slice_sizes f). 0 \<le> s" using assms(1,2) by (auto simp: finder_ok_def roots_ok_def)
  then have "placement_ok f p root off" using DoesPermutationFit_sound assms(5) by blast
  then show ?thesis using assms unfolding found_placement_def placeable_def by blast
qed

lemma FindInRoot_None:
  assumes f: "finder_ok f" and root: "root \<in> snd ` set (finder_roots f)"
  shows "\<exists>cs. FindInRoot f root None = Inr cs \<and> (cs \<noteq> [] \<longrightarrow> found_placement f cs) \<and>
    (cs = [] \<longrightarrow> (\<forall>x. is_offset_allowed f x) \<longrightarrow> (\<forall>p\<in>set (slice_time_permutations f). \<forall>off. finder_alignment f dvd off \<longrightarrow>
       \<not> placement_ok f p root off))"
proof -
  let ?a = "finder_alignment f" and ?o1 = "offset (root_chunk root)" and ?e = "Chunk_end (root_chunk root)"
  have r: "root_ok root" "0 \<le> ?o1" "1 \<le> ?a" using f root by (force simp: finder_ok_def roots_ok_def)+
  obtain m where m: "cmod ?o1 ?a = Inr m" "cmod (if m \<noteq> 0 then ?o1 + (?a - m) else ?o1) ?a = Inr 0"
      "let fo = (if m \<noteq> 0 then ?o1 + (?a - m) else ?o1) in ?o1 \<le> fo \<and> ?a dvd fo \<and> (\<forall>x\<ge>?o1. ?a dvd x \<longrightarrow> fo \<le> x)"
    using first_offset [OF r(2,3)] by blast
  define fo where "fo = (if m \<noteq> 0 then ?o1 + (?a - m) else ?o1)"
  have fo: "?o1 \<le> fo" "?a dvd fo" "\<And>x. ?o1 \<le> x \<Longrightarrow> ?a dvd x \<Longrightarrow> fo \<le> x" using m(3) by (simp_all add: Let_def fo_def)
  have eq: "FindInRoot f root None = offset_loop f root fo ?e"
    using m(1,2) by (simp add: FindInRoot_def Let_def fo_def)
  have "search_outcome f root fo ?e (offset_loop f root fo ?e)"
    using f by (intro offset_loop_outcome) (auto simp: finder_ok_def)
  then show ?thesis
  proof cases
    case (found k p cs)
    have "?a dvd fo + k * ?a" using fo(2) by simp
    from found_placement_intro [OF f root found(3) this found(4,5)] show ?thesis
      unfolding eq using found(1) placed_at_not_empty [OF found(5)] by simp
  next
    case none
    have "\<not> placement_ok f p root off"
      if all: "\<forall>x. is_offset_allowed f x" and p: "p \<in> set (slice_time_permutations f)" and off: "?a dvd off" for p off
    proof
      assume pl: "placement_ok f p root off"
      have ge: "fo \<le> off" using pl fo(3) off by (simp add: placement_ok_def)
      obtain k where "off - fo = ?a * k" using dvd_diff [OF off fo(2)] by blast
      then have k: "off = fo + k * ?a" by (simp add: algebra_simps)
      then have k0: "0 \<le> k" using ge r(3) by (simp add: zero_le_mult_iff)
      have le: "off + max_colocation_size f \<le> ?e" using pl by (simp add: placement_ok_def)
      have fits: "DoesPermutationFit f p root x = Inr ()" if "placement_ok f p root x" for x
        using DoesPermutationFit_complete [OF r(1) _ that] f by (simp add: finder_ok_def)
      show False
      proof (cases "length (root_pieces root) = 1")
        case True
        have "placement_ok f p root fo"
          using placement_ok_uniform [OF r(1) True pl fo(1) ge] all f by (simp add: finder_ok_def)
        moreover have "fitting_permutation f root fo = None" using none(2) [of 0] le ge by simp
        ultimately show False using fits fitting_permutation_None p by blast
      next
        case False
        then have "fitting_permutation f root off = None" using none(2) [OF k0] le k by simp
        then show False using fits [OF pl] fitting_permutation_None p by blast
      qed
    qed
    then show ?thesis unfolding eq using none(1) by simp
  qed
qed

lemma FindForOffset_ok:
  assumes f: "finder_ok f" and "0 \<le> off"
  shows "\<exists>cs. FindForOffset f off = Inr cs \<and> (cs \<noteq> [] \<longrightarrow> found_placement f cs)"
proof (cases "key_lower_bound off (finder_roots f) < length (finder_roots f)")
  case True
  let ?root = "snd (finder_roots f ! key_lower_bound off (finder_roots f))" and ?a = "finder_alignment f"
  have root: "?root \<in> snd ` set (finder_roots f)" using True by (auto intro: nth_mem)
  have a: "1 \<le> ?a" using f by (simp add: finder_ok_def)
  have eq: "FindForOffset f off = (if off mod ?a \<noteq> 0 then Inr [] else offset_loop f ?root off (off + max_colocation_size f))"
    using True assms(2) a by (simp add: FindForOffset_def FindInRoot_def Let_def cmod_pos)
  have "search_outcome f ?root off (off + max_colocation_size f) (offset_loop f ?root off (off + max_colocation_size f))"
    using f by (intro offset_loop_outcome) (auto simp: finder_ok_def)
  then show ?thesis
  proof cases
    case (found k p cs)
    have "found_placement f cs" if "off mod ?a = 0"
      using found_placement_intro [OF f root found(3) _ found(4,5)] that by (simp add: dvd_eq_mod_eq_0)
    then show ?thesis using eq found(1) by auto
  next
    case none
    then show ?thesis using eq by auto
  qed
next
  case False
  then show ?thesis by (simp add: FindForOffset_def Let_def)
qed

lemma find_in_roots_ok:
  assumes f: "finder_ok f" and "set rs \<subseteq> snd ` set (finder_roots f)"
  shows "\<exists>cs. find_in_roots f rs = Inr cs \<and> (cs \<noteq> [] \<longrightarrow> found_placement f cs) \<and>
    (cs = [] \<longrightarrow> (\<forall>x. is_offset_allowed f x) \<longrightarrow> (\<forall>root\<in>set rs. \<forall>p\<in>set (slice_time_permutations f). \<forall>off.
       finder_alignment f dvd off \<longrightarrow> \<not> placement_ok f p root off))"
  using assms(2)
proof (induction rs)
  case (Cons r rs)
  obtain cs where cs: "FindInRoot f r None = Inr cs" "cs \<noteq> [] \<longrightarrow> found_placement f cs"
      "cs = [] \<longrightarrow> (\<forall>x. is_offset_allowed f x) \<longrightarrow> (\<forall>p\<in>set (slice_time_permutations f). \<forall>off.
       finder_alignment f dvd off \<longrightarrow> \<not> placement_ok f p r off)"
    using FindInRoot_None [OF f, of r] Cons.prems by auto
  show ?case
  proof (cases "cs = []")
    case True
    then show ?thesis using Cons cs by auto
  next
    case False
    then show ?thesis using cs(1,2) by auto
  qed
qed simp

lemma set_root_heap [simp]: "set (root_heap f) = snd ` set (finder_roots f)"
  by (simp add: root_heap_def)

lemma Find_ok:
  assumes "finder_ok f"
  shows "\<exists>cs. Find f = Inr cs \<and> (cs \<noteq> [] \<longrightarrow> found_placement f cs) \<and>
    (cs = [] \<longrightarrow> (\<forall>x. is_offset_allowed f x) \<longrightarrow> (\<forall>p off. \<not> placeable f p off))"
proof -
  obtain cs where cs: "(if preferred_offset f \<ge> 0 then FindForOffset f (preferred_offset f) else Inr []) = Inr cs"
      "cs \<noteq> [] \<longrightarrow> found_placement f cs"
    using FindForOffset_ok [OF assms, of "preferred_offset f"] by (cases "preferred_offset f \<ge> 0") auto
  obtain ds where ds: "find_in_roots f (root_heap f) = Inr ds" "ds \<noteq> [] \<longrightarrow> found_placement f ds"
      "ds = [] \<longrightarrow> (\<forall>x. is_offset_allowed f x) \<longrightarrow> (\<forall>p off. \<not> placeable f p off)"
    using find_in_roots_ok [OF assms, of "root_heap f"] unfolding placeable_def by auto
  show ?thesis
  proof (cases "cs = []")
    case True
    then show ?thesis unfolding Find_def cs(1) using ds by simp
  next
    case False
    then show ?thesis unfolding Find_def cs(1) using cs(2) by simp
  qed
qed

section \<open>The search in terms of free memory\<close>

text \<open>
  The specification: from its own slice time on, every slice lies in memory that is free, and the whole allocation lies
  in one chunk that is free at the latest slice time.
\<close>

definition free_placement :: "FreeChunks list \<Rightarrow> int list \<Rightarrow> int \<Rightarrow> int list \<Rightarrow> int \<Rightarrow> bool" where
  "free_placement fr sizes max_size p off \<longleftrightarrow>
     (\<forall>i<length sizes. \<forall>x. off + sum_list (take i sizes) \<le> x \<and> x < off + sum_list (take i sizes) + sizes ! i \<longrightarrow>
        (\<forall>t. p ! i \<le> int t \<and> t < length fr \<longrightarrow> free_at (fr ! t) x)) \<and>
     (\<exists>c\<in>set (fr ! (length fr - 1)). fst c \<le> off \<and> off < snd c \<and> off + max_size \<le> snd c)"

lemma slices_fit_nth:
  "slices_fit P off ss \<longleftrightarrow> (\<forall>i<length ss. \<forall>x. off + sum_list (take i (map snd ss)) \<le> x \<and>
     x < off + sum_list (take i (map snd ss)) + snd (ss ! i) \<longrightarrow> (\<exists>e. time_at P x = Some e \<and> e \<le> fst (ss ! i)))"
proof (induction ss arbitrary: off)
  case (Cons a ss)
  obtain t s where a: "a = (t, s)" by fastforce
  show ?case unfolding a by (simp only: slices_fit.simps Cons.IH length_Cons All_less_Suc2) (simp add: add.assoc)
qed simp

lemma slice_inside:
  assumes "\<forall>s\<in>set sizes. 0 < (s :: int)" "i < length sizes"
  shows "0 \<le> sum_list (take i sizes)" "sum_list (take i sizes) + sizes ! i \<le> sum_list sizes"
proof -
  show "0 \<le> sum_list (take i sizes)" using assms(1) by (intro sum_list_nonneg) (auto dest: in_set_takeD less_imp_le)
  have "sum_list sizes = sum_list (take i sizes) + (sizes ! i + sum_list (drop (Suc i) sizes))"
    using assms(2) by (metis append_take_drop_id Cons_nth_drop_Suc sum_list.append sum_list.Cons)
  moreover have "0 \<le> sum_list (drop (Suc i) sizes)"
    using assms(1) by (intro sum_list_nonneg) (auto dest: in_set_dropD less_imp_le)
  ultimately show "sum_list (take i sizes) + sizes ! i \<le> sum_list sizes" by simp
qed

lemma time_at_free:
  assumes "free_since fr 0 x e" "0 \<le> t" "t < int (length fr)"
  shows "int e \<le> t \<longleftrightarrow> (\<forall>s. t \<le> int s \<and> s < length fr \<longrightarrow> free_at (fr ! s) x)"
proof
  assume "int e \<le> t"
  then show "\<forall>s. t \<le> int s \<and> s < length fr \<longrightarrow> free_at (fr ! s) x" using assms(1) by (auto simp: free_since_def)
next
  assume all: "\<forall>s. t \<le> int s \<and> s < length fr \<longrightarrow> free_at (fr ! s) x"
  show "int e \<le> t"
  proof (rule ccontr)
    assume "\<not> int e \<le> t"
    then have "t \<le> int (e - 1)" "0 < e" "e - 1 < length fr" using assms(1,2) by (auto simp: free_since_def)
    then show False using all [rule_format, of "e - 1"] assms(1) by (simp add: free_since_def)
  qed
qed

lemma range_all_cong:
  "(\<And>i x. i < n \<Longrightarrow> lo i \<le> x \<Longrightarrow> x < hi i \<Longrightarrow> A i x \<longleftrightarrow> B i x) \<Longrightarrow>
   (\<forall>i<n. \<forall>x. lo i \<le> x \<and> x < hi i \<longrightarrow> A i x) \<longleftrightarrow> (\<forall>i<n. \<forall>x. lo i \<le> x \<and> x < hi i \<longrightarrow> B i x)"
  for n :: nat and lo hi :: "nat \<Rightarrow> int"
  by blast

lemma placement_ok_free:
  assumes "pieces_ok fr 0 (finder_roots f)" "length (sorted_slice_sizes f) = length fr" "is_permutation (length fr) p"
    "\<forall>s\<in>set (sorted_slice_sizes f). 0 < s" "sum_list (sorted_slice_sizes f) \<le> max_colocation_size f"
  shows "(\<exists>root\<in>snd ` set (finder_roots f). placement_ok f p root off) \<longleftrightarrow>
    is_offset_allowed f off \<and> free_placement fr (sorted_slice_sizes f) (max_colocation_size f) p off"
proof -
  let ?sz = "sorted_slice_sizes f" and ?m = "max_colocation_size f"
  have l: "length p = length ?sz" using is_permutation_length assms(2,3) by simp
  have times: "0 \<le> p ! i \<and> p ! i < int (length fr)" if "i < length ?sz" for i
    using assms(3) nth_mem [of i p] that l by (simp only: is_permutation_def atLeastLessThan_iff)
  have fit: "slices_fit (root_pieces root) off (zip p ?sz) \<longleftrightarrow>
      (\<forall>i<length ?sz. \<forall>x. off + sum_list (take i ?sz) \<le> x \<and> x < off + sum_list (take i ?sz) + ?sz ! i \<longrightarrow>
        (\<forall>t. p ! i \<le> int t \<and> t < length fr \<longrightarrow> free_at (fr ! t) x))"
    if r: "root \<in> snd ` set (finder_roots f)" "offset (root_chunk root) \<le> off" "off + ?m \<le> Chunk_end (root_chunk root)" for root
  proof -
    have "(\<exists>e. time_at (root_pieces root) x = Some e \<and> e \<le> p ! i) \<longleftrightarrow> (\<forall>t. p ! i \<le> int t \<and> t < length fr \<longrightarrow> free_at (fr ! t) x)"
      if i: "i < length ?sz" "off + sum_list (take i ?sz) \<le> x" "x < off + sum_list (take i ?sz) + ?sz ! i" for i x
    proof -
      have "in_chunk (root_chunk root) x" using slice_inside [OF assms(4) i(1)] i r(2,3) assms(5) by (simp add: in_chunk_def)
      then obtain e where "time_at (root_pieces root) x = Some (int e)" "free_since fr 0 x e"
        using assms(1) r(1) by (auto simp: pieces_ok_def)
      then show ?thesis using time_at_free [of fr x e "p ! i"] times [OF i(1)] by simp
    qed
    note key = this
    have "slices_fit (root_pieces root) off (zip p ?sz) \<longleftrightarrow>
      (\<forall>i<length ?sz. \<forall>x. off + sum_list (take i ?sz) \<le> x \<and> x < off + sum_list (take i ?sz) + ?sz ! i \<longrightarrow>
        (\<exists>e. time_at (root_pieces root) x = Some e \<and> e \<le> p ! i))"
      unfolding slices_fit_nth using l by simp
    also have "\<dots> \<longleftrightarrow> (\<forall>i<length ?sz. \<forall>x. off + sum_list (take i ?sz) \<le> x \<and> x < off + sum_list (take i ?sz) + ?sz ! i \<longrightarrow>
        (\<forall>t. p ! i \<le> int t \<and> t < length fr \<longrightarrow> free_at (fr ! t) x))"
      by (rule range_all_cong) (rule key)
    finally show ?thesis .
  qed
  have "map (\<lambda>x. (offset (root_chunk (snd x)), Chunk_end (root_chunk (snd x)))) (finder_roots f) =
      filter (\<lambda>c. fst c < snd c) (fr ! (length fr - 1))" using assms(1) unfolding pieces_ok_def by blast
  from arg_cong [OF this, of set]
  have roots: "(\<lambda>r. (offset (root_chunk r), Chunk_end (root_chunk r))) ` (snd ` set (finder_roots f)) =
      set (filter (\<lambda>c. fst c < snd c) (fr ! (length fr - 1)))"
    by (simp only: list.set_map image_image)
  show ?thesis
  proof
    assume "\<exists>root\<in>snd ` set (finder_roots f). placement_ok f p root off"
    then obtain root where r: "root \<in> snd ` set (finder_roots f)" "placement_ok f p root off" by blast
    then have c: "(offset (root_chunk root), Chunk_end (root_chunk root)) \<in> set (fr ! (length fr - 1))" using roots by auto
    have d: "offset (root_chunk root) \<le> off" "off + ?m \<le> Chunk_end (root_chunk root)" "off < Chunk_end (root_chunk root)"
        "is_offset_allowed f off" "slices_fit (root_pieces root) off (zip p ?sz)"
      using r(2) by (simp_all add: placement_ok_def)
    have "\<exists>c\<in>set (fr ! (length fr - 1)). fst c \<le> off \<and> off < snd c \<and> off + ?m \<le> snd c"
      using d(1-3) by (intro bexI [OF _ c]) simp
    then show "is_offset_allowed f off \<and> free_placement fr ?sz ?m p off"
      using d(4) d(5) [unfolded fit [OF r(1) d(1,2)]] unfolding free_placement_def by blast
  next
    assume a: "is_offset_allowed f off \<and> free_placement fr ?sz ?m p off"
    then obtain c where c: "c \<in> set (fr ! (length fr - 1))" "fst c \<le> off" "off < snd c" "off + ?m \<le> snd c"
      by (auto simp: free_placement_def)
    then have "c \<in> (\<lambda>r. (offset (root_chunk r), Chunk_end (root_chunk r))) ` (snd ` set (finder_roots f))"
      unfolding roots by simp
    then obtain root where r: "root \<in> snd ` set (finder_roots f)" "offset (root_chunk root) = fst c" "Chunk_end (root_chunk root) = snd c"
      by (elim imageE [where b = c]) auto
    then have "placement_ok f p root off" using fit [OF r(1)] a c l by (simp add: placement_ok_def free_placement_def)
    then show "\<exists>root\<in>snd ` set (finder_roots f). placement_ok f p root off" using r(1) by blast
  qed
qed


definition example_free_chunks :: "FreeChunks list" where
  "example_free_chunks = [[(7, 8)], [(10, 12), (6, 8)], [(20, 25), (5, 15)]]"


text \<open>
  The search leaves a root that has a single piece after its first offset. With a restricted \<open>is_offset_allowed\<close> it
  then misses offsets that fit.
\<close>

lemma Find_misses_allowed_offset:
  "bindE (MakeSlicedAllocationFinder [[(0, 100)]] [4] 4 (- 1) 4 [[0]] (\<lambda>x. 4 \<le> x)) Find = Inr []"
  "bindE (MakeSlicedAllocationFinder [[(0, 100)]] [4] 4 4 4 [[0]] (\<lambda>x. 4 \<le> x)) Find = Inr [FromOffsetSize 4 4, FromOffsetSize 8 0]"
  by code_simp+

end
