(* ===== verification/SliceTimePermutations.thy ===== *)
theory SliceTimePermutations
  imports SlicedAllocationFinder "HOL-Library.Product_Lexorder"
begin

text \<open>
  The iterators over permutations of slice times of \<open>xla/service/heap_simulator/heap_simulator.{h,cc}\<close>, and the
  slice data of \<open>xla/service/heap_simulator/allocation_block.{h,cc}\<close> they start from. An iterator is a value that
  \<open>Begin\<close> and \<open>Next\<close> replace; the two base iterators are the constructors of one type, so that the composed
  iterator dispatches on it as the code does through the virtual methods.
\<close>

section \<open>Slice data\<close>

record AllocatedSlice =
  slice_size :: int
  slice_offset :: int
  inclusive_start_time :: int

type_synonym SlicedAllocationData = "AllocatedSlice list"

definition SizesSortedByOffset :: "SlicedAllocationData \<Rightarrow> int list" where
  "SizesSortedByOffset slices_sorted_by_offset = map slice_size slices_sorted_by_offset"

definition SortedInclusiveStartTimes :: "SlicedAllocationData \<Rightarrow> int list" where
  "SortedInclusiveStartTimes slices_sorted_by_offset = sort (map inclusive_start_time slices_sorted_by_offset)"

section \<open>Valid and new permutations\<close>

record SliceTimePermutationValidator =
  original_num_slices :: nat
  slice_time_to_inclusive_schedule_time :: "int list"
  original_slice_sizes_and_start_times :: "(int \<times> int) list"
  sizes_sorted_by_offset :: "int list"

definition MakeSliceTimePermutationValidator :: "SlicedAllocationData option \<Rightarrow> SliceTimePermutationValidator" where
  "MakeSliceTimePermutationValidator original_slices =
     (case original_slices of
        None \<Rightarrow> \<lparr>original_num_slices = 0, slice_time_to_inclusive_schedule_time = [],
                 original_slice_sizes_and_start_times = [], sizes_sorted_by_offset = []\<rparr>
      | Some slices \<Rightarrow>
          if length slices \<le> 0
          then \<lparr>original_num_slices = length slices, slice_time_to_inclusive_schedule_time = [],
                original_slice_sizes_and_start_times = [], sizes_sorted_by_offset = []\<rparr>
          else \<lparr>original_num_slices = length slices,
                slice_time_to_inclusive_schedule_time = sort (SortedInclusiveStartTimes slices),
                original_slice_sizes_and_start_times = sort (map (\<lambda>s. (slice_size s, inclusive_start_time s)) slices),
                sizes_sorted_by_offset = SizesSortedByOffset slices\<rparr>)"

definition IsValid :: "SliceTimePermutationValidator \<Rightarrow> int list \<Rightarrow> bool status_or" where
  "IsValid v permutation =
     (if original_num_slices v \<le> 0 then Inr True
      else if length (sizes_sorted_by_offset v) \<noteq> original_num_slices v
      then Inl (CheckFailed ''sizes_sorted_by_offset_.size() == original_num_slices_'')
      else if length permutation \<noteq> original_num_slices v
      then Inl (CheckFailed ''permutation.size() == original_num_slices_'')
      else bindE (mapE (at_index (slice_time_to_inclusive_schedule_time v)) permutation) (\<lambda>start_times.
        Inr (original_slice_sizes_and_start_times v = sort (zip (sizes_sorted_by_offset v) start_times))))"

record ObservedPermutationManager =
  slice_time_to_inclusive_start_time :: "int list"
  observed_inclusive_start_time_permutation :: "int list set"

definition MakeObservedPermutationManager :: "int list \<Rightarrow> ObservedPermutationManager" where
  "MakeObservedPermutationManager inclusive_start_times =
     \<lparr>slice_time_to_inclusive_start_time = sort inclusive_start_times, observed_inclusive_start_time_permutation = {}\<rparr>"

definition Observed_Insert :: "ObservedPermutationManager \<Rightarrow> int list \<Rightarrow> (ObservedPermutationManager \<times> bool) status_or" where
  "Observed_Insert m permutation =
     bindE (mapE (at_index (slice_time_to_inclusive_start_time m)) permutation) (\<lambda>start_times.
       let seen = observed_inclusive_start_time_permutation m in
       Inr (m\<lparr>observed_inclusive_start_time_permutation := insert start_times seen\<rparr>, start_times \<notin> seen))"

definition Observed_Clear :: "ObservedPermutationManager \<Rightarrow> ObservedPermutationManager" where
  "Observed_Clear m = m\<lparr>observed_inclusive_start_time_permutation := {}\<rparr>"

section \<open>All permutations\<close>

text \<open>
  \<open>absl::c_next_permutation\<close>: the tail is advanced if it can be; otherwise it is in descending order, and the last
  element of it above the head changes places with the head before the tail is reversed. \<open>None\<close> is the last
  permutation, which the library replaces by the first one.
\<close>

fun next_arrangement :: "int list \<Rightarrow> int list option" where
  "next_arrangement [] = None"
| "next_arrangement (x # xs) =
     (case next_arrangement xs of
        Some ys \<Rightarrow> Some (x # ys)
      | None \<Rightarrow>
          (case dropWhile (\<lambda>y. \<not> x < y) (rev xs) of
             [] \<Rightarrow> None
           | y # larger \<Rightarrow> Some (y # takeWhile (\<lambda>y. \<not> x < y) (rev xs) @ x # larger)))"

definition next_permutation :: "int list \<Rightarrow> int list \<times> bool" where
  "next_permutation xs = (case next_arrangement xs of Some ys \<Rightarrow> (ys, True) | None \<Rightarrow> (rev xs, False))"

record SliceTimeAllPermutationIterator =
  all_num_slices :: nat
  all_done :: bool
  all_permutation :: "int list"

definition MakeSliceTimeAllPermutationIterator :: "nat \<Rightarrow> SliceTimeAllPermutationIterator" where
  "MakeSliceTimeAllPermutationIterator n = \<lparr>all_num_slices = n, all_done = True, all_permutation = replicate n 0\<rparr>"

definition All_Begin :: "SliceTimeAllPermutationIterator \<Rightarrow> SliceTimeAllPermutationIterator" where
  "All_Begin it = it\<lparr>all_done := all_num_slices it \<le> 0, all_permutation := map int [0..<all_num_slices it]\<rparr>"

definition All_Next :: "SliceTimeAllPermutationIterator \<Rightarrow> SliceTimeAllPermutationIterator" where
  "All_Next it =
     (if all_done it then it
      else case next_permutation (all_permutation it) of
             (p, advanced) \<Rightarrow> it\<lparr>all_permutation := p, all_done := \<not> advanced\<rparr>)"

section \<open>Preferred permutations\<close>

datatype PermutationType =
    kUninitialized
  | kSmallerOffsetSmallerSliceTime
  | kSmallerOffsetLargerSliceTime
  | kDistributeSmallSliceTimesAroundMiddleOffset
  | kDone

record SliceTimePreferredPermutationIterator =
  pref_num_slices :: nat
  fixed_permutation_values :: "bool list"
  slice_times_available_for_permutation :: "int list"
  permutation_type :: PermutationType
  pref_permutation :: "int list"

text \<open>
  Slices are named by their position. The position of a slice in the order by start time and offset is its slice time.
\<close>

definition BuildSliceToSliceTimeMap :: "SlicedAllocationData \<Rightarrow> nat \<Rightarrow> int" where
  "BuildSliceToSliceTimeMap slices i =
     int (length (takeWhile (\<lambda>j. j \<noteq> i)
       (sort_key (\<lambda>j. (inclusive_start_time (slices ! j), slice_offset (slices ! j))) [0..<length slices])))"

definition MakeSliceTimePreferredPermutationIterator ::
  "nat \<Rightarrow> SlicedAllocationData option \<Rightarrow> SliceTimePreferredPermutationIterator status_or" where
  "MakeSliceTimePreferredPermutationIterator n original =
     (case original of
        None \<Rightarrow> Inr \<lparr>pref_num_slices = n, fixed_permutation_values = replicate n False,
                     slice_times_available_for_permutation = map int [0..<n],
                     permutation_type = kUninitialized, pref_permutation = replicate n 0\<rparr>
      | Some slices \<Rightarrow>
          if n > 0 \<and> slices = [] then Inl (CheckFailed ''first_slice'')
          else if n > length slices then Inl (CheckFailed ''slices_sorted_by_offset[offset_index]'')
          else
            let fixed = map (\<lambda>i. slice_size (slices ! i) \<noteq> slice_size (slices ! 0)) [0..<n] in
            Inr \<lparr>pref_num_slices = n, fixed_permutation_values = fixed,
                 slice_times_available_for_permutation =
                   sort (map (BuildSliceToSliceTimeMap slices) (filter (\<lambda>i. \<not> fixed ! i) [0..<n])),
                 permutation_type = kUninitialized,
                 pref_permutation = map (\<lambda>i. if fixed ! i then BuildSliceToSliceTimeMap slices i else 0) [0..<n]\<rparr>)"

fun NextPermutationType :: "nat \<Rightarrow> PermutationType \<Rightarrow> PermutationType" where
  "NextPermutationType n kUninitialized = (if n \<le> 0 then kDone else kSmallerOffsetSmallerSliceTime)"
| "NextPermutationType n kSmallerOffsetSmallerSliceTime = (if n \<le> 1 then kDone else kSmallerOffsetLargerSliceTime)"
| "NextPermutationType n kSmallerOffsetLargerSliceTime =
     (if n \<le> 2 then kDone else kDistributeSmallSliceTimesAroundMiddleOffset)"
| "NextPermutationType n kDistributeSmallSliceTimesAroundMiddleOffset = kDone"
| "NextPermutationType n kDone = kDone"

text \<open>\<open>NextAvailablePermutationIndex(i - 1)\<close>: the first index from \<open>i\<close> on without a fixed slice time.\<close>

definition NextAvailablePermutationIndex :: "bool list \<Rightarrow> nat \<Rightarrow> nat" where
  "NextAvailablePermutationIndex fixed i = i + length (takeWhile id (drop i fixed))"

fun place_times :: "bool list \<Rightarrow> int list \<Rightarrow> nat \<Rightarrow> int list \<Rightarrow> (int list \<times> nat) status_or" where
  "place_times fixed permutation i [] = Inr (permutation, i)"
| "place_times fixed permutation i (t # ts) =
     (if \<not> i < length permutation then Inl (CheckFailed ''permutation_index < permutation_.size()'')
      else place_times fixed (permutation[i := t]) (NextAvailablePermutationIndex fixed (Suc i)) ts)"

definition first_loop_times :: "PermutationType \<Rightarrow> int list \<Rightarrow> int list" where
  "first_loop_times ty available =
     map (\<lambda>i. available ! i) (filter (\<lambda>i. ty = kSmallerOffsetLargerSliceTime \<or>
       (ty = kDistributeSmallSliceTimesAroundMiddleOffset \<and> odd i)) (rev [0..<length available]))"

definition second_loop_times :: "PermutationType \<Rightarrow> int list \<Rightarrow> int list" where
  "second_loop_times ty available =
     map (\<lambda>i. available ! i) (filter (\<lambda>i. ty = kSmallerOffsetSmallerSliceTime \<or>
       (ty = kDistributeSmallSliceTimesAroundMiddleOffset \<and> even i)) [0..<length available])"

definition SetUpPermutationForCurrentType ::
  "SliceTimePreferredPermutationIterator \<Rightarrow> SliceTimePreferredPermutationIterator status_or" where
  "SetUpPermutationForCurrentType it =
     (if permutation_type it = kUninitialized then Inl (CheckFailed ''permutation_type_ != PermutationType::kUninitialized'')
      else if permutation_type it = kDone then Inr it
      else
        let available = slice_times_available_for_permutation it;
            fixed = fixed_permutation_values it in
        bindE (place_times fixed (pref_permutation it) (NextAvailablePermutationIndex fixed 0)
                 (first_loop_times (permutation_type it) available)) (\<lambda>(p1, i1).
        bindE (place_times fixed p1 i1 (second_loop_times (permutation_type it) available)) (\<lambda>(p2, i2).
          if i2 \<noteq> length p2 then Inl (CheckFailed ''permutation_index == permutation_.size()'')
          else Inr (it\<lparr>pref_permutation := p2\<rparr>))))"

definition Preferred_Begin :: "SliceTimePreferredPermutationIterator \<Rightarrow> SliceTimePreferredPermutationIterator status_or" where
  "Preferred_Begin it =
     SetUpPermutationForCurrentType (it\<lparr>permutation_type := NextPermutationType (pref_num_slices it) kUninitialized\<rparr>)"

definition Preferred_Next :: "SliceTimePreferredPermutationIterator \<Rightarrow> SliceTimePreferredPermutationIterator status_or" where
  "Preferred_Next it =
     SetUpPermutationForCurrentType (it\<lparr>permutation_type := NextPermutationType (pref_num_slices it) (permutation_type it)\<rparr>)"

section \<open>The composed iterator\<close>

datatype BaseIterator =
    AllIterator SliceTimeAllPermutationIterator
  | PreferredIterator SliceTimePreferredPermutationIterator

fun Base_Begin :: "BaseIterator \<Rightarrow> BaseIterator status_or" where
  "Base_Begin (AllIterator it) = Inr (AllIterator (All_Begin it))"
| "Base_Begin (PreferredIterator it) = bindE (Preferred_Begin it) (\<lambda>it'. Inr (PreferredIterator it'))"

fun Base_Done :: "BaseIterator \<Rightarrow> bool" where
  "Base_Done (AllIterator it) = all_done it"
| "Base_Done (PreferredIterator it) = (permutation_type it = kDone)"

fun Base_Next :: "BaseIterator \<Rightarrow> BaseIterator status_or" where
  "Base_Next (AllIterator it) = Inr (AllIterator (All_Next it))"
| "Base_Next (PreferredIterator it) = bindE (Preferred_Next it) (\<lambda>it'. Inr (PreferredIterator it'))"

fun Base_Get :: "BaseIterator \<Rightarrow> int list" where
  "Base_Get (AllIterator it) = all_permutation it"
| "Base_Get (PreferredIterator it) = pref_permutation it"

record ComposedSliceTimePermutationIterator =
  validator :: SliceTimePermutationValidator
  seen :: ObservedPermutationManager
  base_iterator :: BaseIterator

text \<open>The order on arrangements that \<open>next_arrangement\<close> climbs, and how far an iterator still has to go.\<close>

fun arrangement_less :: "int list \<Rightarrow> int list \<Rightarrow> bool" where
  "arrangement_less (x # xs) (y # ys) \<longleftrightarrow> x < y \<or> (x = y \<and> arrangement_less xs ys)"
| "arrangement_less _ _ \<longleftrightarrow> False"

fun permutation_type_rank :: "PermutationType \<Rightarrow> nat" where
  "permutation_type_rank kUninitialized = 4"
| "permutation_type_rank kSmallerOffsetSmallerSliceTime = 3"
| "permutation_type_rank kSmallerOffsetLargerSliceTime = 2"
| "permutation_type_rank kDistributeSmallSliceTimesAroundMiddleOffset = 1"
| "permutation_type_rank kDone = 0"

fun Base_rank :: "BaseIterator \<Rightarrow> nat" where
  "Base_rank (AllIterator it) =
     (if all_done it then 0
      else Suc (card {q. mset q = mset (all_permutation it) \<and> arrangement_less (all_permutation it) q}))"
| "Base_rank (PreferredIterator it) = permutation_type_rank (permutation_type it)"

lemma arrangement_less_irrefl [simp]: "\<not> arrangement_less xs xs"
  by (induction xs) auto

lemma arrangement_less_trans: "arrangement_less xs ys \<Longrightarrow> arrangement_less ys zs \<Longrightarrow> arrangement_less xs zs"
proof (induction xs ys arbitrary: zs rule: arrangement_less.induct)
  case (1 x xs y ys)
  then show ?case by (cases zs) auto
qed simp_all

lemma descending_last: "sorted_wrt (\<ge>) xs \<Longrightarrow> mset zs = mset xs \<Longrightarrow> \<not> arrangement_less xs zs"
proof (induction xs arbitrary: zs)
  case (Cons x xs)
  then obtain z zs' where z: "zs = z # zs'" by (cases zs) auto
  have "z \<in> set (x # xs)" using Cons.prems(2) z by (metis list.set_intros(1) set_mset_mset)
  then have "z \<le> x" using Cons.prems(1) by auto
  then show ?case using Cons z by auto
qed simp

lemma ascending_first: "sorted xs \<Longrightarrow> mset zs = mset xs \<Longrightarrow> zs = xs \<or> arrangement_less xs zs"
proof (induction xs arbitrary: zs)
  case (Cons x xs)
  then obtain z zs' where z: "zs = z # zs'" by (cases zs) auto
  have "z \<in> set (x # xs)" using Cons.prems(2) z by (metis list.set_intros(1) set_mset_mset)
  then have "x \<le> z" using Cons.prems(1) by auto
  then show ?case using Cons.IH [of zs'] Cons.prems z by auto
qed simp

lemma takeWhile_sorted_last:
  "sorted xs \<Longrightarrow> dropWhile (\<lambda>y. \<not> x < y) xs = y # ys \<Longrightarrow> x < y \<and> (\<forall>z\<in>set xs. x < z \<longrightarrow> y \<le> z) \<and>
    xs = takeWhile (\<lambda>y. \<not> x < y) xs @ y # ys \<and> (\<forall>z\<in>set (takeWhile (\<lambda>y. \<not> x < y) xs). z \<le> x) \<and> (\<forall>z\<in>set ys. y \<le> z)"
proof (induction xs)
  case (Cons a xs)
  show ?case
  proof (cases "x < a")
    case True
    then show ?thesis using Cons.prems by auto
  next
    case False
    then have d: "dropWhile (\<lambda>y. \<not> x < y) xs = y # ys" using Cons.prems(2) by simp
    have "sorted xs" using Cons.prems(1) by simp
    from Cons.IH [OF this d] show ?thesis using False by auto
  qed
qed simp

text \<open>A tail that cannot be advanced is in descending order, and an advanced arrangement is the next larger one.\<close>

lemma next_arrangement_None: "next_arrangement xs = None \<longleftrightarrow> sorted_wrt (\<ge>) xs"
proof (induction xs)
  case (Cons x xs)
  have "dropWhile (\<lambda>y. \<not> x < y) (rev xs) = [] \<longleftrightarrow> (\<forall>y\<in>set xs. y \<le> x)" by (auto simp: not_less)
  then show ?case
    using Cons by (cases "next_arrangement xs"; cases "dropWhile (\<lambda>y. \<not> x < y) (rev xs)") (simp_all del: dropWhile_eq_Nil_conv)
qed simp

lemma next_arrangement_Some:
  assumes "next_arrangement xs = Some ys"
  shows "mset ys = mset xs \<and> arrangement_less xs ys \<and>
    (\<forall>zs. mset zs = mset xs \<longrightarrow> arrangement_less xs zs \<longrightarrow> zs = ys \<or> arrangement_less ys zs)"
  using assms
proof (induction xs arbitrary: ys)
  case (Cons x xs)
  show ?case
  proof (cases "next_arrangement xs")
    case (Some ys')
    have ih: "mset ys' = mset xs" "arrangement_less xs ys'"
        "\<And>zs. mset zs = mset xs \<Longrightarrow> arrangement_less xs zs \<Longrightarrow> zs = ys' \<or> arrangement_less ys' zs"
      using Cons.IH [OF Some] by auto
    have "zs = x # ys' \<or> arrangement_less (x # ys') zs" if "mset zs = mset (x # xs)" "arrangement_less (x # xs) zs" for zs
      using that ih(3) [of "tl zs"] by (cases zs) auto
    then show ?thesis using Cons.prems Some ih by auto
  next
    case None
    then have desc: "sorted_wrt (\<ge>) xs" by (simp add: next_arrangement_None)
    then have asc: "sorted (rev xs)" by (simp add: sorted_wrt_rev)
    define low where "low = takeWhile (\<lambda>y. \<not> x < y) (rev xs)"
    obtain y larger where y: "dropWhile (\<lambda>y. \<not> x < y) (rev xs) = y # larger" "ys = y # low @ x # larger"
      using Cons.prems None by (auto split: list.splits simp: low_def)
    have f: "x < y" "\<forall>z\<in>set xs. x < z \<longrightarrow> y \<le> z" "rev xs = low @ y # larger" "\<forall>z\<in>set low. z \<le> x" "\<forall>z\<in>set larger. y \<le> z"
      using takeWhile_sorted_last [OF asc y(1)] unfolding low_def set_rev by blast+
    have m: "mset xs = mset (low @ y # larger)" using f(3) by (metis mset_rev)
    have "sorted low" "sorted larger" using asc unfolding f(3) by (simp_all add: sorted_append)
    then have rest: "sorted (low @ x # larger)" using f(1,4,5) by (fastforce simp: sorted_append)
    have "zs = ys \<or> arrangement_less ys zs" if z: "mset zs = mset (x # xs)" "arrangement_less (x # xs) zs" for zs
    proof -
      obtain c cs where zs: "zs = c # cs" using z(2) by (cases zs) auto
      have "\<not> (c = x \<and> arrangement_less xs cs)" using descending_last [OF desc, of cs] z(1) zs by auto
      then have xc: "x < c" using z(2) zs by auto
      have "c \<in> set (x # xs)" using z(1) zs by (metis list.set_intros(1) set_mset_mset)
      then have "y \<le> c" using f(2) xc by auto
      moreover have "cs = low @ x # larger \<or> arrangement_less (low @ x # larger) cs" if "c = y"
        using ascending_first [OF rest, of cs] z(1) zs that m by simp
      ultimately show ?thesis using y(2) zs by auto
    qed
    then show ?thesis using y(2) m f(1) by simp
  qed
qed simp

lemma finite_arrangements: "finite {q. mset q = mset p \<and> arrangement_less p q}"
  by (rule finite_subset [OF _ mset_eq_finite [of p]]) auto

lemma SetUp_keeps_type:
  "SetUpPermutationForCurrentType it = Inr it' \<Longrightarrow> permutation_type it' = permutation_type it \<and>
     pref_num_slices it' = pref_num_slices it"
  by (auto simp: SetUpPermutationForCurrentType_def Let_def bindE_eq_Inr split: if_splits)

lemma Base_Next_rank: "Base_Next it = Inr it' \<Longrightarrow> \<not> Base_Done it \<Longrightarrow> Base_rank it' < Base_rank it"
proof (cases it)
  case (AllIterator a)
  assume "Base_Next it = Inr it'" and nd: "\<not> Base_Done it"
  then have it': "it' = AllIterator (All_Next a)" and d: "\<not> all_done a" using AllIterator by auto
  show ?thesis
  proof (cases "next_arrangement (all_permutation a)")
    case None
    then show ?thesis using it' d AllIterator by (simp add: All_Next_def next_permutation_def)
  next
    case (Some ys)
    note n = next_arrangement_Some [OF Some]
    let ?S = "\<lambda>p. {q. mset q = mset p \<and> arrangement_less p q}"
    have "ys \<in> ?S (all_permutation a)" "ys \<notin> ?S ys" using n by simp_all
    moreover have "?S ys \<subseteq> ?S (all_permutation a)" using n by (auto intro: arrangement_less_trans)
    ultimately have "?S ys \<subset> ?S (all_permutation a)" by blast
    then have "card (?S ys) < card (?S (all_permutation a))" by (rule psubset_card_mono [OF finite_arrangements])
    then show ?thesis using it' d AllIterator Some by (simp add: All_Next_def next_permutation_def)
  qed
next
  case (PreferredIterator a)
  assume n: "Base_Next it = Inr it'" "\<not> Base_Done it"
  then have "permutation_type a \<noteq> kDone" using PreferredIterator by simp
  then have "permutation_type_rank (NextPermutationType (pref_num_slices a) (permutation_type a)) < permutation_type_rank (permutation_type a)"
    by (cases "permutation_type a") auto
  then show ?thesis using n PreferredIterator by (auto simp: Preferred_Next_def bindE_eq_Inr dest!: SetUp_keeps_type)
qed

text \<open>The loop of \<open>NextImpl\<close>.\<close>

function skip_loop :: "ComposedSliceTimePermutationIterator \<Rightarrow> ComposedSliceTimePermutationIterator status_or" where
  "skip_loop c =
     (if Base_Done (base_iterator c) then Inr c
      else bindE (IsValid (validator c) (Base_Get (base_iterator c))) (\<lambda>valid.
        if \<not> valid then bindE (Base_Next (base_iterator c)) (\<lambda>b. skip_loop (c\<lparr>base_iterator := b\<rparr>))
        else bindE (Observed_Insert (seen c) (Base_Get (base_iterator c))) (\<lambda>(seen', inserted).
          if inserted then Inr (c\<lparr>seen := seen'\<rparr>)
          else bindE (Base_Next (base_iterator c)) (\<lambda>b. skip_loop (c\<lparr>seen := seen', base_iterator := b\<rparr>)))))"
  by pat_completeness auto

termination
  by (relation "measure (\<lambda>c. Base_rank (base_iterator c))") (auto intro: Base_Next_rank)

declare skip_loop.simps [simp del]

definition NextImpl :: "bool \<Rightarrow> ComposedSliceTimePermutationIterator \<Rightarrow> ComposedSliceTimePermutationIterator status_or" where
  "NextImpl initialize c =
     bindE (if initialize
            then bindE (Base_Begin (base_iterator c)) (\<lambda>b. Inr (c\<lparr>seen := Observed_Clear (seen c), base_iterator := b\<rparr>))
            else Inr c) (\<lambda>c1.
       if Base_Done (base_iterator c1) then Inr c1
       else bindE (if \<not> initialize
                   then bindE (Base_Next (base_iterator c1)) (\<lambda>b. Inr (c1\<lparr>base_iterator := b\<rparr>))
                   else Inr c1) skip_loop)"

lemma skip_loop_rank: "skip_loop c = Inr c' \<Longrightarrow> Base_rank (base_iterator c') \<le> Base_rank (base_iterator c)"
proof (induction c rule: skip_loop.induct)
  case (1 c)
  show ?case
  proof (cases "Base_Done (base_iterator c)")
    case True
    then show ?thesis using "1.prems" by (simp add: skip_loop.simps [of c])
  next
    case False
    obtain valid where v: "IsValid (validator c) (Base_Get (base_iterator c)) = Inr valid"
      using "1.prems" False by (cases "IsValid (validator c) (Base_Get (base_iterator c))") (simp_all add: skip_loop.simps [of c])
    have nx: "Base_rank b < Base_rank (base_iterator c)" if "Base_Next (base_iterator c) = Inr b" for b
      using Base_Next_rank [OF that False] .
    show ?thesis
    proof (cases valid)
      case True
      then obtain s i where s: "Observed_Insert (seen c) (Base_Get (base_iterator c)) = Inr (s, i)"
        using "1.prems" False v
        by (cases "Observed_Insert (seen c) (Base_Get (base_iterator c))") (auto simp: skip_loop.simps [of c])
      show ?thesis
      proof (cases i)
        case True
        then show ?thesis using "1.prems" False v \<open>valid\<close> s by (auto simp: skip_loop.simps [of c])
      next
        case ni: False
        then obtain b where b: "Base_Next (base_iterator c) = Inr b" "skip_loop (c\<lparr>seen := s, base_iterator := b\<rparr>) = Inr c'"
          using "1.prems" False v True s by (auto simp: skip_loop.simps [of c] bindE_eq_Inr)
        then show ?thesis using "1.IH"(2) [OF False v _ s refl ni b(1)] True nx [OF b(1)] by simp
      qed
    next
      case nv: False
      then obtain b where b: "Base_Next (base_iterator c) = Inr b" "skip_loop (c\<lparr>base_iterator := b\<rparr>) = Inr c'"
        using "1.prems" False v by (auto simp: skip_loop.simps [of c] bindE_eq_Inr)
      then show ?thesis using "1.IH"(1) [OF False v nv b(1)] nx [OF b(1)] by simp
    qed
  qed
qed

lemma NextImpl_rank:
  "NextImpl False c = Inr c' \<Longrightarrow> \<not> Base_Done (base_iterator c) \<Longrightarrow> Base_rank (base_iterator c') < Base_rank (base_iterator c)"
  by (auto simp: NextImpl_def bindE_eq_Inr dest!: skip_loop_rank Base_Next_rank)

text \<open>The permutations a loop \<open>for (Begin(); !Done(); Next())\<close> sees.\<close>

function collect :: "ComposedSliceTimePermutationIterator \<Rightarrow> int list list status_or" where
  "collect c =
     (if Base_Done (base_iterator c) then Inr []
      else bindE (NextImpl False c) (\<lambda>c'. bindE (collect c') (\<lambda>ps. Inr (Base_Get (base_iterator c) # ps))))"
  by pat_completeness auto

termination
  by (relation "measure (\<lambda>c. Base_rank (base_iterator c))") (auto intro: NextImpl_rank)

declare collect.simps [simp del]

definition IteratedPermutations :: "ComposedSliceTimePermutationIterator \<Rightarrow> int list list status_or" where
  "IteratedPermutations c = bindE (NextImpl True c) collect"

datatype IteratorTy = kAll | kPreferred

definition CreateForNewAllocation :: "IteratorTy \<Rightarrow> int list \<Rightarrow> ComposedSliceTimePermutationIterator status_or" where
  "CreateForNewAllocation ty inclusive_slice_start_times =
     bindE (case ty of
              kAll \<Rightarrow> Inr (AllIterator (MakeSliceTimeAllPermutationIterator (length inclusive_slice_start_times)))
            | kPreferred \<Rightarrow> bindE (MakeSliceTimePreferredPermutationIterator (length inclusive_slice_start_times) None)
                (\<lambda>it. Inr (PreferredIterator it))) (\<lambda>base.
       Inr \<lparr>validator = MakeSliceTimePermutationValidator None,
            seen = MakeObservedPermutationManager inclusive_slice_start_times, base_iterator = base\<rparr>)"

definition CreateForRepack :: "IteratorTy \<Rightarrow> SlicedAllocationData option \<Rightarrow> ComposedSliceTimePermutationIterator status_or" where
  "CreateForRepack ty original_sliced_allocation =
     (let num_slices = (case original_sliced_allocation of None \<Rightarrow> 1 | Some slices \<Rightarrow> length slices);
          inclusive_start_times = (case original_sliced_allocation of None \<Rightarrow> [0] | Some slices \<Rightarrow> SortedInclusiveStartTimes slices)
      in bindE (case ty of
              kAll \<Rightarrow> Inr (AllIterator (MakeSliceTimeAllPermutationIterator num_slices))
            | kPreferred \<Rightarrow> bindE (MakeSliceTimePreferredPermutationIterator num_slices original_sliced_allocation)
                (\<lambda>it. Inr (PreferredIterator it))) (\<lambda>base.
         Inr \<lparr>validator = MakeSliceTimePermutationValidator original_sliced_allocation,
              seen = MakeObservedPermutationManager inclusive_start_times, base_iterator = base\<rparr>))"

section \<open>The composed iterator filters its base\<close>

function base_collect :: "BaseIterator \<Rightarrow> int list list status_or" where
  "base_collect b =
     (if Base_Done b then Inr []
      else bindE (Base_Next b) (\<lambda>b'. bindE (base_collect b') (\<lambda>ps. Inr (Base_Get b # ps))))"
  by pat_completeness auto

termination
  by (relation "measure Base_rank") (auto intro: Base_Next_rank)

declare base_collect.simps [simp del]

text \<open>The valid permutations with a new sequence of start times.\<close>

fun emit :: "(int list \<Rightarrow> bool) \<Rightarrow> (int list \<Rightarrow> int list) \<Rightarrow> int list set \<Rightarrow> int list list \<Rightarrow> int list list" where
  "emit valid start_times S [] = []"
| "emit valid start_times S (p # ps) =
     (if valid p \<and> start_times p \<notin> S then p # emit valid start_times (insert (start_times p) S) ps
      else emit valid start_times S ps)"

lemma base_collect_Cons:
  "base_collect b = Inr (p # ps) \<Longrightarrow> \<not> Base_Done b \<and> p = Base_Get b \<and> (\<exists>b'. Base_Next b = Inr b' \<and> base_collect b' = Inr ps)"
  by (subst (asm) base_collect.simps) (auto simp: bindE_eq_Inr split: if_splits)

lemma base_collect_Nil: "base_collect b = Inr [] \<Longrightarrow> Base_Done b"
  by (subst (asm) base_collect.simps) (auto simp: bindE_eq_Inr split: if_splits)

lemma skip_loop_emits:
  assumes "base_collect (base_iterator c) = Inr ps"
    "\<And>p. p \<in> set ps \<Longrightarrow> IsValid (validator c) p = Inr (valid p)"
    "\<And>p. p \<in> set ps \<Longrightarrow> mapE (at_index (slice_time_to_inclusive_start_time (seen c))) p = Inr (tms p)"
  shows "bindE (skip_loop c) collect = Inr (emit valid tms (observed_inclusive_start_time_permutation (seen c)) ps)"
  using assms
proof (induction ps arbitrary: c)
  case Nil
  then show ?case using base_collect_Nil [OF Nil.prems(1)] by (simp add: skip_loop.simps [of c] collect.simps [of c])
next
  case (Cons p ps)
  let ?S = "observed_inclusive_start_time_permutation (seen c)"
  obtain b' where b: "\<not> Base_Done (base_iterator c)" "p = Base_Get (base_iterator c)" "Base_Next (base_iterator c) = Inr b'"
      "base_collect b' = Inr ps" using base_collect_Cons [OF Cons.prems(1)] by blast
  have v: "IsValid (validator c) (Base_Get (base_iterator c)) = Inr (valid p)" using Cons.prems(2) b(2) by simp
  have ins: "Observed_Insert (seen c) (Base_Get (base_iterator c)) =
      Inr ((seen c)\<lparr>observed_inclusive_start_time_permutation := insert (tms p) ?S\<rparr>, tms p \<notin> ?S)"
    using Cons.prems(3) [of p] b(2) by (simp add: Observed_Insert_def Let_def)
  have ih: "bindE (skip_loop (c\<lparr>seen := (seen c)\<lparr>observed_inclusive_start_time_permutation := T\<rparr>, base_iterator := b'\<rparr>)) collect =
      Inr (emit valid tms T ps)" for T
    using Cons.IH [of "c\<lparr>seen := (seen c)\<lparr>observed_inclusive_start_time_permutation := T\<rparr>, base_iterator := b'\<rparr>"]
      b(4) Cons.prems(2,3) by simp
  have same: "c\<lparr>base_iterator := b'\<rparr> = c\<lparr>seen := (seen c)\<lparr>observed_inclusive_start_time_permutation := ?S\<rparr>, base_iterator := b'\<rparr>"
    by simp
  consider (invalid) "\<not> valid p" | (known) "valid p" "tms p \<in> ?S" | (fresh) "valid p" "tms p \<notin> ?S" by blast
  then show ?case
  proof cases
    case invalid
    then have "skip_loop c = skip_loop (c\<lparr>base_iterator := b'\<rparr>)" using b(1,3) v by (simp add: skip_loop.simps [of c])
    then show ?thesis using ih [of ?S, folded same] invalid by simp
  next
    case known
    then have "skip_loop c = skip_loop (c\<lparr>seen := (seen c)\<lparr>observed_inclusive_start_time_permutation := ?S\<rparr>, base_iterator := b'\<rparr>)"
      using b(1,3) v ins by (simp add: skip_loop.simps [of c] insert_absorb)
    then show ?thesis using ih [of ?S] known by simp
  next
    case fresh
    let ?c1 = "c\<lparr>seen := (seen c)\<lparr>observed_inclusive_start_time_permutation := insert (tms p) ?S\<rparr>\<rparr>"
    have "skip_loop c = Inr ?c1" using fresh b(1) v ins by (simp add: skip_loop.simps [of c])
    moreover have "NextImpl False ?c1 = skip_loop (?c1\<lparr>base_iterator := b'\<rparr>)" using b(1,3) by (simp add: NextImpl_def)
    moreover have "collect ?c1 = bindE (bindE (NextImpl False ?c1) collect) (\<lambda>ps. Inr (p # ps))"
      unfolding collect.simps [of ?c1] bindE_assoc using b(1,2) by simp
    ultimately show ?thesis using ih [of "insert (tms p) ?S"] fresh by simp
  qed
qed

lemma IteratedPermutations_emit:
  assumes "Base_Begin (base_iterator c) = Inr b" "base_collect b = Inr ps"
    "\<And>p. p \<in> set ps \<Longrightarrow> IsValid (validator c) p = Inr (valid p)"
    "\<And>p. p \<in> set ps \<Longrightarrow> mapE (at_index (slice_time_to_inclusive_start_time (seen c))) p = Inr (tms p)"
  shows "IteratedPermutations c = Inr (emit valid tms {} ps)"
proof -
  let ?c = "c\<lparr>seen := Observed_Clear (seen c), base_iterator := b\<rparr>"
  have e: "bindE (skip_loop ?c) collect = Inr (emit valid tms {} ps)"
    using skip_loop_emits [of ?c ps valid tms] assms(2-4) by (simp add: Observed_Clear_def)
  show ?thesis
  proof (cases "Base_Done b")
    case True
    then have "skip_loop ?c = Inr ?c" by (simp add: skip_loop.simps [of ?c])
    then show ?thesis using e True assms(1) by (simp add: IteratedPermutations_def NextImpl_def)
  next
    case False
    then show ?thesis using e assms(1) by (simp add: IteratedPermutations_def NextImpl_def)
  qed
qed

lemma emit_subset: "set (emit valid tms S ps) \<subseteq> {p \<in> set ps. valid p \<and> tms p \<notin> S}"
  by (induction ps arbitrary: S) auto

lemma emit_distinct: "distinct (map tms (emit valid tms S ps))"
  using emit_subset by (induction ps arbitrary: S) fastforce+

lemma emit_covers: "p \<in> set ps \<Longrightarrow> valid p \<Longrightarrow> tms p \<in> S \<or> (\<exists>q\<in>set (emit valid tms S ps). tms q = tms p)"
proof (induction ps arbitrary: S)
  case (Cons a ps)
  show ?case
  proof (cases "p = a")
    case True
    then show ?thesis using Cons.prems(2) by (cases "tms a \<in> S") auto
  next
    case False
    then have "p \<in> set ps" using Cons.prems(1) by simp
    from Cons.IH [OF this Cons.prems(2), of S] Cons.IH [OF this Cons.prems(2), of "insert (tms a) S"] show ?thesis
      by (cases "valid a \<and> tms a \<notin> S") auto
  qed
qed simp

section \<open>The permutations of the base iterators\<close>

lemma is_permutation_mset: "is_permutation n p \<longleftrightarrow> mset p = mset (map int [0..<n])"
proof -
  have "set (map int [0..<n]) = {0..<int n}" by (simp add: image_int_atLeastLessThan)
  moreover have "distinct (map int [0..<n])" by (simp add: distinct_map)
  ultimately show ?thesis
    unfolding is_permutation_def by (metis mset_eq_imp_distinct_iff mset_eq_setD set_eq_iff_mset_eq_distinct)
qed

lemma base_collect_all:
  assumes "\<not> all_done it"
  shows "\<exists>ps. base_collect (AllIterator it) = Inr ps \<and>
    set ps = {q. mset q = mset (all_permutation it) \<and> (q = all_permutation it \<or> arrangement_less (all_permutation it) q)}"
  using assms
proof (induction "Base_rank (AllIterator it)" arbitrary: it rule: less_induct)
  case less
  let ?p = "all_permutation it"
  show ?case
  proof (cases "next_arrangement ?p")
    case None
    then have "Base_Next (AllIterator it) = Inr (AllIterator (it\<lparr>all_permutation := rev ?p, all_done := True\<rparr>))"
      using less.prems by (simp add: All_Next_def next_permutation_def)
    then have "base_collect (AllIterator it) = Inr [?p]"
      using less.prems by (simp add: base_collect.simps)
    then show ?thesis using None descending_last [of ?p] by (auto simp: next_arrangement_None)
  next
    case (Some ys)
    let ?it = "it\<lparr>all_permutation := ys, all_done := False\<rparr>"
    have nx: "Base_Next (AllIterator it) = Inr (AllIterator ?it)"
      using less.prems Some by (simp add: All_Next_def next_permutation_def)
    have "Base_rank (AllIterator ?it) < Base_rank (AllIterator it)" using Base_Next_rank [OF nx] less.prems by simp
    then obtain ps where ps: "base_collect (AllIterator ?it) = Inr ps"
        "set ps = {q. mset q = mset ys \<and> (q = ys \<or> arrangement_less ys q)}"
      using less.hyps [of ?it] by auto
    have "base_collect (AllIterator it) = Inr (?p # ps)"
      using nx ps(1) less.prems by (simp add: base_collect.simps [of "AllIterator it"])
    moreover note n = next_arrangement_Some [OF Some]
    have "set (?p # ps) = {q. mset q = mset ?p \<and> (q = ?p \<or> arrangement_less ?p q)}"
      using n ps(2) by (auto intro: arrangement_less_trans)
    ultimately show ?thesis by blast
  qed
qed

lemma base_all_permutations:
  "\<exists>b ps. Base_Begin (AllIterator (MakeSliceTimeAllPermutationIterator n)) = Inr b \<and> base_collect b = Inr ps \<and>
    set ps = (if n = 0 then {} else {q. is_permutation n q})"
proof (cases n)
  case 0
  then show ?thesis
    by (simp add: MakeSliceTimeAllPermutationIterator_def All_Begin_def base_collect.simps)
next
  case (Suc m)
  let ?it = "All_Begin (MakeSliceTimeAllPermutationIterator n)"
  have it: "\<not> all_done ?it" "all_permutation ?it = map int [0..<n]"
    using Suc by (simp_all add: MakeSliceTimeAllPermutationIterator_def All_Begin_def)
  obtain ps where "base_collect (AllIterator ?it) = Inr ps"
      "set ps = {q. mset q = mset (map int [0..<n]) \<and> (q = map int [0..<n] \<or> arrangement_less (map int [0..<n]) q)}"
    using base_collect_all [OF it(1)] it(2) by auto
  moreover have "sorted (map int [0..<n])" by (simp add: sorted_map sorted_wrt_upt)
  then have "q = map int [0..<n] \<or> arrangement_less (map int [0..<n]) q" if "mset q = mset (map int [0..<n])" for q
    using ascending_first that by blast
  ultimately show ?thesis using Suc unfolding is_permutation_mset by (intro exI [of _ "AllIterator ?it"] exI [of _ ps]) auto
qed

text \<open>The indices without a fixed slice time, and how the slice times are placed on them.\<close>

definition free_indices :: "bool list \<Rightarrow> nat \<Rightarrow> nat list" where
  "free_indices fixed i = filter (\<lambda>j. \<not> fixed ! j) [i..<length fixed]"

definition hd_or :: "nat \<Rightarrow> nat list \<Rightarrow> nat" where
  "hd_or n js = (case js of [] \<Rightarrow> n | j # _ \<Rightarrow> j)"

lemma NextAvailable_free:
  "i \<le> length fixed \<Longrightarrow> NextAvailablePermutationIndex fixed i = hd_or (length fixed) (free_indices fixed i)"
proof (induction "length fixed - i" arbitrary: i)
  case 0
  then show ?case by (simp add: NextAvailablePermutationIndex_def free_indices_def hd_or_def)
next
  case (Suc k)
  then have i: "i < length fixed" by simp
  then have d: "drop i fixed = fixed ! i # drop (Suc i) fixed" "[i..<length fixed] = i # [Suc i..<length fixed]"
    by (simp_all add: Cons_nth_drop_Suc upt_conv_Cons)
  show ?case
  proof (cases "fixed ! i")
    case True
    then have "NextAvailablePermutationIndex fixed i = NextAvailablePermutationIndex fixed (Suc i)"
      using d by (simp add: NextAvailablePermutationIndex_def)
    then show ?thesis using Suc.hyps(1) [of "Suc i"] Suc.hyps(2) i True d by (simp add: free_indices_def)
  next
    case False
    then show ?thesis using d by (simp add: NextAvailablePermutationIndex_def free_indices_def hd_or_def)
  qed
qed

lemma free_indices_Cons:
  "free_indices fixed i = j # js \<Longrightarrow> j < length fixed \<and> js = free_indices fixed (Suc j)"
proof (induction "length fixed - i" arbitrary: i)
  case 0
  then show ?case by (simp add: free_indices_def)
next
  case (Suc k)
  have "[i..<length fixed] = i # [Suc i..<length fixed]" using Suc.hyps(2) by (simp add: upt_conv_Cons)
  then show ?case
    using Suc.hyps(1) [of "Suc i"] Suc.hyps(2) Suc.prems by (auto simp: free_indices_def split: if_splits)
qed

abbreviation put :: "int list \<Rightarrow> nat \<times> int \<Rightarrow> int list" where
  "put p x \<equiv> p[fst x := snd x]"

lemma place_times_put:
  assumes "length p = length fixed" "i \<le> length fixed" "length ts \<le> length (free_indices fixed i)"
  shows "place_times fixed p (NextAvailablePermutationIndex fixed i) ts =
    Inr (foldl put p (zip (free_indices fixed i) ts), hd_or (length fixed) (drop (length ts) (free_indices fixed i)))"
  using assms
proof (induction ts arbitrary: p i)
  case Nil
  then show ?case by (simp add: NextAvailable_free)
next
  case (Cons t ts)
  obtain j js where j: "free_indices fixed i = j # js" using Cons.prems(3) by (cases "free_indices fixed i") auto
  have js: "j < length fixed" "js = free_indices fixed (Suc j)" using free_indices_Cons [OF j] by auto
  have "NextAvailablePermutationIndex fixed i = j" using NextAvailable_free [OF Cons.prems(2)] j by (simp add: hd_or_def)
  then show ?case using Cons.IH [of "p[j := t]" "Suc j"] Cons.prems js j by simp
qed

lemma foldl_put:
  assumes "distinct js" "\<forall>j\<in>set js. j < length p" "length ts = length js"
  shows "length (foldl put p (zip js ts)) = length p" "map ((!) (foldl put p (zip js ts))) js = ts"
    "i \<notin> set js \<Longrightarrow> foldl put p (zip js ts) ! i = p ! i"
proof -
  have "length (foldl put p (zip js ts)) = length p \<and> map ((!) (foldl put p (zip js ts))) js = ts \<and>
      (\<forall>i. i \<notin> set js \<longrightarrow> foldl put p (zip js ts) ! i = p ! i)"
    using assms
  proof (induction js arbitrary: p ts)
    case (Cons j js)
    obtain t us where ts: "ts = t # us" using Cons.prems(3) by (cases ts) auto
    have ih: "length (foldl put (p[j := t]) (zip js us)) = length p" "map ((!) (foldl put (p[j := t]) (zip js us))) js = us"
        "\<forall>i. i \<notin> set js \<longrightarrow> foldl put (p[j := t]) (zip js us) ! i = p[j := t] ! i"
      using Cons.IH [of "p[j := t]" us] Cons.prems ts by simp_all
    then show ?case using Cons.prems ts by auto
  qed simp
  then show "length (foldl put p (zip js ts)) = length p" "map ((!) (foldl put p (zip js ts))) js = ts"
    "i \<notin> set js \<Longrightarrow> foldl put p (zip js ts) ! i = p ! i" by blast+
qed

lemma place_times_append:
  "place_times fixed p i (xs @ ys) = bindE (place_times fixed p i xs) (\<lambda>(p', i'). place_times fixed p' i' ys)"
  by (induction xs arbitrary: p i) simp_all

lemma loop_times_mset:
  assumes "ty \<noteq> kUninitialized" "ty \<noteq> kDone"
  shows "mset (first_loop_times ty available @ second_loop_times ty available) = mset available"
proof -
  have f: "mset (map ((!) available) (filter P (rev [0..<length available]))) +
      mset (map ((!) available) (filter (\<lambda>i. \<not> P i) [0..<length available])) = mset available" for P
  proof -
    have "mset (map ((!) available) (filter P (rev [0..<length available]))) +
        mset (map ((!) available) (filter (\<lambda>i. \<not> P i) [0..<length available])) = image_mset ((!) available) (mset [0..<length available])"
      by (simp add: image_mset_union [symmetric] multiset_partition [symmetric] del: mset_upt)
    also have "\<dots> = mset available" by (metis map_nth mset_map)
    finally show ?thesis .
  qed
  show ?thesis
    using assms f [of "\<lambda>_. True"] f [of "\<lambda>_. False"] f [of odd]
    by (cases ty) (simp_all add: first_loop_times_def second_loop_times_def)
qed

text \<open>The fixed slice times and the available ones make up all slice times.\<close>

definition fixed_times :: "bool list \<Rightarrow> int list \<Rightarrow> int multiset" where
  "fixed_times fixed p = mset (map ((!) p) (filter (\<lambda>j. fixed ! j) [0..<length fixed]))"

definition preferred_ok :: "SliceTimePreferredPermutationIterator \<Rightarrow> bool" where
  "preferred_ok it \<longleftrightarrow> length (fixed_permutation_values it) = pref_num_slices it \<and> length (pref_permutation it) = pref_num_slices it \<and>
     fixed_times (fixed_permutation_values it) (pref_permutation it) + mset (slice_times_available_for_permutation it) =
       mset (map int [0..<pref_num_slices it])"

lemma fixed_and_free:
  assumes "length p = length fixed"
  shows "fixed_times fixed p + mset (map ((!) p) (free_indices fixed 0)) = mset p"
proof -
  have "fixed_times fixed p + mset (map ((!) p) (free_indices fixed 0)) = image_mset ((!) p) (mset [0..<length fixed])"
    by (simp add: fixed_times_def free_indices_def image_mset_union [symmetric] multiset_partition [symmetric] del: mset_upt)
  also have "\<dots> = mset p" using assms by (metis map_nth mset_map)
  finally show ?thesis .
qed

lemma SetUp_ok:
  assumes "preferred_ok it" "permutation_type it \<noteq> kUninitialized"
  shows "\<exists>it'. SetUpPermutationForCurrentType it = Inr it' \<and> preferred_ok it' \<and>
    (permutation_type it \<noteq> kDone \<longrightarrow> is_permutation (pref_num_slices it) (pref_permutation it'))"
proof (cases "permutation_type it = kDone")
  case True
  then show ?thesis using assms by (simp add: SetUpPermutationForCurrentType_def)
next
  case False
  let ?fixed = "fixed_permutation_values it" and ?p = "pref_permutation it" and ?n = "pref_num_slices it"
    and ?av = "slice_times_available_for_permutation it" and ?js = "free_indices (fixed_permutation_values it) 0"
  let ?ts = "first_loop_times (permutation_type it) ?av @ second_loop_times (permutation_type it) ?av"
  have n: "length ?fixed = ?n" "length ?p = ?n" "fixed_times ?fixed ?p + mset ?av = mset (map int [0..<?n])"
    using assms(1) by (simp_all add: preferred_ok_def)
  have ts: "mset ?ts = mset ?av" using loop_times_mset assms(2) False by blast
  have "size (fixed_times ?fixed ?p) + length ?js = ?n"
    using arg_cong [OF fixed_and_free [of ?p ?fixed], of size] n by simp
  moreover have "size (fixed_times ?fixed ?p) + length ?av = ?n" using arg_cong [OF n(3), of size] by simp
  ultimately have len: "length ?ts = length ?js" using ts by (metis add_left_cancel size_mset)
  define r where "r = foldl put ?p (zip ?js ?ts)"
  have js: "distinct ?js" "\<forall>j\<in>set ?js. j < length ?p" using n by (simp_all add: free_indices_def)
  note r = foldl_put [OF js len, folded r_def]
  have place: "place_times ?fixed ?p (NextAvailablePermutationIndex ?fixed 0) ?ts = Inr (r, ?n)"
    using place_times_put [of ?p ?fixed 0 ?ts] n len by (simp add: r_def hd_or_def)
  then obtain p1 i1 where "place_times ?fixed ?p (NextAvailablePermutationIndex ?fixed 0) (first_loop_times (permutation_type it) ?av) = Inr (p1, i1)"
      "place_times ?fixed p1 i1 (second_loop_times (permutation_type it) ?av) = Inr (r, ?n)"
    unfolding place_times_append by (auto simp: bindE_eq_Inr)
  then have set_up: "SetUpPermutationForCurrentType it = Inr (it\<lparr>pref_permutation := r\<rparr>)"
    using False assms(2) r(1) n by (simp add: SetUpPermutationForCurrentType_def Let_def)
  have fx: "fixed_times ?fixed r = fixed_times ?fixed ?p"
    unfolding fixed_times_def by (rule arg_cong [where f = mset], rule map_cong) (auto simp: r(3) free_indices_def)
  have "mset r = mset (map int [0..<?n])"
    using fixed_and_free [of r ?fixed] r(1,2) n fx ts by simp
  then show ?thesis using set_up fx n r(1) by (auto simp: preferred_ok_def is_permutation_mset)
qed

lemma base_collect_preferred:
  assumes "preferred_ok it" "permutation_type it \<noteq> kUninitialized"
    "permutation_type it \<noteq> kDone \<longrightarrow> is_permutation (pref_num_slices it) (pref_permutation it)"
  shows "\<exists>ps. base_collect (PreferredIterator it) = Inr ps \<and> (\<forall>p\<in>set ps. is_permutation (pref_num_slices it) p)"
  using assms
proof (induction "Base_rank (PreferredIterator it)" arbitrary: it rule: less_induct)
  case less
  show ?case
  proof (cases "permutation_type it = kDone")
    case True
    then show ?thesis by (simp add: base_collect.simps)
  next
    case False
    let ?it = "it\<lparr>permutation_type := NextPermutationType (pref_num_slices it) (permutation_type it)\<rparr>"
    have "preferred_ok ?it" "permutation_type ?it \<noteq> kUninitialized"
      using less.prems by (simp_all add: preferred_ok_def, cases "permutation_type it") auto
    then obtain it' where it': "SetUpPermutationForCurrentType ?it = Inr it'" "preferred_ok it'"
        "permutation_type ?it \<noteq> kDone \<longrightarrow> is_permutation (pref_num_slices it) (pref_permutation it')"
      using SetUp_ok [of ?it] by auto
    have nx: "Base_Next (PreferredIterator it) = Inr (PreferredIterator it')" using it'(1) by (simp add: Preferred_Next_def)
    have k: "permutation_type it' = permutation_type ?it" "pref_num_slices it' = pref_num_slices it"
      using SetUp_keeps_type [OF it'(1)] by simp_all
    have "Base_rank (PreferredIterator it') < Base_rank (PreferredIterator it)" using Base_Next_rank [OF nx] False by simp
    from less.hyps [OF this] obtain ps where "base_collect (PreferredIterator it') = Inr ps" "\<forall>p\<in>set ps. is_permutation (pref_num_slices it) p"
      using it' k \<open>permutation_type ?it \<noteq> kUninitialized\<close> by auto
    then show ?thesis using nx False less.prems(3) by (simp add: base_collect.simps [of "PreferredIterator it"])
  qed
qed

lemma base_preferred_permutations:
  assumes "preferred_ok it"
  shows "\<exists>b ps. Base_Begin (PreferredIterator it) = Inr b \<and> base_collect b = Inr ps \<and> (\<forall>p\<in>set ps. is_permutation (pref_num_slices it) p)"
proof -
  let ?it = "it\<lparr>permutation_type := NextPermutationType (pref_num_slices it) kUninitialized\<rparr>"
  have "preferred_ok ?it" "permutation_type ?it \<noteq> kUninitialized" using assms by (auto simp: preferred_ok_def)
  then obtain it' where it': "SetUpPermutationForCurrentType ?it = Inr it'" "preferred_ok it'"
      "permutation_type ?it \<noteq> kDone \<longrightarrow> is_permutation (pref_num_slices it) (pref_permutation it')"
    using SetUp_ok [of ?it] by auto
  have k: "permutation_type it' = permutation_type ?it" "pref_num_slices it' = pref_num_slices it"
    using SetUp_keeps_type [OF it'(1)] by simp_all
  have "\<exists>ps. base_collect (PreferredIterator it') = Inr ps \<and> (\<forall>p\<in>set ps. is_permutation (pref_num_slices it') p)"
    using base_collect_preferred [of it'] it' k by auto
  then show ?thesis using it'(1) k by (auto simp: Preferred_Begin_def)
qed

text \<open>The slice times of the slices of an allocation are all the slice times.\<close>

lemma position_in_distinct:
  "distinct xs \<Longrightarrow> map (\<lambda>i. length (takeWhile (\<lambda>j. j \<noteq> i) xs)) xs = [0..<length xs]"
proof (induction xs rule: rev_induct)
  case (snoc x xs)
  have a: "map (\<lambda>i. length (takeWhile (\<lambda>j. j \<noteq> i) (xs @ [x]))) xs = map (\<lambda>i. length (takeWhile (\<lambda>j. j \<noteq> i) xs)) xs"
    by (rule map_cong) (auto simp: takeWhile_append1)
  have b: "takeWhile (\<lambda>j. j \<noteq> x) (xs @ [x]) = xs" using snoc.prems by (subst takeWhile_append2) auto
  have c: "map (\<lambda>i. length (takeWhile (\<lambda>j. j \<noteq> i) xs)) xs = [0..<length xs]" using snoc by simp
  show ?case unfolding map_append list.map a b c by simp
qed simp

lemma slice_time_map_permutation:
  "mset (map (BuildSliceToSliceTimeMap slices) [0..<length slices]) = mset (map int [0..<length slices])"
proof -
  let ?L = "sort_key (\<lambda>j. (inclusive_start_time (slices ! j), slice_offset (slices ! j))) [0..<length slices]"
  have L: "distinct ?L" "length ?L = length slices" "mset [0..<length slices] = mset ?L" by simp_all
  have "mset (map (BuildSliceToSliceTimeMap slices) [0..<length slices]) = mset (map (BuildSliceToSliceTimeMap slices) ?L)"
    unfolding mset_map L(3) [symmetric] ..
  also have "map (BuildSliceToSliceTimeMap slices) ?L = map int (map (\<lambda>i. length (takeWhile (\<lambda>j. j \<noteq> i) ?L)) ?L)"
    by (simp add: BuildSliceToSliceTimeMap_def)
  finally show ?thesis unfolding position_in_distinct [OF L(1)] L(2) .
qed

lemma MakePreferred_ok:
  assumes "case original of None \<Rightarrow> True | Some slices \<Rightarrow> n = length slices"
  shows "\<exists>it. MakeSliceTimePreferredPermutationIterator n original = Inr it \<and> preferred_ok it \<and> pref_num_slices it = n"
proof (cases original)
  case None
  have "filter (\<lambda>j. replicate n False ! j) [0..<n] = []" by (simp add: filter_empty_conv)
  then have "fixed_times (replicate n False) (replicate n 0) = {#}" unfolding fixed_times_def length_replicate by (simp only: list.map mset.simps)
  then show ?thesis using None by (simp add: MakeSliceTimePreferredPermutationIterator_def preferred_ok_def)
next
  case (Some slices)
  then have n: "n = length slices" using assms by simp
  let ?fixed = "map (\<lambda>i. slice_size (slices ! i) \<noteq> slice_size (slices ! 0)) [0..<n]"
  let ?p = "map (\<lambda>i. if ?fixed ! i then BuildSliceToSliceTimeMap slices i else 0) [0..<n]"
  let ?q = "map (BuildSliceToSliceTimeMap slices) [0..<n]"
  have "fixed_times ?fixed ?p = fixed_times ?fixed ?q"
    unfolding fixed_times_def by (rule arg_cong [where f = mset], rule map_cong) auto
  moreover have "map ((!) ?q) (free_indices ?fixed 0) = map (BuildSliceToSliceTimeMap slices) (filter (\<lambda>i. \<not> ?fixed ! i) [0..<n])"
    by (auto simp: free_indices_def)
  ultimately have "fixed_times ?fixed ?p + mset (map (BuildSliceToSliceTimeMap slices) (filter (\<lambda>i. \<not> ?fixed ! i) [0..<n])) =
      mset (map int [0..<n])"
    using fixed_and_free [of ?q ?fixed] slice_time_map_permutation [of slices] n by simp
  then show ?thesis
    using Some n by (auto simp: MakeSliceTimePreferredPermutationIterator_def preferred_ok_def Let_def)
qed

section \<open>What the iterators produce\<close>

text \<open>The start times of the slices in the order of their offsets, and the pairs of size and start time.\<close>

definition start_times :: "int list \<Rightarrow> int list \<Rightarrow> int list" where
  "start_times inclusive_start_times p = map (\<lambda>t. sort inclusive_start_times ! nat t) p"

definition size_start_pairs :: "SlicedAllocationData \<Rightarrow> (int \<times> int) multiset" where
  "size_start_pairs slices = mset (map (\<lambda>s. (slice_size s, inclusive_start_time s)) slices)"

definition keeps_pairs :: "SlicedAllocationData \<Rightarrow> int list \<Rightarrow> bool" where
  "keeps_pairs slices p \<longleftrightarrow>
     mset (zip (map slice_size slices) (start_times (map inclusive_start_time slices) p)) = size_start_pairs slices"

lemma mapE_at_index_permutation:
  "is_permutation (length xs) p \<Longrightarrow> mapE (at_index xs) p = Inr (map (\<lambda>t. xs ! nat t) p)"
  by (rule mapE_all_Inr) (auto simp: is_permutation_def at_index_def)

lemma SortedInclusiveStartTimes_eq: "SortedInclusiveStartTimes slices = sort (map inclusive_start_time slices)"
  by (simp add: SortedInclusiveStartTimes_def)

lemma sort_eq_iff_mset: "sort xs = sort ys \<longleftrightarrow> mset xs = mset ys"
  by (metis mset_sort properties_for_sort sorted_sort)

lemma IsValid_new: "IsValid (MakeSliceTimePermutationValidator None) p = Inr True"
  by (simp add: IsValid_def MakeSliceTimePermutationValidator_def)

lemma IsValid_repack:
  assumes "is_permutation (length slices) p"
  shows "IsValid (MakeSliceTimePermutationValidator (Some slices)) p = Inr (keeps_pairs slices p)"
proof (cases "slices = []")
  case True
  then show ?thesis by (simp add: IsValid_def MakeSliceTimePermutationValidator_def keeps_pairs_def size_start_pairs_def)
next
  case False
  have "mapE (at_index (sort (map inclusive_start_time slices))) p = Inr (start_times (map inclusive_start_time slices) p)"
    using mapE_at_index_permutation [of "sort (map inclusive_start_time slices)" p] assms by (simp add: start_times_def)
  moreover have "sort (map (\<lambda>s. (slice_size s, inclusive_start_time s)) slices) =
      sort (zip (map slice_size slices) (start_times (map inclusive_start_time slices) p)) \<longleftrightarrow> keeps_pairs slices p"
    unfolding sort_eq_iff_mset keeps_pairs_def size_start_pairs_def by (rule eq_commute)
  ultimately show ?thesis
    using False is_permutation_length [OF assms]
    by (simp add: IsValid_def MakeSliceTimePermutationValidator_def SortedInclusiveStartTimes_eq SizesSortedByOffset_def
        sorted_sort_id)
qed

text \<open>The base iterator of either kind, started.\<close>

definition base_ready :: "IteratorTy \<Rightarrow> nat \<Rightarrow> BaseIterator \<Rightarrow> int list list \<Rightarrow> bool" where
  "base_ready ty n base ps \<longleftrightarrow> (\<exists>b. Base_Begin base = Inr b \<and> base_collect b = Inr ps) \<and> (\<forall>p\<in>set ps. is_permutation n p) \<and>
     (ty = kAll \<longrightarrow> 0 < n \<longrightarrow> {q. is_permutation n q} \<subseteq> set ps)"

lemma base_ready_exists:
  assumes "case original of None \<Rightarrow> True | Some slices \<Rightarrow> n = length slices"
  shows "\<exists>base ps. (case ty of kAll \<Rightarrow> Inr (AllIterator (MakeSliceTimeAllPermutationIterator n))
       | kPreferred \<Rightarrow> bindE (MakeSliceTimePreferredPermutationIterator n original) (\<lambda>it. Inr (PreferredIterator it))) = Inr base \<and>
     base_ready ty n base ps"
proof (cases ty)
  case kAll
  then show ?thesis using base_all_permutations [of n] by (auto simp: base_ready_def split: if_splits)
next
  case kPreferred
  obtain it where "MakeSliceTimePreferredPermutationIterator n original = Inr it" "preferred_ok it" "pref_num_slices it = n"
    using MakePreferred_ok [OF assms] by blast
  then show ?thesis using kPreferred base_preferred_permutations [of it] by (auto simp: base_ready_def)
qed

lemma emit_base_ready:
  assumes "base_ready ty n (base_iterator c) ps" "length (slice_time_to_inclusive_start_time (seen c)) = n"
    "\<And>p. is_permutation n p \<Longrightarrow> IsValid (validator c) p = Inr (valid p)"
  defines "tms \<equiv> \<lambda>p. map (\<lambda>t. slice_time_to_inclusive_start_time (seen c) ! nat t) p"
  shows "\<exists>qs. IteratedPermutations c = Inr qs \<and> (\<forall>p\<in>set qs. is_permutation n p \<and> valid p) \<and> distinct (map tms qs) \<and>
    (ty = kAll \<longrightarrow> 0 < n \<longrightarrow> (\<forall>p. is_permutation n p \<longrightarrow> valid p \<longrightarrow> (\<exists>q\<in>set qs. tms q = tms p)))"
proof -
  obtain b where b: "Base_Begin (base_iterator c) = Inr b" "base_collect b = Inr ps" "\<forall>p\<in>set ps. is_permutation n p"
    using assms(1) by (auto simp: base_ready_def)
  have "IteratedPermutations c = Inr (emit valid tms {} ps)"
  proof (rule IteratedPermutations_emit [OF b(1,2)])
    fix p assume "p \<in> set ps"
    then have p: "is_permutation n p" using b(3) by blast
    then show "IsValid (validator c) p = Inr (valid p)" using assms(3) by simp
    show "mapE (at_index (slice_time_to_inclusive_start_time (seen c))) p = Inr (tms p)"
      using mapE_at_index_permutation [of "slice_time_to_inclusive_start_time (seen c)" p] p assms(2) by (simp add: tms_def)
  qed
  moreover have "\<forall>p\<in>set (emit valid tms {} ps). is_permutation n p \<and> valid p" using emit_subset b(3) by fastforce
  moreover have "\<exists>q\<in>set (emit valid tms {} ps). tms q = tms p" if "ty = kAll" "0 < n" "is_permutation n p" "valid p" for p
    using emit_covers [of p ps valid tms "{}"] assms(1) that by (auto simp: base_ready_def)
  ultimately show ?thesis using emit_distinct [of tms valid "{}" ps] by blast
qed

text \<open>
  C13. The iterators for a new allocation end, and produce permutations of the slice times of which no two are equivalent
  (give the slices the same start times); the iterator over all permutations produces one of every class.
\<close>

theorem NewAllocation_permutations:
  "\<exists>ps. bindE (CreateForNewAllocation ty inclusive_start_times) IteratedPermutations = Inr ps \<and>
     (\<forall>p\<in>set ps. is_permutation (length inclusive_start_times) p) \<and>
     distinct (map (start_times inclusive_start_times) ps) \<and>
     (ty = kAll \<longrightarrow> inclusive_start_times \<noteq> [] \<longrightarrow> (\<forall>p. is_permutation (length inclusive_start_times) p \<longrightarrow>
        (\<exists>q\<in>set ps. start_times inclusive_start_times q = start_times inclusive_start_times p)))"
proof -
  let ?n = "length inclusive_start_times"
  obtain base ps where b: "(case ty of kAll \<Rightarrow> Inr (AllIterator (MakeSliceTimeAllPermutationIterator ?n))
       | kPreferred \<Rightarrow> bindE (MakeSliceTimePreferredPermutationIterator ?n None) (\<lambda>it. Inr (PreferredIterator it))) = Inr base"
     "base_ready ty ?n base ps" using base_ready_exists [of ?n None ty] by auto
  let ?c = "\<lparr>validator = MakeSliceTimePermutationValidator None,
            seen = MakeObservedPermutationManager inclusive_start_times, base_iterator = base\<rparr>"
  have "CreateForNewAllocation ty inclusive_start_times = Inr ?c" using b(1) by (simp add: CreateForNewAllocation_def)
  then show ?thesis
    using emit_base_ready [of ty ?n ?c ps "\<lambda>_. True"] b(2)
    by (simp add: MakeObservedPermutationManager_def IsValid_new start_times_def [abs_def])
qed

text \<open>
  C40. The iterators for a repack end, and produce permutations of the slice times that keep which slice sizes start at
  which times, no two of them equivalent; the iterator over all permutations produces one of every class of them.
\<close>

theorem Repack_permutations:
  "\<exists>ps. bindE (CreateForRepack ty (Some slices)) IteratedPermutations = Inr ps \<and>
     (\<forall>p\<in>set ps. is_permutation (length slices) p \<and> keeps_pairs slices p) \<and>
     distinct (map (start_times (map inclusive_start_time slices)) ps) \<and>
     (ty = kAll \<longrightarrow> slices \<noteq> [] \<longrightarrow> (\<forall>p. is_permutation (length slices) p \<longrightarrow> keeps_pairs slices p \<longrightarrow>
        (\<exists>q\<in>set ps. start_times (map inclusive_start_time slices) q = start_times (map inclusive_start_time slices) p)))"
proof -
  let ?n = "length slices"
  obtain base ps where b: "(case ty of kAll \<Rightarrow> Inr (AllIterator (MakeSliceTimeAllPermutationIterator ?n))
       | kPreferred \<Rightarrow> bindE (MakeSliceTimePreferredPermutationIterator ?n (Some slices)) (\<lambda>it. Inr (PreferredIterator it))) = Inr base"
     "base_ready ty ?n base ps" using base_ready_exists [of ?n "Some slices" ty] by auto
  let ?c = "\<lparr>validator = MakeSliceTimePermutationValidator (Some slices),
            seen = MakeObservedPermutationManager (SortedInclusiveStartTimes slices), base_iterator = base\<rparr>"
  have "CreateForRepack ty (Some slices) = Inr ?c" using b(1) by (simp add: CreateForRepack_def)
  then show ?thesis
    using emit_base_ready [of ty ?n ?c ps "keeps_pairs slices"] b(2)
    by (simp add: MakeObservedPermutationManager_def IsValid_repack start_times_def [abs_def] SortedInclusiveStartTimes_eq sorted_sort_id)
qed

theorem NewAllocation_permutations_witness:
  "bindE (CreateForNewAllocation kAll [5, 5, 9]) IteratedPermutations = Inr [[0, 1, 2], [0, 2, 1], [2, 0, 1]] \<and>
   (\<exists>q\<in>set [[0, 1, 2], [0, 2, 1], [2, 0, 1]]. start_times [5, 5, 9] q = start_times [5, 5, 9] [2, 1, 0])"
proof -
  have e: "bindE (CreateForNewAllocation kAll [5, 5, 9]) IteratedPermutations = Inr [[0, 1, 2], [0, 2, 1], [2, 0, 1]]" by code_simp
  have "is_permutation (length [5 :: int, 5, 9]) [2, 1, 0]" by (auto simp: is_permutation_def)
  then show ?thesis using NewAllocation_permutations [of kAll "[5, 5, 9]"] e by auto
qed

definition example_slices :: SlicedAllocationData where
  "example_slices = [\<lparr>slice_size = 4, slice_offset = 0, inclusive_start_time = 10\<rparr>,
     \<lparr>slice_size = 8, slice_offset = 4, inclusive_start_time = 7\<rparr>,
     \<lparr>slice_size = 4, slice_offset = 12, inclusive_start_time = 20\<rparr>]"

theorem Repack_permutations_witness:
  "bindE (CreateForRepack kAll (Some example_slices)) IteratedPermutations = Inr [[1, 0, 2], [2, 0, 1]] \<and>
   keeps_pairs example_slices [2, 0, 1]"
proof -
  have e: "bindE (CreateForRepack kAll (Some example_slices)) IteratedPermutations = Inr [[1, 0, 2], [2, 0, 1]]" by code_simp
  then show ?thesis using Repack_permutations [of kAll example_slices] by auto
qed

lemma single_slice_permutations:
  "bindE (CreateForNewAllocation ty [t]) IteratedPermutations = Inr [[0]]"
proof (cases ty)
  case kAll
  have "bindE (CreateForNewAllocation kAll [t]) IteratedPermutations = Inr [[0]]" by code_simp
  then show ?thesis using kAll by simp
next
  case kPreferred
  have "bindE (CreateForNewAllocation kPreferred [t]) IteratedPermutations = Inr [[0]]" by code_simp
  then show ?thesis using kPreferred by simp
qed

end
