(* ===== verification/BestFitHeap.thy ===== *)
theory BestFitHeap
  imports SliceTimePermutations
begin

text \<open>
  \<open>GlobalDecreasingSizeBestFitHeap\<close> of \<open>xla/service/heap_simulator/heap_simulator.{h,cc}\<close>. The heap records
  the live intervals of buffers from a sequence of \<open>Alloc\<close>, \<open>ShareWith\<close> and \<open>Free\<close>; \<open>Finish\<close>
  places them one by one in the order of the packing strategy, each at the smallest free chunk that fits during its own
  life and that of the buffers colocated with it. A \<open>const BufferType*\<close> is the unique id by which the code compares
  buffers; hash maps are association lists, and a hash set is the list of its elements in the order of insertion. The
  methods that another class overrides are not overridden here.
\<close>

unbundle bit_operations_syntax

section \<open>Intervals and results\<close>

type_synonym buffer = int

record BufferInterval =
  bi_buffer :: buffer
  bi_size :: int
  bi_start :: int
  bi_end :: int
  colocations :: "buffer list"
  need_allocation :: bool
  min_colocation_start_time :: int
  max_colocation_end_time :: int

record HeapResult =
  chunk_map :: "(buffer \<times> Chunk) list"
  heap_size :: int

record SimulationResult =
  heap_results :: "HeapResult list"
  total_heap_size :: int

definition UpdatedHeapSize :: "HeapResult \<Rightarrow> Chunk \<Rightarrow> int" where
  "UpdatedHeapSize r c = max (heap_size r) (Chunk_end c)"

text \<open>\<open>emplace\<close> of a hash map: an existing entry is left alone.\<close>

definition emplace :: "'k \<Rightarrow> 'v \<Rightarrow> ('k \<times> 'v) list \<Rightarrow> ('k \<times> 'v) list \<times> bool" where
  "emplace k v m = (case map_of m k of None \<Rightarrow> (m @ [(k, v)], True) | Some _ \<Rightarrow> (m, False))"

definition map_at :: "('k \<times> 'v) list \<Rightarrow> 'k \<Rightarrow> 'v status_or" where
  "map_at m k = (case map_of m k of None \<Rightarrow> Inl (CheckFailed ''key not found'') | Some v \<Rightarrow> Inr v)"

definition map_set :: "'k \<Rightarrow> 'v \<Rightarrow> ('k \<times> 'v) list \<Rightarrow> ('k \<times> 'v) list" where
  "map_set k v m = map (\<lambda>x. if fst x = k then (k, v) else x) m"

section \<open>The order of placement\<close>

datatype PackingStrategy = kSpatial | kTemporal | kCustom | kFastMerge | kFastSplit

type_synonym BufferIntervalCompare = "BufferInterval \<Rightarrow> BufferInterval \<Rightarrow> bool"

definition GetTemporalBufferIntervalCompare :: BufferIntervalCompare where
  "GetTemporalBufferIntervalCompare x y \<longleftrightarrow>
     (min_colocation_start_time x - max_colocation_end_time x, - bi_size x, bi_buffer x) <
     (min_colocation_start_time y - max_colocation_end_time y, - bi_size y, bi_buffer y)"

definition GetColocationStartTimeBufferIntervalCompare :: BufferIntervalCompare where
  "GetColocationStartTimeBufferIntervalCompare x y \<longleftrightarrow>
     (min_colocation_start_time x, - bi_size x, bi_buffer x) < (min_colocation_start_time y, - bi_size y, bi_buffer y)"

definition GetSpatialBufferIntervalCompare :: BufferIntervalCompare where
  "GetSpatialBufferIntervalCompare x y \<longleftrightarrow>
     (- bi_size x, bi_start x - bi_end x, bi_buffer x) < (- bi_size y, bi_start y - bi_end y, bi_buffer y)"

text \<open>\<open>absl::c_sort\<close> with a comparator.\<close>

fun insert_by :: "('a \<Rightarrow> 'a \<Rightarrow> bool) \<Rightarrow> 'a \<Rightarrow> 'a list \<Rightarrow> 'a list" where
  "insert_by lt x [] = [x]"
| "insert_by lt x (y # ys) = (if lt y x then y # insert_by lt x ys else x # y # ys)"

definition c_sort :: "('a \<Rightarrow> 'a \<Rightarrow> bool) \<Rightarrow> 'a list \<Rightarrow> 'a list" where
  "c_sort lt xs = foldr (insert_by lt) xs []"

section \<open>The heap\<close>

record BestFitHeap =
  alignment :: int
  buffer_interval_compare :: BufferIntervalCompare
  slice_time_permutation_iteration_type :: IteratorTy
  buffer_intervals :: "(buffer \<times> BufferInterval) list"
  heap_result :: HeapResult
  interval_tree :: BufferIntervalTreeNode
  current_time :: int

definition empty_result :: HeapResult where
  "empty_result = \<lparr>chunk_map = [], heap_size = 0\<rparr>"

definition MakeBestFitHeap :: "int \<Rightarrow> PackingStrategy \<Rightarrow> BufferIntervalCompare option \<Rightarrow> IteratorTy \<Rightarrow> BestFitHeap status_or" where
  "MakeBestFitHeap al packing_strategy compare ty =
     (let heap = (\<lambda>lt. \<lparr>alignment = al, buffer_interval_compare = lt, slice_time_permutation_iteration_type = ty,
                        buffer_intervals = [], heap_result = empty_result, interval_tree = Nullptr, current_time = 0\<rparr>) in
      if \<not> al > 0 then Inl (CheckFailed ''Alignment must be positive'')
      else if packing_strategy = kCustom
      then (case compare of None \<Rightarrow> Inl (CheckFailed ''buffer_interval_compare != nullptr'') | Some lt \<Rightarrow> Inr (heap lt))
      else if compare \<noteq> None then Inl (CheckFailed ''buffer_interval_compare == nullptr'')
      else Inr (heap (case packing_strategy of
             kTemporal \<Rightarrow> GetTemporalBufferIntervalCompare
           | kFastMerge \<Rightarrow> GetColocationStartTimeBufferIntervalCompare
           | _ \<Rightarrow> GetSpatialBufferIntervalCompare)))"

definition AddToChunkMap :: "buffer \<Rightarrow> Chunk \<Rightarrow> BestFitHeap \<Rightarrow> BestFitHeap" where
  "AddToChunkMap b c h = h\<lparr>heap_result := (heap_result h)\<lparr>chunk_map := fst (emplace b c (chunk_map (heap_result h)))\<rparr>\<rparr>"

definition new_interval :: "buffer \<Rightarrow> int \<Rightarrow> int \<Rightarrow> bool \<Rightarrow> BufferInterval" where
  "new_interval b s t need = \<lparr>bi_buffer = b, bi_size = s, bi_start = t, bi_end = - 1, colocations = [], need_allocation = need,
     min_colocation_start_time = - 1, max_colocation_end_time = - 1\<rparr>"

definition add_interval :: "BufferInterval \<Rightarrow> BestFitHeap \<Rightarrow> BestFitHeap status_or" where
  "add_interval i h =
     (case emplace (bi_buffer i) i (buffer_intervals h) of (m, inserted) \<Rightarrow>
        if \<not> inserted then Inl (CheckFailed ''emplace_result.second'')
        else Inr (h\<lparr>buffer_intervals := m, current_time := current_time h + 1\<rparr>))"

definition Alloc :: "buffer \<Rightarrow> int \<Rightarrow> BestFitHeap \<Rightarrow> BestFitHeap status_or" where
  "Alloc b s h =
     (if s = 0 then Inr (AddToChunkMap b (FromOffsetSize 0 0) h)
      else add_interval (new_interval b s (current_time h) True) h)"

definition ShareWith :: "buffer \<Rightarrow> buffer \<Rightarrow> int \<Rightarrow> BestFitHeap \<Rightarrow> BestFitHeap status_or" where
  "ShareWith b share_with s h =
     (if s = 0 then Inr (AddToChunkMap b (FromOffsetSize 0 0) h)
      else case map_of (buffer_intervals h) share_with of
             None \<Rightarrow> Inl (CheckFailed ''buffer_intervals_.count(share_with) != 0'')
           | Some i \<Rightarrow>
               add_interval (new_interval b s (current_time h) False)
                 (h\<lparr>buffer_intervals := map_set share_with (i\<lparr>colocations := colocations i @ [b]\<rparr>) (buffer_intervals h)\<rparr>))"

definition Free :: "buffer \<Rightarrow> int \<Rightarrow> BestFitHeap \<Rightarrow> BestFitHeap status_or" where
  "Free b s h =
     (if s = 0 then Inr h
      else bindE (map_at (buffer_intervals h) b) (\<lambda>i.
        if bi_buffer i \<noteq> b then Inl (CheckFailed ''buffer_interval.buffer == buffer'')
        else if bi_size i \<noteq> s then Inl (CheckFailed ''buffer_interval.size == size'')
        else if bi_end i \<noteq> - 1 then Inl (CheckFailed ''buffer_interval.end == -1'')
        else Inr (h\<lparr>buffer_intervals := map_set b (i\<lparr>bi_end := current_time h\<rparr>) (buffer_intervals h),
                     current_time := current_time h + 1\<rparr>)))"

text \<open>
  \<open>GetTransitiveColocations\<close>: the inner loop inserts the colocations of one interval, and the outer one takes
  intervals from the back of the worklist, which is the head of the list.
\<close>

fun visit_colocations :: "(buffer \<times> BufferInterval) list \<Rightarrow> buffer list \<Rightarrow> buffer list \<times> BufferInterval list \<Rightarrow>
    (buffer list \<times> BufferInterval list) status_or" where
  "visit_colocations bis [] s = Inr s"
| "visit_colocations bis (b # bs) (found, worklist) =
     (if b \<in> set found then visit_colocations bis bs (found, worklist)
      else bindE (map_at bis b) (\<lambda>i. visit_colocations bis bs (found @ [b], i # worklist)))"

lemma map_at_Inr: "map_at m k = Inr v \<longleftrightarrow> map_of m k = Some v"
  by (simp add: map_at_def split: option.splits)

lemma visit_colocations_measure:
  "visit_colocations bis bs (found, wl) = Inr (found', wl') \<Longrightarrow>
   length wl' + card (set (map fst bis) - set found') \<le> length wl + card (set (map fst bis) - set found)"
proof (induction bs arbitrary: found wl)
  case (Cons b bs)
  show ?case
  proof (cases "b \<in> set found")
    case False
    then obtain i where i: "map_of bis b = Some i" "visit_colocations bis bs (found @ [b], i # wl) = Inr (found', wl')"
      using Cons.prems by (auto simp: bindE_eq_Inr map_at_Inr)
    have b: "b \<in> set (map fst bis) - set found" using i(1) False by (auto dest: map_of_SomeD intro: rev_image_eqI)
    have "set (map fst bis) - set (found @ [b]) = set (map fst bis) - set found - {b}" by auto
    then have "Suc (card (set (map fst bis) - set (found @ [b]))) = card (set (map fst bis) - set found)"
      using card_Suc_Diff1 [OF _ b] by simp
    then show ?thesis using Cons.IH [OF i(2)] by simp
  qed (use Cons in simp)
qed simp

function colocations_loop :: "(buffer \<times> BufferInterval) list \<Rightarrow> buffer list \<Rightarrow> BufferInterval list \<Rightarrow> buffer list status_or" where
  "colocations_loop bis found [] = Inr found"
| "colocations_loop bis found (item # worklist) =
     bindE (visit_colocations bis (colocations item) (found, worklist)) (\<lambda>s. colocations_loop bis (fst s) (snd s))"
  by pat_completeness auto

termination
  by (relation "measure (\<lambda>(bis, found, wl). length wl + card (set (map fst bis) - set found))")
    (auto dest!: visit_colocations_measure simp: less_Suc_eq_le)

definition GetTransitiveColocations :: "BestFitHeap \<Rightarrow> BufferInterval \<Rightarrow> buffer list status_or" where
  "GetTransitiveColocations h interval = colocations_loop (buffer_intervals h) [] [interval]"

definition has_single_bit :: "int \<Rightarrow> bool" where
  "has_single_bit x \<longleftrightarrow> x \<noteq> 0 \<and> x AND (x - 1) = 0"

definition ComputeAlignedChunkEnd :: "int \<Rightarrow> int \<Rightarrow> int status_or" where
  "ComputeAlignedChunkEnd al ce =
     (if al \<noteq> 1
      then if has_single_bit al then Inr ((ce + al - 1) AND NOT (al - 1)) else RoundUpTo ce al
      else Inr ce)"

text \<open>The pass of \<open>MakeFreeChunks\<close> over the used chunks in order of their offsets.\<close>

definition emit_free :: "int \<Rightarrow> int \<Rightarrow> int \<Rightarrow> (int \<times> int) list" where
  "emit_free s free_start off = (if off - free_start \<ge> s then [(free_start, off)] else [])"

fun free_loop :: "int \<Rightarrow> int \<Rightarrow> int \<Rightarrow> int \<Rightarrow> int \<Rightarrow> Chunk list \<Rightarrow> (int \<times> int) list status_or" where
  "free_loop al s free_start current_offset current_end [] =
     bindE (ComputeAlignedChunkEnd al current_end) (\<lambda>a.
       Inr (emit_free s free_start current_offset @ [(max free_start a, kint64max)]))"
| "free_loop al s free_start current_offset current_end (chunk # rest) =
     (if offset chunk < current_end
      then free_loop al s free_start current_offset (max current_end (Chunk_end chunk)) rest
      else bindE (ComputeAlignedChunkEnd al current_end) (\<lambda>a.
           bindE (free_loop al s (max free_start a) (offset chunk) (Chunk_end chunk) rest) (\<lambda>fs.
             Inr (emit_free s free_start current_offset @ fs))))"

definition UsedChunks :: "BestFitHeap \<Rightarrow> BufferInterval \<Rightarrow> Chunk list status_or" where
  "UsedChunks h interval =
     bindE (GetTransitiveColocations h interval) (\<lambda>cs.
     bindE (mapE (map_at (buffer_intervals h)) cs) (\<lambda>is.
       Inr (ChunksOverlappingInTime (bi_start interval) (bi_end interval) (interval_tree h) @
            concat (map (\<lambda>i. ChunksOverlappingInTime (bi_start i) (bi_end i) (interval_tree h)) is))))"

text \<open>The second parameter of \<open>MakeFreeChunks\<close> is not used by its body.\<close>

definition MakeFreeChunks :: "BestFitHeap \<Rightarrow> BufferInterval \<Rightarrow> int \<Rightarrow> FreeChunks status_or" where
  "MakeFreeChunks h interval max_size =
     bindE (UsedChunks h interval) (\<lambda>used.
       case sort_key offset used of
         [] \<Rightarrow> Inr [(0, kint64max)]
       | c # cs \<Rightarrow>
           bindE (free_loop (alignment h) (bi_size interval) 0 (offset c) (Chunk_end c) cs) (\<lambda>fs.
             Inr (fold (btree_insert key_greater) (rev fs) [])))"

definition GetMaxColocationSize :: "BestFitHeap \<Rightarrow> BufferInterval \<Rightarrow> int status_or" where
  "GetMaxColocationSize h interval =
     bindE (GetTransitiveColocations h interval) (\<lambda>cs.
     bindE (mapE (map_at (buffer_intervals h)) cs) (\<lambda>is.
       Inr (foldl (\<lambda>m i. max m (bi_size i)) (bi_size interval) is)))"

definition FindLatestEndWithFreeChunkAtPreferredOffset :: "BestFitHeap \<Rightarrow> BufferInterval \<Rightarrow> int \<Rightarrow> int status_or" where
  "FindLatestEndWithFreeChunkAtPreferredOffset h interval preferred =
     (if \<not> preferred \<ge> 0 then Inl (CheckFailed ''preferred_offset >= 0'')
      else
        bindE (ApplyToSortedNodesOverlapping (bi_start interval) (bi_end interval)
          (\<lambda>st (ns, ne, c).
             case ComputeAlignedChunkEnd (alignment h) (Chunk_end c) of
               Inl e \<Rightarrow> (Inl e, True)
             | Inr a \<Rightarrow>
                 if (offset c < preferred \<and> preferred < a) \<or> (preferred \<le> offset c \<and> offset c < preferred + bi_size interval)
                 then (Inr (ns - 1), True) else (st, False))
          (interval_tree h) (Inr (bi_end interval))) (\<lambda>r. r))"

section \<open>Sliced intervals\<close>

definition ExclusiveToInclusiveStartTime :: "int \<Rightarrow> int" where
  "ExclusiveToInclusiveStartTime t = t + 1"

definition ExclusiveToInclusiveEndTime :: "int \<Rightarrow> int" where
  "ExclusiveToInclusiveEndTime t = t - 1"

text \<open>The pointer to the full interval, when there is one, points to the full interval itself.\<close>

record SlicedBufferInterval =
  full_buffer_interval :: BufferInterval
  is_mutable :: bool
  slice_sizes_sorted_by_offset :: "int list"
  make_free_chunks_intervals :: "BufferInterval list"

definition Slice :: "int list \<Rightarrow> SlicedBufferInterval \<Rightarrow> SlicedBufferInterval status_or" where
  "Slice sizes s =
     (let full = full_buffer_interval s in
      if sizes = []
      then Inr (s\<lparr>slice_sizes_sorted_by_offset := [bi_size full], make_free_chunks_intervals := [full]\<rparr>)
      else
        let min_slice_size = Min (set sizes);
            latest = length sizes - 1;
            interval = (\<lambda>i. (new_interval (bi_buffer full) (if i = latest then bi_size full else min_slice_size) 0 (need_allocation full))
               \<lparr>bi_end := bi_end full, colocations := (if i = latest then colocations full else [])\<rparr>)
        in if sum_list sizes \<noteq> bi_size full then Inl (CheckFailed ''size_total == full_buffer_interval_.size'')
           else Inr (s\<lparr>slice_sizes_sorted_by_offset := sizes, make_free_chunks_intervals := map interval [0..<length sizes]\<rparr>))"

definition CreateConstInterval :: "BufferInterval \<Rightarrow> SlicedBufferInterval status_or" where
  "CreateConstInterval full =
     Slice [] \<lparr>full_buffer_interval = full, is_mutable = False, slice_sizes_sorted_by_offset = [], make_free_chunks_intervals = []\<rparr>"

definition CreateMutableInterval :: "BufferInterval \<Rightarrow> SlicedBufferInterval status_or" where
  "CreateMutableInterval full =
     Slice [] \<lparr>full_buffer_interval = full, is_mutable = True, slice_sizes_sorted_by_offset = [], make_free_chunks_intervals = []\<rparr>"

definition num_slices :: "SlicedBufferInterval \<Rightarrow> nat" where
  "num_slices s = length (slice_sizes_sorted_by_offset s)"

definition UpdateInclusiveSliceStartTimes :: "int list \<Rightarrow> SlicedBufferInterval \<Rightarrow> SlicedBufferInterval status_or" where
  "UpdateInclusiveSliceStartTimes start_ts s =
     (if length start_ts \<noteq> num_slices s then Inl (CheckFailed ''inclusive_start_times.size() == num_slices()'')
      else if \<not> is_mutable s then Inl (CheckFailed ''mutable_full_buffer_interval_ != nullptr'')
      else
        let full = (full_buffer_interval s)\<lparr>bi_start := hd start_ts\<rparr>;
            update = (\<lambda>i x. x\<lparr>bi_start := start_ts ! i,
              bi_end := (if i \<noteq> num_slices s - 1 then ExclusiveToInclusiveEndTime (start_ts ! (i + 1)) else bi_end full)\<rparr>)
        in Inr (s\<lparr>full_buffer_interval := full,
                  make_free_chunks_intervals := map2 update [0..<num_slices s] (make_free_chunks_intervals s)\<rparr>))"

definition UpdateExclusiveSliceStartTimes :: "int list \<Rightarrow> SlicedBufferInterval \<Rightarrow> SlicedBufferInterval status_or" where
  "UpdateExclusiveSliceStartTimes exclusive_start_times s =
     UpdateInclusiveSliceStartTimes (map ExclusiveToInclusiveStartTime exclusive_start_times) s"

definition UpdateEndTime :: "int \<Rightarrow> SlicedBufferInterval \<Rightarrow> SlicedBufferInterval status_or" where
  "UpdateEndTime t s =
     (if \<not> is_mutable s then Inl (CheckFailed ''mutable_full_buffer_interval_ != nullptr'')
      else let is = make_free_chunks_intervals s in
           Inr (s\<lparr>full_buffer_interval := (full_buffer_interval s)\<lparr>bi_end := t\<rparr>,
                  make_free_chunks_intervals := is[length is - 1 := (is ! (length is - 1))\<lparr>bi_end := t\<rparr>]\<rparr>))"

definition inclusive_start_times :: "SlicedBufferInterval \<Rightarrow> int list" where
  "inclusive_start_times s = map bi_start (make_free_chunks_intervals s)"

definition IntervalForMakeFreeChunks :: "SlicedBufferInterval \<Rightarrow> nat \<Rightarrow> BufferInterval status_or" where
  "IntervalForMakeFreeChunks s slice_time =
     (if \<not> slice_time < num_slices s then Inl (CheckFailed ''slice_time < num_slices()'')
      else at_index (make_free_chunks_intervals s) (int slice_time))"

section \<open>Finding and committing chunks\<close>

definition CreateSlicedAllocationFinder ::
  "BestFitHeap \<Rightarrow> SlicedBufferInterval \<Rightarrow> int \<Rightarrow> int \<Rightarrow> int list list \<Rightarrow> (int \<Rightarrow> bool) \<Rightarrow> SlicedAllocationFinder status_or" where
  "CreateSlicedAllocationFinder h sliced max_size preferred permutations allowed =
     bindE (mapE (\<lambda>t. bindE (IntervalForMakeFreeChunks sliced t) (\<lambda>i. MakeFreeChunks h i (- 1))) [0..<num_slices sliced - 1]) (\<lambda>free_chunks.
     bindE (IntervalForMakeFreeChunks sliced (num_slices sliced - 1)) (\<lambda>i.
     bindE (MakeFreeChunks h i max_size) (\<lambda>last_chunks.
       MakeSlicedAllocationFinder (free_chunks @ [last_chunks]) (slice_sizes_sorted_by_offset sliced) max_size preferred
         (alignment h) permutations allowed)))"

definition PostProcessFindChunkCandidatesResult :: "SlicedBufferInterval \<Rightarrow> Chunk list \<Rightarrow> Chunk list status_or" where
  "PostProcessFindChunkCandidatesResult sliced chunks =
     (if chunks = [] then Inr []
      else if length chunks \<noteq> num_slices sliced + 1 then Inl (CheckFailed ''chunks.size() == sliced_interval.num_slices() + 1'')
      else Inr (butlast chunks))"

definition FindChunkCandidates :: "BestFitHeap \<Rightarrow> SlicedBufferInterval \<Rightarrow> int \<Rightarrow> Chunk list status_or" where
  "FindChunkCandidates h sliced preferred =
     bindE (GetMaxColocationSize h (full_buffer_interval sliced)) (\<lambda>max_size.
     bindE (bindE (CreateForNewAllocation (slice_time_permutation_iteration_type h) (inclusive_start_times sliced))
              IteratedPermutations) (\<lambda>permutations.
     bindE (CreateSlicedAllocationFinder h sliced max_size preferred permutations (\<lambda>_. True)) (\<lambda>finder.
     bindE (Find finder) (PostProcessFindChunkCandidatesResult sliced))))"

definition FindChunkCandidate :: "BestFitHeap \<Rightarrow> BufferInterval \<Rightarrow> int \<Rightarrow> Chunk status_or" where
  "FindChunkCandidate h interval preferred =
     bindE (CreateConstInterval interval) (\<lambda>sliced.
     bindE (FindChunkCandidates h sliced preferred) (\<lambda>chunks.
       if length chunks \<noteq> 1 then Inl (CheckFailed ''chunks.size() == 1'') else Inr (chunks ! 0)))"

definition set_heap_size :: "int \<Rightarrow> BestFitHeap \<Rightarrow> BestFitHeap" where
  "set_heap_size s h = h\<lparr>heap_result := (heap_result h)\<lparr>heap_size := s\<rparr>\<rparr>"

definition CommitChunkOnly :: "BestFitHeap \<Rightarrow> BufferInterval \<Rightarrow> Chunk \<Rightarrow> BestFitHeap status_or" where
  "CommitChunkOnly h interval chunk =
     (if chunk_size chunk \<noteq> bi_size interval then Inl (CheckFailed ''Chunk size mismatch for buffer'')
      else
        bindE (GetMaxColocationSize h interval) (\<lambda>max_size.
        bindE (GetTransitiveColocations h interval) (\<lambda>cs.
          let max_size_chunk = FromOffsetSize (offset chunk) max_size;
              grow = (\<lambda>h. set_heap_size (UpdatedHeapSize (heap_result h) max_size_chunk) h);
              h' = foldl (\<lambda>h c. AddToChunkMap c max_size_chunk (grow h)) (grow h) cs
          in Inr (AddToChunkMap (bi_buffer interval) max_size_chunk h'))))"

definition CommitChunkAndInterval :: "BestFitHeap \<Rightarrow> BufferInterval \<Rightarrow> Chunk \<Rightarrow> BestFitHeap status_or" where
  "CommitChunkAndInterval h interval chunk =
     bindE (CommitChunkOnly h interval chunk) (\<lambda>h1.
     bindE (GetMaxColocationSize h1 interval) (\<lambda>max_size.
     bindE (GetTransitiveColocations h1 interval) (\<lambda>cs.
     bindE (mapE (map_at (buffer_intervals h1)) cs) (\<lambda>is.
       let max_size_chunk = FromOffsetSize (offset chunk) max_size in
       Inr (h1\<lparr>interval_tree :=
         foldl (\<lambda>t i. Add (bi_start i) (bi_end i) max_size_chunk t)
           (Add (bi_start interval) (bi_end interval) max_size_chunk (interval_tree h1)) is\<rparr>)))))"

definition with_colocation_times :: "BestFitHeap \<Rightarrow> BufferInterval \<Rightarrow> BufferInterval status_or" where
  "with_colocation_times h interval =
     bindE (GetTransitiveColocations h interval) (\<lambda>cs.
     bindE (mapE (map_at (buffer_intervals h)) cs) (\<lambda>is.
       Inr (interval\<lparr>min_colocation_start_time := foldl (\<lambda>m i. min m (bi_start i)) (bi_start interval) is,
                     max_colocation_end_time := foldl (\<lambda>m i. max m (bi_end i)) (bi_end interval) is\<rparr>)))"

definition GetSortedBufferIntervals :: "BestFitHeap \<Rightarrow> BufferInterval list status_or" where
  "GetSortedBufferIntervals h =
     bindE (mapE (with_colocation_times h) (map snd (buffer_intervals h))) (\<lambda>is.
       Inr (c_sort (buffer_interval_compare h) is))"

definition place_interval :: "BestFitHeap \<Rightarrow> BufferInterval \<Rightarrow> BestFitHeap status_or" where
  "place_interval h interval =
     (if \<not> need_allocation interval then Inr h
      else bindE (FindChunkCandidate h interval (- 1)) (CommitChunkAndInterval h interval))"

definition Finish :: "BestFitHeap \<Rightarrow> (SimulationResult \<times> BestFitHeap) status_or" where
  "Finish h =
     bindE (GetSortedBufferIntervals h) (\<lambda>is.
     bindE (foldE place_interval h is) (\<lambda>h'.
       Inr (\<lparr>heap_results = [heap_result h'], total_heap_size = heap_size (heap_result h')\<rparr>, h')))"

text \<open>A sequence of calls.\<close>

datatype RecordedCall =
    kAlloc buffer int
  | kShareWith buffer buffer int
  | kFree buffer int

fun apply_call :: "BestFitHeap \<Rightarrow> RecordedCall \<Rightarrow> BestFitHeap status_or" where
  "apply_call h (kAlloc b s) = Alloc b s h"
| "apply_call h (kShareWith b w s) = ShareWith b w s h"
| "apply_call h (kFree b s) = Free b s h"

definition apply_calls :: "BestFitHeap \<Rightarrow> RecordedCall list \<Rightarrow> BestFitHeap status_or" where
  "apply_calls h calls = foldE apply_call h calls"

section \<open>Alignment\<close>

lemma single_bit_power: "0 < x \<Longrightarrow> x AND (x - 1) = 0 \<Longrightarrow> \<exists>n. x = 2 ^ n" for x :: int
proof (induction "nat x" arbitrary: x rule: less_induct)
  case less
  note rec = and_int_rec [of x "x - 1"]
  show ?case
  proof (cases "odd x")
    case True
    then have "(x - 1) div 2 = x div 2" by (elim oddE) simp
    then have "x div 2 = 0" using rec less.prems(2) by simp
    then have "x = 2 ^ 0" using True less.prems(1) by (elim oddE) simp
    then show ?thesis by blast
  next
    case False
    then have "even x" by simp
    then obtain y where y: "x = 2 * y" by (elim evenE)
    then have "(x - 1) div 2 = y - 1" "x div 2 = y" by simp_all
    then have "y AND (y - 1) = 0" "0 < y" using rec less.prems y False by simp_all
    then obtain n where "y = 2 ^ n" using less.hyps [of y] y by auto
    then have "x = 2 ^ Suc n" using y by simp
    then show ?thesis by blast
  qed
qed

lemma and_not_mask: "a AND NOT (mask n) = 2 ^ n * (a div 2 ^ n)" for a :: int
proof -
  have "a AND NOT (mask n) = push_bit n (drop_bit n a)" by (rule bit_eqI) (auto simp: bit_simps)
  then show ?thesis by (simp add: push_bit_eq_mult drop_bit_eq_div mult.commute)
qed

lemma round_up_div:
  fixes al x :: int
  assumes "0 < al"
  shows "x \<le> al * ((x + al - 1) div al)" "al * ((x + al - 1) div al) < x + al"
proof -
  have "al * ((x + al - 1) div al) = x + al - 1 - (x + al - 1) mod al" by (simp add: minus_mod_eq_mult_div)
  moreover have "0 \<le> (x + al - 1) mod al" "(x + al - 1) mod al < al" using assms by simp_all
  ultimately show "x \<le> al * ((x + al - 1) div al)" "al * ((x + al - 1) div al) < x + al" by linarith+
qed

lemma aligned_le: "0 < al \<Longrightarrow> al dvd e \<Longrightarrow> al dvd a \<Longrightarrow> e < a + al \<Longrightarrow> e \<le> a" for a :: int
  by (auto elim!: dvdE simp flip: distrib_left) (metis less_le_not_le linorder_not_le mult.commute mult_less_cancel_left_pos zless_add1_eq distrib_left mult.right_neutral)

lemma ComputeAlignedChunkEnd_ok:
  assumes "0 < al"
  shows "\<exists>a. ComputeAlignedChunkEnd al ce = Inr a \<and> ce \<le> a \<and> a < ce + al \<and> al dvd a"
proof (cases "al \<noteq> 1 \<and> has_single_bit al")
  case True
  then obtain n where n: "al = 2 ^ n" using single_bit_power assms by (auto simp: has_single_bit_def)
  then have "al - 1 = mask n" by (simp add: mask_eq_exp_minus_1)
  then have "ComputeAlignedChunkEnd al ce = Inr (al * ((ce + al - 1) div al))"
    using True n and_not_mask [of "ce + al - 1" n] by (simp add: ComputeAlignedChunkEnd_def)
  then show ?thesis using round_up_div [OF assms, of ce] by auto
next
  case False
  then show ?thesis using RoundUpTo_pos [OF assms, of ce] by (auto simp: ComputeAlignedChunkEnd_def)
qed

section \<open>The free chunks\<close>

definition free_list_ok :: "int \<Rightarrow> int \<Rightarrow> int \<Rightarrow> (int \<times> int) list \<Rightarrow> bool" where
  "free_list_ok al lo hi L \<longleftrightarrow> sorted_wrt (\<lambda>x y. snd x \<le> fst y \<and> fst x < fst y) L \<and>
     (\<forall>x\<in>set L. lo \<le> fst x \<and> fst x \<le> hi \<and> fst x \<le> snd x \<and> al dvd fst x) \<and> (\<exists>L' x. L = L' @ [(x, kint64max)])"

definition apart :: "int \<times> int \<Rightarrow> int \<Rightarrow> int \<Rightarrow> bool" where
  "apart x a b \<longleftrightarrow> snd x \<le> a \<or> b \<le> fst x"

lemma free_list_ok_emit:
  assumes "free_list_ok al lo' hi L" "lo \<le> lo'" "off \<le> lo'" "al dvd lo" "lo \<le> hi" "0 < s"
  shows "free_list_ok al lo hi (emit_free s lo off @ L)"
proof -
  have "\<forall>x\<in>set L. lo' \<le> fst x" using assms(1) by (simp add: free_list_ok_def)
  then show ?thesis
    using assms by (fastforce simp: free_list_ok_def emit_free_def sorted_wrt_append)
qed

lemma free_loop_ok:
  assumes "0 < al" "0 < s" "al dvd fs" "co \<le> ce" "sorted (map offset cs)" "\<forall>c\<in>set cs. co \<le> offset c \<and> offset c \<le> Chunk_end c"
    "fs \<le> hi" "ce + al \<le> hi" "\<forall>c\<in>set cs. Chunk_end c + al \<le> hi" "hi \<le> kint64max"
  shows "\<exists>L. free_loop al s fs co ce cs = Inr L \<and> free_list_ok al fs hi L \<and>
    (\<forall>x\<in>set L. apart x co ce \<and> (\<forall>c\<in>set cs. apart x (offset c) (Chunk_end c)))"
  using assms(3-9)
proof (induction cs arbitrary: fs co ce)
  case Nil
  obtain a where a: "ComputeAlignedChunkEnd al ce = Inr a" "ce \<le> a" "a < ce + al" "al dvd a"
    using ComputeAlignedChunkEnd_ok [OF assms(1)] by blast
  have e: "free_list_ok al (max fs a) hi [(max fs a, kint64max)]"
    using a Nil.prems assms(10) by (simp add: free_list_ok_def max_def)
  have "free_list_ok al fs hi (emit_free s fs co @ [(max fs a, kint64max)])"
    using a Nil.prems assms(2) by (intro free_list_ok_emit [OF e]) auto
  then show ?case using a by (auto simp: emit_free_def apart_def)
next
  case (Cons c cs)
  show ?case
  proof (cases "offset c < ce")
    case True
    have "sorted (map offset cs)" "\<forall>c\<in>set cs. co \<le> offset c \<and> offset c \<le> Chunk_end c" "max ce (Chunk_end c) + al \<le> hi"
        "co \<le> max ce (Chunk_end c)"
      using Cons.prems by (auto simp: max_def)
    then obtain L where L: "free_loop al s fs co (max ce (Chunk_end c)) cs = Inr L" "free_list_ok al fs hi L"
        "\<forall>x\<in>set L. apart x co (max ce (Chunk_end c)) \<and> (\<forall>c\<in>set cs. apart x (offset c) (Chunk_end c))"
      using Cons.IH [of fs co "max ce (Chunk_end c)"] Cons.prems by auto
    have "apart x co ce \<and> apart x (offset c) (Chunk_end c)" if "apart x co (max ce (Chunk_end c))" for x
      using that Cons.prems(4) by (auto simp: apart_def)
    then show ?thesis using L True by auto
  next
    case False
    obtain a where a: "ComputeAlignedChunkEnd al ce = Inr a" "ce \<le> a" "a < ce + al" "al dvd a"
      using ComputeAlignedChunkEnd_ok [OF assms(1)] by blast
    have "sorted (map offset cs)" "\<forall>d\<in>set cs. offset c \<le> offset d \<and> offset d \<le> Chunk_end d" "offset c \<le> Chunk_end c"
        "max fs a \<le> hi" "Chunk_end c + al \<le> hi" "al dvd max fs a"
      using Cons.prems a by (auto simp: max_def)
    then obtain L where L: "free_loop al s (max fs a) (offset c) (Chunk_end c) cs = Inr L" "free_list_ok al (max fs a) hi L"
        "\<forall>x\<in>set L. apart x (offset c) (Chunk_end c) \<and> (\<forall>c\<in>set cs. apart x (offset c) (Chunk_end c))"
      using Cons.IH [of "max fs a" "offset c" "Chunk_end c"] Cons.prems by auto
    have "free_list_ok al fs hi (emit_free s fs co @ L)"
      using L(2) a Cons.prems assms(2) by (intro free_list_ok_emit [OF L(2)]) auto
    moreover have "apart x co ce" if "x \<in> set L" for x
      using L(2) that a(2) by (auto simp: free_list_ok_def apart_def)
    moreover have "apart x co ce \<and> (\<forall>d\<in>set (c # cs). apart x (offset d) (Chunk_end d))" if "x \<in> set (emit_free s fs co)" for x
      using that Cons.prems by (auto simp: emit_free_def apart_def split: if_splits)
    ultimately show ?thesis using L(1,3) a(1) False by auto
  qed
qed

text \<open>The free chunks miss no aligned place: one that is clear of the used chunks lies inside one of them.\<close>

lemma free_loop_complete:
  assumes "free_loop al s fs co ce cs = Inr L" "0 < al" "s \<le> m" "0 < m" "al dvd a" "a + m \<le> kint64max" "fs \<le> a"
    "apart (a, a + m) co ce" "\<forall>c\<in>set cs. apart (a, a + m) (offset c) (Chunk_end c)"
  shows "\<exists>x\<in>set L. fst x \<le> a \<and> a + m \<le> snd x"
  using assms(1,7-9)
proof (induction cs arbitrary: fs co ce L)
  case Nil
  obtain e where e: "ComputeAlignedChunkEnd al ce = Inr e" "e < ce + al" "al dvd e"
    using ComputeAlignedChunkEnd_ok [OF assms(2)] by blast
  have "e \<le> a" if "ce \<le> a" using that e(2,3) assms(2,5) aligned_le by (metis add_le_cancel_right order_less_le_trans)
  then show ?case using Nil assms(3,6) e(1) by (auto simp: emit_free_def apart_def)
next
  case (Cons c cs)
  show ?case
  proof (cases "offset c < ce")
    case True
    then have "apart (a, a + m) co (max ce (Chunk_end c))" using Cons.prems(3,4) assms(4) by (auto simp: apart_def)
    then show ?thesis using Cons.IH [of fs co "max ce (Chunk_end c)" L] Cons.prems True by simp
  next
    case False
    obtain e where e: "ComputeAlignedChunkEnd al ce = Inr e" "e < ce + al" "al dvd e"
      using ComputeAlignedChunkEnd_ok [OF assms(2)] by blast
    obtain L' where L': "free_loop al s (max fs e) (offset c) (Chunk_end c) cs = Inr L'" "L = emit_free s fs co @ L'"
      using Cons.prems(1) False e(1) by (auto simp: bindE_eq_Inr)
    show ?thesis
    proof (cases "a + m \<le> co")
      case True
      then show ?thesis using L'(2) assms(3) Cons.prems(2) by (simp add: emit_free_def)
    next
      case False
      then have "ce \<le> a" using Cons.prems(3) by (simp add: apart_def)
      then have "e \<le> a" using e(2,3) assms(2,5) aligned_le by (metis add_le_cancel_right order_less_le_trans)
      then show ?thesis using Cons.IH [OF L'(1)] L'(2) Cons.prems(2,4) by auto
    qed
  qed
qed

definition places_covered :: "int \<Rightarrow> int \<Rightarrow> Chunk set \<Rightarrow> FreeChunks \<Rightarrow> bool" where
  "places_covered al s used F \<longleftrightarrow> (\<forall>a m. s \<le> m \<longrightarrow> al dvd a \<longrightarrow> 0 \<le> a \<longrightarrow> a + m \<le> kint64max \<longrightarrow>
     (\<forall>c\<in>used. apart (a, a + m) (offset c) (Chunk_end c)) \<longrightarrow> (\<exists>x\<in>set F. fst x \<le> a \<and> a + m \<le> snd x))"

lemma MakeFreeChunks_ok:
  assumes "UsedChunks h i = Inr used" "0 < alignment h" "0 < bi_size i" "\<forall>c\<in>set used. offset c \<le> Chunk_end c"
    "\<forall>c\<in>set used. Chunk_end c + alignment h \<le> hi" "0 \<le> hi" "hi \<le> kint64max"
  shows "\<exists>F. MakeFreeChunks h i ms = Inr F \<and> chunks_ok F \<and> (\<exists>x. (x, kint64max) \<in> set F) \<and>
    places_covered (alignment h) (bi_size i) (set used) F \<and>
    (\<forall>x\<in>set F. 0 \<le> fst x \<and> fst x \<le> hi \<and> alignment h dvd fst x \<and> (\<forall>c\<in>set used. apart x (offset c) (Chunk_end c)))"
proof (cases "sort_key offset used")
  case Nil
  then have "used = []" by (metis length_0_conv length_sort)
  then show ?thesis using assms(1,6) Nil by (simp add: MakeFreeChunks_def chunks_ok_def kint64max_def places_covered_def)
next
  case (Cons c cs)
  have set: "set (c # cs) = set used" unfolding Cons [symmetric] by simp
  have "sorted (map offset (c # cs))" unfolding Cons [symmetric] by simp
  then have srt: "sorted (map offset cs)" "\<forall>d\<in>set cs. offset c \<le> offset d" by auto
  have ends: "\<forall>d\<in>set (c # cs). offset d \<le> Chunk_end d \<and> Chunk_end d + alignment h \<le> hi" using assms(4,5) set by simp
  obtain L where L: "free_loop (alignment h) (bi_size i) 0 (offset c) (Chunk_end c) cs = Inr L"
      "free_list_ok (alignment h) 0 hi L"
      "\<forall>x\<in>set L. apart x (offset c) (Chunk_end c) \<and> (\<forall>c\<in>set cs. apart x (offset c) (Chunk_end c))"
    using free_loop_ok [of "alignment h" "bi_size i" 0 "offset c" "Chunk_end c" cs hi] assms srt ends by auto
  have "sorted_wrt key_greater (rev L)" using L(2) unfolding free_list_ok_def sorted_wrt_rev
    by (auto simp: key_greater_def elim: sorted_wrt_mono_rel [rotated])
  then have F: "fold (btree_insert key_greater) (rev L) [] = rev L" by (intro desc_fold_insert_eq) auto
  have "chunks_ok (rev L)" using L(2) unfolding free_list_ok_def chunks_ok_def sorted_wrt_rev
    by (auto elim: sorted_wrt_mono_rel [rotated])
  moreover have "\<exists>x. (x, kint64max) \<in> set (rev L)" using L(2) by (auto simp: free_list_ok_def)
  moreover have "\<forall>x\<in>set (rev L). 0 \<le> fst x \<and> fst x \<le> hi \<and> alignment h dvd fst x \<and> (\<forall>c\<in>set used. apart x (offset c) (Chunk_end c))"
    using L(2,3) unfolding free_list_ok_def set [symmetric] by simp
  moreover have "places_covered (alignment h) (bi_size i) (set used) (rev L)"
    unfolding places_covered_def using free_loop_complete [OF L(1) assms(2)] assms(3) unfolding set [symmetric] by simp
  ultimately show ?thesis using assms(1) Cons L(1) F by (simp add: MakeFreeChunks_def)
qed

section \<open>Colocated buffers\<close>

text \<open>The relation between a buffer and those declared to share its memory.\<close>

definition shares :: "(buffer \<times> BufferInterval) list \<Rightarrow> (buffer \<times> buffer) set" where
  "shares bis = {(a, b). \<exists>i. map_of bis a = Some i \<and> b \<in> set (colocations i)}"

definition sharing_closed :: "(buffer \<times> BufferInterval) list \<Rightarrow> bool" where
  "sharing_closed bis \<longleftrightarrow> (\<forall>i\<in>ran (map_of bis). set (colocations i) \<subseteq> dom (map_of bis))"

definition reached :: "(buffer \<times> BufferInterval) list \<Rightarrow> buffer list \<Rightarrow> buffer set" where
  "reached bis bs = (shares bis)\<^sup>* `` set bs"

text \<open>
  The frontier invariant of the worklist: what has been found is closed under sharing, but for the colocations of the
  intervals still in the worklist.
\<close>

definition frontier :: "(buffer \<times> BufferInterval) list \<Rightarrow> BufferInterval list \<Rightarrow> buffer list \<Rightarrow> bool" where
  "frontier bis wl found \<longleftrightarrow> distinct found \<and>
     (\<forall>b\<in>set found. \<exists>i. map_of bis b = Some i \<and> (i \<in> set wl \<or> set (colocations i) \<subseteq> set found))"

lemma visit_colocations_ok:
  assumes "set bs \<subseteq> dom (map_of bis)"
  shows "\<exists>found' wl'. visit_colocations bis bs (found, wl) = Inr (found', wl') \<and> set found' = set found \<union> set bs \<and>
    set wl \<subseteq> set wl' \<and> (\<forall>b\<in>set found' - set found. \<exists>i\<in>set wl'. map_of bis b = Some i) \<and>
    (\<forall>i\<in>set wl' - set wl. \<exists>b\<in>set bs. map_of bis b = Some i) \<and> (distinct found \<longrightarrow> distinct found')"
  using assms
proof (induction bs arbitrary: found wl)
  case (Cons b bs)
  show ?case
  proof (cases "b \<in> set found")
    case True
    then show ?thesis using Cons.IH [of found wl] Cons.prems by (auto simp: insert_absorb)
  next
    case False
    obtain i where i: "map_of bis b = Some i" using Cons.prems by auto
    have sub: "set bs \<subseteq> dom (map_of bis)" using Cons.prems by simp
    obtain found' wl' where ih: "visit_colocations bis bs (found @ [b], i # wl) = Inr (found', wl')"
        "set found' = set (found @ [b]) \<union> set bs" "set (i # wl) \<subseteq> set wl'"
        "\<forall>b\<in>set found' - set (found @ [b]). \<exists>i\<in>set wl'. map_of bis b = Some i"
        "\<forall>j\<in>set wl' - set (i # wl). \<exists>b\<in>set bs. map_of bis b = Some j" "distinct (found @ [b]) \<longrightarrow> distinct found'"
      using Cons.IH [OF sub, of "found @ [b]" "i # wl"] by blast
    have "visit_colocations bis (b # bs) (found, wl) = Inr (found', wl')"
      using False i ih(1) by (simp add: map_at_def)
    moreover have "\<forall>c\<in>set found' - set found. \<exists>i\<in>set wl'. map_of bis c = Some i" using ih(3,4) i by auto
    moreover have "\<forall>j\<in>set wl' - set wl. \<exists>c\<in>set (b # bs). map_of bis c = Some j" using ih(5) i by auto
    ultimately show ?thesis using ih(2,3,6) False by auto
  qed
qed simp

lemma colocations_loop_ok:
  assumes "sharing_closed bis" "\<forall>i\<in>set wl. set (colocations i) \<subseteq> dom (map_of bis)" "frontier bis wl found"
  shows "\<exists>r. colocations_loop bis found wl = Inr r \<and> distinct r \<and>
    set r = set found \<union> reached bis (concat (map colocations wl)) \<union> reached bis found"
  using assms
proof (induction bis found wl rule: colocations_loop.induct)
  case (1 bis found)
  have "reached bis found \<subseteq> set found"
  proof
    fix b assume "b \<in> reached bis found"
    then obtain a where a: "a \<in> set found" "(a, b) \<in> (shares bis)\<^sup>*" by (auto simp: reached_def)
    from a(2,1) show "b \<in> set found"
    proof (induction rule: rtrancl_induct)
      case (step y z)
      then obtain i where "map_of bis y = Some i" "z \<in> set (colocations i)" by (auto simp: shares_def)
      then show ?case using step "1.prems"(3) by (fastforce simp: frontier_def)
    qed
  qed
  moreover have "set found \<subseteq> reached bis found" by (auto simp: reached_def)
  ultimately show ?case using "1.prems"(3) by (auto simp: frontier_def reached_def)
next
  case (2 bis found item wl)
  let ?cs = "colocations item"
  obtain found' wl' where v: "visit_colocations bis ?cs (found, wl) = Inr (found', wl')" "set found' = set found \<union> set ?cs"
      "set wl \<subseteq> set wl'" "\<forall>b\<in>set found' - set found. \<exists>i\<in>set wl'. map_of bis b = Some i"
      "\<forall>i\<in>set wl' - set wl. \<exists>b\<in>set ?cs. map_of bis b = Some i" "distinct found \<longrightarrow> distinct found'"
    using visit_colocations_ok [of ?cs bis found wl] "2.prems"(2) by auto
  have "frontier bis wl' found'"
    unfolding frontier_def
  proof (intro conjI ballI)
    show "distinct found'" using v(6) "2.prems"(3) by (simp add: frontier_def)
    fix b assume b: "b \<in> set found'"
    show "\<exists>i. map_of bis b = Some i \<and> (i \<in> set wl' \<or> set (colocations i) \<subseteq> set found')"
    proof (cases "b \<in> set found")
      case True
      then obtain i where "map_of bis b = Some i" "i \<in> set (item # wl) \<or> set (colocations i) \<subseteq> set found"
        using "2.prems"(3) by (auto simp: frontier_def)
      then show ?thesis using v(2,3) by auto
    qed (use b v(4) in blast)
  qed
  moreover have new: "\<exists>b\<in>set ?cs. map_of bis b = Some i" if "i \<in> set wl'" "i \<notin> set wl" for i using v(5) that by blast
  have "\<forall>i\<in>set wl'. set (colocations i) \<subseteq> dom (map_of bis)"
    using new "2.prems"(1,2) by (metis list.set_intros(2) ranI sharing_closed_def)
  ultimately obtain r where r: "colocations_loop bis found' wl' = Inr r" "distinct r"
      "set r = set found' \<union> reached bis (concat (map colocations wl')) \<union> reached bis found'"
    using "2.IH" [OF v(1)] "2.prems"(1) by auto
  have "reached bis (concat (map colocations wl')) \<subseteq> reached bis (concat (map colocations wl)) \<union> reached bis ?cs"
  proof
    fix c assume "c \<in> reached bis (concat (map colocations wl'))"
    then obtain i d where c: "i \<in> set wl'" "d \<in> set (colocations i)" "(d, c) \<in> (shares bis)\<^sup>*" by (auto simp: reached_def)
    show "c \<in> reached bis (concat (map colocations wl)) \<union> reached bis ?cs"
    proof (cases "i \<in> set wl")
      case False
      then obtain b where "b \<in> set ?cs" "map_of bis b = Some i" using new c(1) by blast
      then have "b \<in> set ?cs" "(b, c) \<in> (shares bis)\<^sup>*"
        using c(2,3) by (auto simp: shares_def intro: converse_rtrancl_into_rtrancl)
      then show ?thesis by (auto simp: reached_def)
    qed (use c in \<open>auto simp: reached_def\<close>)
  qed
  moreover have "reached bis (concat (map colocations wl)) \<subseteq> reached bis (concat (map colocations wl'))"
    using v(3) by (auto simp: reached_def)
  moreover have "reached bis found' = reached bis found \<union> reached bis ?cs" using v(2) by (auto simp: reached_def)
  moreover have "reached bis (concat (map colocations (item # wl))) = reached bis ?cs \<union> reached bis (concat (map colocations wl))"
    by (auto simp: reached_def)
  moreover have "set ?cs \<subseteq> reached bis ?cs" by (auto simp: reached_def)
  ultimately have "set r = set found \<union> reached bis (concat (map colocations (item # wl))) \<union> reached bis found"
    using r(3) v(2) by blast
  then show ?case using r(1,2) v(1) by simp
qed

lemma GetTransitiveColocations_ok:
  assumes "sharing_closed (buffer_intervals h)" "set (colocations i) \<subseteq> dom (map_of (buffer_intervals h))"
  shows "\<exists>cs. GetTransitiveColocations h i = Inr cs \<and> distinct cs \<and> set cs = reached (buffer_intervals h) (colocations i)"
  using colocations_loop_ok [OF assms(1), of "[i]" "[]"] assms(2)
  by (simp add: GetTransitiveColocations_def frontier_def reached_def)

section \<open>The best fit for an unsliced buffer\<close>

definition whole_finder :: "FreeChunks \<Rightarrow> int \<Rightarrow> int \<Rightarrow> int \<Rightarrow> SlicedAllocationFinder" where
  "whole_finder F s m al = \<lparr>sorted_slice_sizes = [s], max_colocation_size = m, preferred_offset = - 1, finder_alignment = al,
     finder_roots = initial_roots 0 F, slice_time_permutations = [[0]], is_offset_allowed = \<lambda>_. True\<rparr>"

lemma whole_finder_simps [simp]:
  "sorted_slice_sizes (whole_finder F s m al) = [s]" "max_colocation_size (whole_finder F s m al) = m"
  "finder_alignment (whole_finder F s m al) = al" "finder_roots (whole_finder F s m al) = initial_roots 0 F"
  by (simp_all add: whole_finder_def)

lemma MakeFinder_single:
  assumes "chunks_ok F" "s \<le> m"
  shows "MakeSlicedAllocationFinder [F] [s] m (- 1) al [[0]] (\<lambda>_. True) = Inr (whole_finder F s m al)"
  using foldE_insert_root [OF assms(1), of "[]" 0] assms(2)
  by (simp add: MakeSlicedAllocationFinder_def whole_finder_def)

definition fits_root :: "int \<Rightarrow> FreeChunkRoot \<Rightarrow> bool" where
  "fits_root m r \<longleftrightarrow> offset (root_chunk r) + m \<le> Chunk_end (root_chunk r)"

definition whole_chunks :: "int \<Rightarrow> int \<Rightarrow> FreeChunkRoot \<Rightarrow> Chunk list" where
  "whole_chunks s m r = [FromOffsetSize (offset (root_chunk r)) s, FromOffsetSize (offset (root_chunk r) + s) (m - s)]"

lemma FindInRoot_single:
  assumes "c \<in> set F" "fst c < snd c" "0 < al" "al dvd fst c" "0 \<le> fst c" "0 < s" "s \<le> m"
  defines "r \<equiv> MakeFreeChunkRoot (FromOffsetEnd (fst c) (snd c)) 0"
  shows "FindInRoot (whole_finder F s m al) r None = Inr (if fits_root m r then whole_chunks s m r else [])"
proof -
  let ?f = "whole_finder F s m al"
  have r: "root_ok r" "offset (root_chunk r) = fst c" "Chunk_end (root_chunk r) = snd c" "length (root_pieces r) = 1"
    using assms(2) by (simp_all add: r_def MakeFreeChunkRoot_def root_ok_def)
  have eq: "FindInRoot ?f r None = offset_loop ?f r (fst c) (snd c)"
    using assms(3-5) r(2,3) by (simp add: FindInRoot_def whole_finder_def cmod_pos Let_def dvd_eq_mod_eq_0)
  show ?thesis
  proof (cases "fst c + m \<le> snd c")
    case True
    have "placement_ok ?f [0] r (fst c)"
      using True assms(2,6,7) r by (auto simp: placement_ok_def whole_finder_def r_def MakeFreeChunkRoot_def in_chunk_def)
    then have "DoesPermutationFit ?f [0] r (fst c) = Inr ()"
      using DoesPermutationFit_complete [OF r(1), of ?f "[0]" "fst c"] assms(6) by (simp add: whole_finder_def)
    then have "fitting_permutation ?f r (fst c) = Some [0]" by (simp add: fitting_permutation_def whole_finder_def)
    then have "offset_loop ?f r (fst c) (snd c) = PermutationToChunks ?f [0] (fst c)"
      using True assms(3) by (simp add: offset_loop.simps [of ?f])
    also have "\<dots> = Inr (whole_chunks s m r)" using r(2) by (simp add: PermutationToChunks_def whole_finder_def whole_chunks_def)
    finally show ?thesis using eq True r by (simp add: fits_root_def)
  next
    case False
    then show ?thesis using eq assms(3) r by (simp add: offset_loop.simps [of ?f] fits_root_def)
  qed
qed

lemma find_in_roots_single:
  assumes "set rs \<subseteq> snd ` set (initial_roots 0 F)" "0 < al" "\<forall>c\<in>set F. al dvd fst c \<and> 0 \<le> fst c" "0 < s" "s \<le> m"
  shows "find_in_roots (whole_finder F s m al) rs =
    Inr (case find (fits_root m) rs of None \<Rightarrow> [] | Some r \<Rightarrow> whole_chunks s m r)"
  using assms(1)
proof (induction rs)
  case (Cons r rs)
  then obtain c where c: "c \<in> set F" "fst c < snd c" "r = MakeFreeChunkRoot (FromOffsetEnd (fst c) (snd c)) 0"
    by (auto simp: initial_roots_def)
  have "FindInRoot (whole_finder F s m al) r None = Inr (if fits_root m r then whole_chunks s m r else [])"
    unfolding c(3) using FindInRoot_single [OF c(1,2) assms(2)] assms(3-5) c(1) by blast
  then show ?case using Cons by (simp add: whole_chunks_def)
qed simp

text \<open>The first root of the heap that fits is the smallest one that fits.\<close>

lemma find_sorted_least:
  "sorted (map g xs) \<Longrightarrow> find P xs = Some x \<Longrightarrow> y \<in> set xs \<Longrightarrow> P y \<Longrightarrow> g x \<le> g y"
  by (induction xs) (auto split: if_splits)

lemma Find_single:
  assumes "chunks_ok F" "0 < al" "\<forall>c\<in>set F. al dvd fst c \<and> 0 \<le> fst c" "0 < s" "s \<le> m" "\<exists>c\<in>set F. fst c + m \<le> snd c"
  shows "\<exists>c\<in>set F. Find (whole_finder F s m al) = Inr [FromOffsetSize (fst c) s, FromOffsetSize (fst c + s) (m - s)] \<and>
    fst c + m \<le> snd c \<and> (\<forall>d\<in>set F. fst d + m \<le> snd d \<longrightarrow> snd c - fst c \<le> snd d - fst d)"
proof -
  let ?f = "whole_finder F s m al"
  let ?root = "\<lambda>c. MakeFreeChunkRoot (FromOffsetEnd (fst c) (snd c)) 0"
  have roots: "snd ` set (finder_roots ?f) = ?root ` {c \<in> set F. fst c < snd c}"
    by (simp add: initial_roots_def image_image)
  have simps [simp]: "chunk_size (root_chunk (?root c)) = snd c - fst c" "fits_root m (?root c) \<longleftrightarrow> fst c + m \<le> snd c"
      "whole_chunks s m (?root c) = [FromOffsetSize (fst c) s, FromOffsetSize (fst c + s) (m - s)]" for c
    by (simp_all add: MakeFreeChunkRoot_def fits_root_def whole_chunks_def)
  have "Find ?f = find_in_roots ?f (root_heap ?f)" by (simp add: Find_def whole_finder_def)
  then have F: "Find ?f = Inr (case find (fits_root m) (root_heap ?f) of None \<Rightarrow> [] | Some r \<Rightarrow> whole_chunks s m r)"
    using find_in_roots_single [of "root_heap ?f" F al s m] assms(2-5) by (simp add: whole_finder_def)
  have in_heap: "?root d \<in> set (root_heap ?f)" if "d \<in> set F" "fst d + m \<le> snd d" for d
    using that assms(4,5) unfolding set_root_heap roots by auto
  have "find (fits_root m) (root_heap ?f) \<noteq> None"
    using assms(6) in_heap simps(2) unfolding find_None_iff by blast
  then obtain r where r: "find (fits_root m) (root_heap ?f) = Some r" by blast
  then have "r \<in> set (root_heap ?f)" "fits_root m r" by (metis find_Some_iff nth_mem)+
  then obtain c where c: "c \<in> set F" "r = ?root c" "fst c + m \<le> snd c"
    unfolding set_root_heap roots using simps(2) by (elim imageE) blast
  have srt: "sorted (map (\<lambda>r. chunk_size (root_chunk r)) (root_heap ?f))" by (simp add: root_heap_def)
  have "snd c - fst c \<le> snd d - fst d" if "d \<in> set F" "fst d + m \<le> snd d" for d
    using find_sorted_least [OF srt r in_heap [OF that]] that c(2) by simp
  then show ?thesis using F r c by auto
qed

section \<open>Intervals of a group\<close>

definition members :: "(buffer \<times> BufferInterval) list \<Rightarrow> BufferInterval \<Rightarrow> BufferInterval set" where
  "members bis i = {j. \<exists>b\<in>reached bis (colocations i). map_of bis b = Some j}"

definition colocations_known :: "(buffer \<times> BufferInterval) list \<Rightarrow> BufferInterval \<Rightarrow> bool" where
  "colocations_known bis i \<longleftrightarrow> sharing_closed bis \<and> set (colocations i) \<subseteq> dom (map_of bis)"

lemma reached_known:
  assumes "colocations_known bis i"
  shows "reached bis (colocations i) \<subseteq> dom (map_of bis)"
proof
  fix b assume "b \<in> reached bis (colocations i)"
  then obtain a where a: "a \<in> set (colocations i)" "(a, b) \<in> (shares bis)\<^sup>*" by (auto simp: reached_def)
  from a(2,1) show "b \<in> dom (map_of bis)"
  proof (induction rule: rtrancl_induct)
    case base
    then show ?case using assms by (auto simp: colocations_known_def)
  next
    case (step y z)
    then obtain j where "map_of bis y = Some j" "z \<in> set (colocations j)" by (auto simp: shares_def)
    then show ?case using assms by (metis colocations_known_def sharing_closed_def ranI subsetD)
  qed
qed

lemma colocated_intervals:
  assumes "colocations_known (buffer_intervals h) i"
  obtains cs js where "GetTransitiveColocations h i = Inr cs" "mapE (map_at (buffer_intervals h)) cs = Inr js"
    "distinct cs" "set cs = reached (buffer_intervals h) (colocations i)" "set js = members (buffer_intervals h) i"
proof -
  let ?bis = "buffer_intervals h"
  obtain cs where cs: "GetTransitiveColocations h i = Inr cs" "distinct cs" "set cs = reached ?bis (colocations i)"
    using GetTransitiveColocations_ok [of h i] assms by (auto simp: colocations_known_def)
  have "\<forall>b\<in>set cs. \<exists>j. map_of ?bis b = Some j" using reached_known [OF assms] cs(3) by blast
  then have "mapE (map_at ?bis) cs = Inr (map (\<lambda>b. the (map_of ?bis b)) cs)"
    by (intro mapE_all_Inr) (auto simp: map_at_def)
  moreover have "set (map (\<lambda>b. the (map_of ?bis b)) cs) = members ?bis i"
    using \<open>\<forall>b\<in>set cs. \<exists>j. map_of ?bis b = Some j\<close> cs(3) by (force simp: members_def image_iff)
  ultimately show ?thesis using that cs by blast
qed

lemma foldl_max:
  "foldl (\<lambda>m i. max m (g i)) (x :: int) js \<in> insert x (g ` set js) \<and>
   (\<forall>y\<in>insert x (g ` set js). y \<le> foldl (\<lambda>m i. max m (g i)) x js)"
proof (induction js arbitrary: x)
  case (Cons i js)
  show ?case using Cons.IH [of "max x (g i)"] by (auto simp: max_def split: if_splits)
qed simp

definition is_group_size :: "(buffer \<times> BufferInterval) list \<Rightarrow> BufferInterval \<Rightarrow> int \<Rightarrow> bool" where
  "is_group_size bis i m \<longleftrightarrow> m \<in> bi_size ` insert i (members bis i) \<and> (\<forall>j\<in>insert i (members bis i). bi_size j \<le> m)"

lemma GetMaxColocationSize_ok:
  assumes "colocations_known (buffer_intervals h) i"
  shows "\<exists>m. GetMaxColocationSize h i = Inr m \<and> is_group_size (buffer_intervals h) i m"
proof -
  obtain cs js where c: "GetTransitiveColocations h i = Inr cs" "mapE (map_at (buffer_intervals h)) cs = Inr js"
      "set js = members (buffer_intervals h) i" using colocated_intervals [OF assms] by metis
  show ?thesis using foldl_max [of bi_size "bi_size i" js] c by (simp add: GetMaxColocationSize_def is_group_size_def)
qed

lemma is_group_size_unique: "is_group_size bis i m \<Longrightarrow> is_group_size bis i m' \<Longrightarrow> m = m'"
  unfolding is_group_size_def by (metis antisym imageE)

text \<open>The chunks in the way of an interval: those of the tree in use at a time at which a buffer of the group lives.\<close>

definition in_the_way :: "BestFitHeap \<Rightarrow> BufferInterval \<Rightarrow> interval set" where
  "in_the_way h i = {n \<in> set (inorder (interval_tree h)).
     \<exists>j\<in>insert i (members (buffer_intervals h) i). overlaps_time (bi_start j) (bi_end j) n}"

lemma ChunksOverlapping_set:
  assumes "tree_ok t"
  shows "set (ChunksOverlappingInTime s e t) = (\<lambda>n. snd (snd n)) ` {n \<in> set (inorder t). overlaps_time s e n}"
proof -
  have "set (NodesOverlappingInTime s e t) = {n \<in> set (inorder t). overlaps_time s e n}"
    using NodesOverlappingInTime_intervals [OF assms, of s e] by (metis mset_filter set_mset_mset set_filter)
  then show ?thesis by (simp add: ChunksOverlappingInTime_def case_prod_beta)
qed

lemma UsedChunks_ok:
  assumes "colocations_known (buffer_intervals h) i" "tree_ok (interval_tree h)"
  shows "\<exists>used. UsedChunks h i = Inr used \<and> set used = (\<lambda>n. snd (snd n)) ` in_the_way h i"
proof -
  obtain cs js where c: "GetTransitiveColocations h i = Inr cs" "mapE (map_at (buffer_intervals h)) cs = Inr js"
      "set js = members (buffer_intervals h) i" using colocated_intervals [OF assms(1)] by metis
  show ?thesis
    using c ChunksOverlapping_set [OF assms(2)] by (auto simp: UsedChunks_def in_the_way_def)
qed

text \<open>The state in which an interval can be placed: room for the group above everything placed so far.\<close>

definition placeable_in :: "BestFitHeap \<Rightarrow> BufferInterval \<Rightarrow> int \<Rightarrow> int \<Rightarrow> bool" where
  "placeable_in h i m hi \<longleftrightarrow> 0 < alignment h \<and> colocations_known (buffer_intervals h) i \<and> tree_ok (interval_tree h) \<and>
     is_group_size (buffer_intervals h) i m \<and> 0 < bi_size i \<and>
     (\<forall>n\<in>set (inorder (interval_tree h)). offset (snd (snd n)) \<le> Chunk_end (snd (snd n)) \<and> Chunk_end (snd (snd n)) + alignment h \<le> hi) \<and>
     0 \<le> hi \<and> hi + m \<le> kint64max"

lemma FindChunkCandidate_eq:
  assumes "GetMaxColocationSize h i = Inr m" "MakeFreeChunks h i m = Inr F" "chunks_ok F" "bi_size i \<le> m"
    "Find (whole_finder F (bi_size i) m (alignment h)) = Inr [c, d]"
  shows "FindChunkCandidate h i (- 1) = Inr c"
proof -
  let ?sl = "\<lparr>full_buffer_interval = i, is_mutable = False, slice_sizes_sorted_by_offset = [bi_size i], make_free_chunks_intervals = [i]\<rparr>"
  have "CreateSlicedAllocationFinder h ?sl m (- 1) [[0]] (\<lambda>_. True) = Inr (whole_finder F (bi_size i) m (alignment h))"
    using assms(2) MakeFinder_single [OF assms(3,4), of "alignment h"]
    by (simp add: CreateSlicedAllocationFinder_def num_slices_def IntervalForMakeFreeChunks_def at_index_def)
  then have "FindChunkCandidates h ?sl (- 1) = Inr [c]"
    using assms(1,5) single_slice_permutations [of "slice_time_permutation_iteration_type h" "bi_start i"]
    by (simp add: FindChunkCandidates_def inclusive_start_times_def PostProcessFindChunkCandidatesResult_def num_slices_def)
  then show ?thesis by (simp add: FindChunkCandidate_def CreateConstInterval_def Slice_def)
qed

lemma FindChunkCandidate_ok:
  assumes "placeable_in h i m hi"
  shows "\<exists>F c. MakeFreeChunks h i m = Inr F \<and> c \<in> set F \<and> FindChunkCandidate h i (- 1) = Inr (FromOffsetSize (fst c) (bi_size i)) \<and>
    fst c + m \<le> snd c \<and> (\<forall>d\<in>set F. fst d + m \<le> snd d \<longrightarrow> snd c - fst c \<le> snd d - fst d) \<and>
    places_covered (alignment h) (bi_size i) ((\<lambda>n. snd (snd n)) ` in_the_way h i) F \<and> alignment h dvd fst c \<and> 0 \<le> fst c \<and> fst c \<le> hi \<and>
    (\<forall>n\<in>in_the_way h i. apart c (offset (snd (snd n))) (Chunk_end (snd (snd n))))"
proof -
  note a = assms [unfolded placeable_in_def]
  have "bi_size i \<le> m" using a by (simp add: is_group_size_def)
  moreover obtain m' where m': "GetMaxColocationSize h i = Inr m'" "is_group_size (buffer_intervals h) i m'"
    using GetMaxColocationSize_ok a by blast
  have "m' = m" using is_group_size_unique [OF m'(2)] a by blast
  ultimately have m: "bi_size i \<le> m" "GetMaxColocationSize h i = Inr m" using m'(1) by simp_all
  obtain used where used: "UsedChunks h i = Inr used" "set used = (\<lambda>n. snd (snd n)) ` in_the_way h i"
    using UsedChunks_ok [of h i] a by blast
  have "\<forall>c\<in>set used. offset c \<le> Chunk_end c" "\<forall>c\<in>set used. Chunk_end c + alignment h \<le> hi"
    using a unfolding used(2) in_the_way_def by blast+
  then obtain F where F: "MakeFreeChunks h i m = Inr F" "chunks_ok F" "\<exists>x. (x, kint64max) \<in> set F"
      "\<forall>x\<in>set F. 0 \<le> fst x \<and> fst x \<le> hi \<and> alignment h dvd fst x \<and> (\<forall>c\<in>set used. apart x (offset c) (Chunk_end c))"
      "places_covered (alignment h) (bi_size i) (set used) F"
    using MakeFreeChunks_ok [OF used(1), of hi m] a m(1) by auto
  obtain x where x: "(x, kint64max) \<in> set F" using F(3) by blast
  have "hi + m \<le> kint64max" using a by blast
  then have "\<exists>c\<in>set F. fst c + m \<le> snd c" using F(4) x by (intro bexI [OF _ x]) auto
  then obtain c where c: "c \<in> set F" "Find (whole_finder F (bi_size i) m (alignment h)) =
        Inr [FromOffsetSize (fst c) (bi_size i), FromOffsetSize (fst c + bi_size i) (m - bi_size i)]"
      "fst c + m \<le> snd c" "\<forall>d\<in>set F. fst d + m \<le> snd d \<longrightarrow> snd c - fst c \<le> snd d - fst d"
    using Find_single [OF F(2), of "alignment h" "bi_size i" m] F(4) a m(1) by auto
  have "\<forall>n\<in>in_the_way h i. apart c (offset (snd (snd n))) (Chunk_end (snd (snd n)))" using F(4) c(1) used(2) by blast
  then show ?thesis using FindChunkCandidate_eq [OF m(2) F(1,2) m(1) c(2)] F(1,4) F(5) [unfolded used(2)] c by blast
qed

section \<open>Committing a chunk\<close>

lemma map_of_emplace: "map_of (fst (emplace k v m)) = (if k \<in> dom (map_of m) then map_of m else (map_of m)(k \<mapsto> v))"
  by (auto simp: emplace_def map_add_def fun_eq_iff split: option.splits)

text \<open>The fields that a commit leaves alone.\<close>

definition same_intervals :: "BestFitHeap \<Rightarrow> BestFitHeap \<Rightarrow> bool" where
  "same_intervals h h' \<longleftrightarrow> buffer_intervals h' = buffer_intervals h \<and> alignment h' = alignment h \<and>
     slice_time_permutation_iteration_type h' = slice_time_permutation_iteration_type h \<and>
     buffer_interval_compare h' = buffer_interval_compare h"

lemma same_intervals_refl [simp]: "same_intervals h h"
  by (simp add: same_intervals_def)

lemma GetTransitiveColocations_same: "same_intervals h h' \<Longrightarrow> GetTransitiveColocations h' i = GetTransitiveColocations h i"
  by (simp add: same_intervals_def GetTransitiveColocations_def)

lemma GetMaxColocationSize_same: "same_intervals h h' \<Longrightarrow> GetMaxColocationSize h' i = GetMaxColocationSize h i"
  by (simp add: same_intervals_def GetTransitiveColocations_def GetMaxColocationSize_def)

lemma AddToChunkMap_simps [simp]:
  "heap_size (heap_result (AddToChunkMap b c h)) = heap_size (heap_result h)" "interval_tree (AddToChunkMap b c h) = interval_tree h"
  "map_of (chunk_map (heap_result (AddToChunkMap b c h))) =
     (if b \<in> dom (map_of (chunk_map (heap_result h))) then map_of (chunk_map (heap_result h))
      else (map_of (chunk_map (heap_result h)))(b \<mapsto> c))"
  "same_intervals h' (AddToChunkMap b c h) \<longleftrightarrow> same_intervals h' h"
  by (simp_all add: AddToChunkMap_def map_of_emplace same_intervals_def)

lemma set_heap_size_simps [simp]:
  "heap_size (heap_result (set_heap_size s h)) = s" "interval_tree (set_heap_size s h) = interval_tree h"
  "chunk_map (heap_result (set_heap_size s h)) = chunk_map (heap_result h)" "same_intervals h' (set_heap_size s h) \<longleftrightarrow> same_intervals h' h"
  by (simp_all add: set_heap_size_def same_intervals_def)

lemma commit_fold:
  defines "step \<equiv> \<lambda>c h b. AddToChunkMap b c (set_heap_size (UpdatedHeapSize (heap_result h) c) h)"
  shows "interval_tree (foldl (step c) h cs) = interval_tree h" "same_intervals h' (foldl (step c) h cs) \<longleftrightarrow> same_intervals h' h"
    "Chunk_end c \<le> heap_size (heap_result h) \<Longrightarrow> heap_size (heap_result (foldl (step c) h cs)) = heap_size (heap_result h)"
    "map_of (chunk_map (heap_result (foldl (step c) h cs))) b =
       (case map_of (chunk_map (heap_result h)) b of Some d \<Rightarrow> Some d | None \<Rightarrow> if b \<in> set cs then Some c else None)"
  by (induction cs arbitrary: h) (auto simp: step_def UpdatedHeapSize_def split: option.splits)

definition committed :: "BestFitHeap \<Rightarrow> BufferInterval \<Rightarrow> Chunk \<Rightarrow> BestFitHeap \<Rightarrow> bool" where
  "committed h i c h' \<longleftrightarrow> same_intervals h h' \<and> heap_size (heap_result h') = max (heap_size (heap_result h)) (Chunk_end c) \<and>
     (\<forall>b. map_of (chunk_map (heap_result h')) b = (case map_of (chunk_map (heap_result h)) b of Some d \<Rightarrow> Some d
        | None \<Rightarrow> if b \<in> insert (bi_buffer i) (reached (buffer_intervals h) (colocations i)) then Some c else None))"

lemma CommitChunkOnly_ok:
  assumes "colocations_known (buffer_intervals h) i" "is_group_size (buffer_intervals h) i m"
  shows "\<exists>h'. CommitChunkOnly h i (FromOffsetSize off (bi_size i)) = Inr h' \<and> committed h i (FromOffsetSize off m) h' \<and>
    interval_tree h' = interval_tree h"
proof -
  let ?c = "FromOffsetSize off m" and ?bis = "buffer_intervals h"
  obtain cs js where cs: "GetTransitiveColocations h i = Inr cs" "set cs = reached ?bis (colocations i)"
    using colocated_intervals [OF assms(1)] by metis
  have m: "GetMaxColocationSize h i = Inr m"
    using GetMaxColocationSize_ok [OF assms(1)] is_group_size_unique assms(2) by blast
  let ?h0 = "set_heap_size (UpdatedHeapSize (heap_result h) ?c) h"
  let ?h1 = "foldl (\<lambda>h b. AddToChunkMap b ?c (set_heap_size (UpdatedHeapSize (heap_result h) ?c) h)) ?h0 cs"
  have e: "CommitChunkOnly h i (FromOffsetSize off (bi_size i)) = Inr (AddToChunkMap (bi_buffer i) ?c ?h1)"
    using m cs(1) by (simp add: CommitChunkOnly_def FromOffsetSize_def Let_def)
  note f = commit_fold [where c = ?c and h = ?h0 and cs = cs]
  have "heap_size (heap_result ?h1) = max (heap_size (heap_result h)) (Chunk_end ?c)"
    using f(3) by (simp add: UpdatedHeapSize_def)
  moreover have "same_intervals h ?h1" using f(2) [where h' = h] by simp
  moreover have "map_of (chunk_map (heap_result (AddToChunkMap (bi_buffer i) ?c ?h1))) b =
      (case map_of (chunk_map (heap_result h)) b of Some d \<Rightarrow> Some d
        | None \<Rightarrow> if b \<in> insert (bi_buffer i) (reached ?bis (colocations i)) then Some ?c else None)" for b
    using f(4) [where b = b] f(4) [where b = "bi_buffer i"] cs(2) by (auto split: option.splits)
  ultimately show ?thesis using e f(1) by (simp add: committed_def)
qed

lemma Add_fold:
  "tree_ok t \<Longrightarrow> tree_ok (foldl (\<lambda>t i. Add (bi_start i) (bi_end i) c t) t js) \<and>
   set (inorder (foldl (\<lambda>t i. Add (bi_start i) (bi_end i) c t) t js)) = set (inorder t) \<union> (\<lambda>j. (bi_start j, bi_end j, c)) ` set js"
  by (induction js arbitrary: t) (auto simp: Add_ok Add_set)

definition nodes_of :: "(buffer \<times> BufferInterval) list \<Rightarrow> BufferInterval \<Rightarrow> Chunk \<Rightarrow> interval set" where
  "nodes_of bis i c = (\<lambda>j. (bi_start j, bi_end j, c)) ` insert i (members bis i)"

lemma CommitChunkAndInterval_ok:
  assumes "colocations_known (buffer_intervals h) i" "is_group_size (buffer_intervals h) i m" "tree_ok (interval_tree h)"
  shows "\<exists>h'. CommitChunkAndInterval h i (FromOffsetSize off (bi_size i)) = Inr h' \<and> committed h i (FromOffsetSize off m) h' \<and>
    tree_ok (interval_tree h') \<and>
    set (inorder (interval_tree h')) = set (inorder (interval_tree h)) \<union> nodes_of (buffer_intervals h) i (FromOffsetSize off m)"
proof -
  let ?c = "FromOffsetSize off m"
  obtain h1 where h1: "CommitChunkOnly h i (FromOffsetSize off (bi_size i)) = Inr h1" "committed h i ?c h1" "interval_tree h1 = interval_tree h"
    using CommitChunkOnly_ok [OF assms(1,2)] by blast
  have same: "same_intervals h h1" "buffer_intervals h1 = buffer_intervals h" using h1(2) by (simp_all add: committed_def same_intervals_def)
  obtain cs js where cs: "GetTransitiveColocations h i = Inr cs" "mapE (map_at (buffer_intervals h)) cs = Inr js"
      "set js = members (buffer_intervals h) i" using colocated_intervals [OF assms(1)] by metis
  have m: "GetMaxColocationSize h1 i = Inr m"
    using GetMaxColocationSize_ok [OF assms(1)] is_group_size_unique assms(2) GetMaxColocationSize_same [OF same(1)] by metis
  let ?t = "foldl (\<lambda>t i. Add (bi_start i) (bi_end i) ?c t) (Add (bi_start i) (bi_end i) ?c (interval_tree h1)) js"
  have e: "CommitChunkAndInterval h i (FromOffsetSize off (bi_size i)) = Inr (h1\<lparr>interval_tree := ?t\<rparr>)"
    using h1(1) m cs GetTransitiveColocations_same [OF same(1), of i] same(2)
    by (simp add: CommitChunkAndInterval_def Let_def FromOffsetSize_def)
  have t: "tree_ok (Add (bi_start i) (bi_end i) ?c (interval_tree h))" using assms(3) by (rule Add_ok)
  have "committed h i ?c (h1\<lparr>interval_tree := ?t\<rparr>)" using h1(2) by (simp add: committed_def same_intervals_def)
  moreover have "set (inorder ?t) = set (inorder (interval_tree h)) \<union> nodes_of (buffer_intervals h) i ?c"
    using Add_fold [OF t, of ?c js] h1(3) cs(3) by (auto simp: nodes_of_def Add_set)
  ultimately show ?thesis using e Add_fold [OF t, of ?c js] h1(3) by simp
qed

section \<open>Groups of buffers\<close>

text \<open>
  What a sequence of calls establishes about sharing: every buffer is in the table under its own id, a buffer that shares
  has one buffer it was declared to share with, and that one is older; a buffer that needs an allocation shares with none.
\<close>

definition sharing_ok :: "(buffer \<times> BufferInterval) list \<Rightarrow> bool" where
  "sharing_ok bis \<longleftrightarrow> distinct (map fst bis) \<and> (\<forall>x\<in>set bis. bi_buffer (snd x) = fst x) \<and> sharing_closed bis \<and>
     (\<forall>a b i j. (a, b) \<in> shares bis \<longrightarrow> map_of bis a = Some i \<longrightarrow> map_of bis b = Some j \<longrightarrow>
        \<not> need_allocation j \<and> bi_start i < bi_start j) \<and>
     (\<forall>a a' b. (a, b) \<in> shares bis \<longrightarrow> (a', b) \<in> shares bis \<longrightarrow> a = a') \<and>
     (\<forall>b j. map_of bis b = Some j \<longrightarrow> \<not> need_allocation j \<longrightarrow> (\<exists>a. (a, b) \<in> shares bis))"

definition group :: "(buffer \<times> BufferInterval) list \<Rightarrow> buffer \<Rightarrow> buffer set" where
  "group bis b = (shares bis)\<^sup>* `` {b}"

lemma group_reached:
  assumes "map_of bis b = Some i"
  shows "group bis b = insert b (reached bis (colocations i))"
proof
  show "group bis b \<subseteq> insert b (reached bis (colocations i))"
  proof
    fix c assume "c \<in> group bis b"
    then have "(b, c) \<in> (shares bis)\<^sup>*" by (simp add: group_def)
    then show "c \<in> insert b (reached bis (colocations i))"
      using assms by (cases rule: converse_rtranclE) (auto simp: reached_def shares_def)
  qed
  show "insert b (reached bis (colocations i)) \<subseteq> group bis b"
    using assms by (auto simp: group_def reached_def shares_def intro: converse_rtrancl_into_rtrancl)
qed

lemma share_known: "sharing_closed bis \<Longrightarrow> (a, b) \<in> shares bis \<Longrightarrow> \<exists>i j. map_of bis a = Some i \<and> map_of bis b = Some j"
  by (auto simp: shares_def sharing_closed_def) (metis domD ranI subsetD)

lemma groups_disjoint:
  assumes "sharing_ok bis" "map_of bis r = Some i" "need_allocation i" "map_of bis r' = Some i'" "need_allocation i'"
    "b \<in> group bis r" "b \<in> group bis r'"
  shows "r = r'"
proof -
  have no_pred: "(a, r'') \<notin> shares bis" if "map_of bis r'' = Some j" "need_allocation j" for a r'' j
    using that assms(1) share_known [of bis a r''] unfolding sharing_ok_def by (metis option.inject)
  have "single_valued ((shares bis)\<inverse>)" using assms(1) by (auto simp: single_valued_def sharing_ok_def)
  moreover have "(b, r) \<in> ((shares bis)\<inverse>)\<^sup>*" "(b, r') \<in> ((shares bis)\<inverse>)\<^sup>*"
    using assms(6,7) by (simp_all add: group_def rtrancl_converse)
  ultimately have "(r, r') \<in> ((shares bis)\<inverse>)\<^sup>* \<or> (r', r) \<in> ((shares bis)\<inverse>)\<^sup>*" by (rule single_valued_confluent)
  then show ?thesis
    using no_pred [OF assms(2,3)] no_pred [OF assms(4,5)] by (auto elim: converse_rtranclE)
qed

lemma group_covers:
  assumes "sharing_ok bis" "map_of bis b = Some j" "\<forall>x\<in>set bis. 0 \<le> bi_start (snd x)"
  shows "\<exists>r i. map_of bis r = Some i \<and> need_allocation i \<and> b \<in> group bis r"
  using assms(2)
proof (induction "nat (bi_start j)" arbitrary: b j rule: less_induct)
  case less
  show ?case
  proof (cases "need_allocation j")
    case True
    then show ?thesis using less.prems by (auto simp: group_def)
  next
    case False
    then obtain a where a: "(a, b) \<in> shares bis" using less.prems assms(1) unfolding sharing_ok_def by blast
    then obtain i where i: "map_of bis a = Some i" using share_known [OF _ a] assms(1) unfolding sharing_ok_def by blast
    then have "bi_start i < bi_start j" using a less.prems assms(1) unfolding sharing_ok_def by blast
    moreover have "0 \<le> bi_start i" using assms(3) i by (metis map_of_SomeD snd_conv)
    ultimately obtain r k where "map_of bis r = Some k" "need_allocation k" "a \<in> group bis r"
      using less.hyps [of i a] i by auto
    then show ?thesis using a by (auto simp: group_def intro: rtrancl_into_rtrancl)
  qed
qed

lemma sharing_ok_known: "sharing_ok bis \<Longrightarrow> map_of bis b = Some j \<Longrightarrow> colocations i = colocations j \<Longrightarrow> colocations_known bis i"
  unfolding sharing_ok_def colocations_known_def sharing_closed_def by (metis ranI)

section \<open>Placing the groups\<close>

text \<open>The groups placed so far: the interval that needs the allocation, its offset and its size.\<close>

type_synonym placement = "BufferInterval \<times> int \<times> int"

abbreviation placement_chunk :: "placement \<Rightarrow> Chunk" where
  "placement_chunk x \<equiv> FromOffsetSize (fst (snd x)) (snd (snd x))"

definition root_of :: "(buffer \<times> BufferInterval) list \<Rightarrow> BufferInterval \<Rightarrow> bool" where
  "root_of bis i \<longleftrightarrow> (\<exists>j. map_of bis (bi_buffer i) = Some j \<and> need_allocation j \<and> colocations i = colocations j \<and>
     bi_size i = bi_size j \<and> bi_start i = bi_start j \<and> bi_end i = bi_end j)"

definition time_overlap :: "interval \<Rightarrow> interval \<Rightarrow> bool" where
  "time_overlap n n' \<longleftrightarrow> fst n \<le> fst (snd n') \<and> fst n' \<le> fst (snd n)"

definition chunks_apart :: "Chunk \<Rightarrow> Chunk \<Rightarrow> bool" where
  "chunks_apart c d \<longleftrightarrow> Chunk_end c \<le> offset d \<or> Chunk_end d \<le> offset c"

definition placed_apart :: "(buffer \<times> BufferInterval) list \<Rightarrow> placement \<Rightarrow> placement \<Rightarrow> bool" where
  "placed_apart bis x y \<longleftrightarrow> (\<forall>n\<in>nodes_of bis (fst x) (placement_chunk x). \<forall>n'\<in>nodes_of bis (fst y) (placement_chunk y).
     time_overlap n n' \<longrightarrow> chunks_apart (placement_chunk x) (placement_chunk y))"

definition placed_ok :: "BestFitHeap \<Rightarrow> (buffer \<Rightarrow> bool) \<Rightarrow> int \<Rightarrow> placement list \<Rightarrow> bool" where
  "placed_ok h zero M P \<longleftrightarrow> tree_ok (interval_tree h) \<and>
     set (inorder (interval_tree h)) = (\<Union>x\<in>set P. nodes_of (buffer_intervals h) (fst x) (placement_chunk x)) \<and>
     (\<forall>x\<in>set P. root_of (buffer_intervals h) (fst x) \<and> is_group_size (buffer_intervals h) (fst x) (snd (snd x)) \<and>
        0 \<le> fst (snd x) \<and> alignment h dvd fst (snd x) \<and> Chunk_end (placement_chunk x) \<le> heap_size (heap_result h) \<and>
        Chunk_end (placement_chunk x) + alignment h \<le> int (length P) * (M + alignment h) \<and>
        (\<forall>b\<in>group (buffer_intervals h) (bi_buffer (fst x)). map_of (chunk_map (heap_result h)) b = Some (placement_chunk x))) \<and>
     (\<forall>b. b \<in> dom (map_of (chunk_map (heap_result h))) \<longleftrightarrow>
        zero b \<or> (\<exists>x\<in>set P. b \<in> group (buffer_intervals h) (bi_buffer (fst x)))) \<and>
     distinct (map (\<lambda>x. bi_buffer (fst x)) P) \<and>
     (\<forall>x\<in>set P. \<forall>y\<in>set P. bi_buffer (fst x) \<noteq> bi_buffer (fst y) \<longrightarrow> placed_apart (buffer_intervals h) x y)"

lemma placed_apart_sym: "placed_apart bis x y \<Longrightarrow> placed_apart bis y x"
  by (auto simp: placed_apart_def time_overlap_def chunks_apart_def)

lemma Chunk_end_FromOffsetSize [simp]: "Chunk_end (FromOffsetSize a b) = a + b" "offset (FromOffsetSize a b) = a"
  by (simp_all add: Chunk_end_def FromOffsetSize_def)

lemma group_size_bounds:
  assumes "root_of bis i" "is_group_size bis i m" "\<forall>x\<in>set bis. 0 < bi_size (snd x) \<and> bi_size (snd x) \<le> M"
  shows "0 < m" "m \<le> M" "0 < bi_size i"
proof -
  have mem: "0 < bi_size j \<and> bi_size j \<le> M" if "map_of bis b = Some j" for b j
    using assms(3) map_of_SomeD [OF that] by fastforce
  then show i: "0 < bi_size i" using assms(1) by (auto simp: root_of_def)
  have "0 < bi_size j \<and> bi_size j \<le> M" if "j \<in> insert i (members bis i)" for j
    using that mem assms(1) by (auto simp: members_def root_of_def)
  then show "0 < m" "m \<le> M" using assms(2) by (auto simp: is_group_size_def)
qed

lemma nodes_of_node: "n \<in> nodes_of bis i c \<Longrightarrow> snd (snd n) = c \<and>
  (\<exists>j\<in>insert i (members bis i). fst n = bi_start j \<and> fst (snd n) = bi_end j)"
  by (auto simp: nodes_of_def)

lemma placed_ok_room:
  assumes "placed_ok h zero M P" "n \<in> set (inorder (interval_tree h))" "\<forall>x\<in>set (buffer_intervals h). 0 < bi_size (snd x) \<and> bi_size (snd x) \<le> M"
  shows "offset (snd (snd n)) \<le> Chunk_end (snd (snd n)) \<and> Chunk_end (snd (snd n)) + alignment h \<le> int (length P) * (M + alignment h)"
proof -
  obtain x where x: "x \<in> set P" "n \<in> nodes_of (buffer_intervals h) (fst x) (placement_chunk x)"
    using assms(1,2) by (auto simp: placed_ok_def)
  have "root_of (buffer_intervals h) (fst x)" "is_group_size (buffer_intervals h) (fst x) (snd (snd x))"
      "Chunk_end (placement_chunk x) + alignment h \<le> int (length P) * (M + alignment h)"
    using assms(1) x(1) unfolding placed_ok_def by blast+
  then show ?thesis using nodes_of_node [OF x(2)] group_size_bounds(1) [OF _ _ assms(3)] by fastforce
qed

lemma found_apart:
  assumes "placed_ok h zero M P" "x \<in> set P" "fst c + m \<le> snd c"
    "\<forall>n\<in>in_the_way h i. apart c (offset (snd (snd n))) (Chunk_end (snd (snd n)))"
  shows "placed_apart (buffer_intervals h) x (i, fst c, m)"
  unfolding placed_apart_def
proof (intro ballI impI)
  fix n n'
  assume n: "n \<in> nodes_of (buffer_intervals h) (fst x) (placement_chunk x)"
    and n': "n' \<in> nodes_of (buffer_intervals h) (fst (i, fst c, m)) (placement_chunk (i, fst c, m))" and t: "time_overlap n n'"
  obtain j where j: "j \<in> insert i (members (buffer_intervals h) i)" "fst n' = bi_start j" "fst (snd n') = bi_end j"
    using nodes_of_node [OF n'] by auto
  have "n \<in> set (inorder (interval_tree h))" using assms(1,2) n by (auto simp: placed_ok_def)
  moreover have "overlaps_time (bi_start j) (bi_end j) n" using t j by (simp add: overlaps_time_def time_overlap_def)
  ultimately have "n \<in> in_the_way h i" using j(1) by (auto simp: in_the_way_def)
  then have "apart c (offset (placement_chunk x)) (Chunk_end (placement_chunk x))" using assms(4) nodes_of_node [OF n] by fastforce
  then show "chunks_apart (placement_chunk x) (placement_chunk (i, fst c, m))"
    using assms(3) by (auto simp: apart_def chunks_apart_def)
qed

lemma group_root:
  assumes "root_of bis i"
  shows "group bis (bi_buffer i) = insert (bi_buffer i) (reached bis (colocations i))"
  using assms group_reached by (fastforce simp: root_of_def)

lemma group_known: "sharing_ok bis \<Longrightarrow> root_of bis i \<Longrightarrow> group bis (bi_buffer i) \<subseteq> dom (map_of bis)"
  using group_root reached_known sharing_ok_known by (fastforce simp: root_of_def)

text \<open>What placing relies on about the table of intervals; \<open>zero\<close> names the buffers of size 0.\<close>

definition table_ok :: "BestFitHeap \<Rightarrow> (buffer \<Rightarrow> bool) \<Rightarrow> int \<Rightarrow> bool" where
  "table_ok h zero M \<longleftrightarrow> 0 < alignment h \<and> sharing_ok (buffer_intervals h) \<and>
     (\<forall>x\<in>set (buffer_intervals h). 0 < bi_size (snd x) \<and> bi_size (snd x) \<le> M) \<and>
     (\<forall>b. zero b \<longrightarrow> b \<notin> dom (map_of (buffer_intervals h)))"

lemma table_ok_same: "table_ok h zero M \<Longrightarrow> same_intervals h h' \<Longrightarrow> table_ok h' zero M"
  by (simp add: table_ok_def same_intervals_def)

lemma group_unassigned:
  assumes "placed_ok h zero M P" "table_ok h zero M" "root_of (buffer_intervals h) i" "\<forall>x\<in>set P. bi_buffer (fst x) \<noteq> bi_buffer i"
    "b \<in> group (buffer_intervals h) (bi_buffer i)"
  shows "map_of (chunk_map (heap_result h)) b = None"
proof (rule ccontr)
  assume "map_of (chunk_map (heap_result h)) b \<noteq> None"
  then have "zero b \<or> (\<exists>x\<in>set P. b \<in> group (buffer_intervals h) (bi_buffer (fst x)))"
    using assms(1) unfolding placed_ok_def by (metis domIff)
  moreover have "\<not> zero b" using group_known assms(2,3,5) unfolding table_ok_def by blast
  ultimately obtain x where x: "x \<in> set P" "b \<in> group (buffer_intervals h) (bi_buffer (fst x))" by blast
  have "root_of (buffer_intervals h) (fst x)" using assms(1) x(1) unfolding placed_ok_def by blast
  then have "bi_buffer (fst x) = bi_buffer i"
    using groups_disjoint [of "buffer_intervals h"] assms(2,3,5) x(2) unfolding table_ok_def root_of_def by metis
  then show False using assms(4) x(1) by blast
qed

lemma placed_ok_extend:
  assumes P: "placed_ok h zero M P" and T: "table_ok h zero M" and i: "root_of (buffer_intervals h) i"
    and new: "\<forall>x\<in>set P. bi_buffer (fst x) \<noteq> bi_buffer i" and m: "is_group_size (buffer_intervals h) i m"
    and off: "0 \<le> off" "alignment h dvd off" "off + m + alignment h \<le> int (length P) * (M + alignment h) + (M + alignment h)"
    and h': "committed h i (placement_chunk (i, off, m)) h'" "tree_ok (interval_tree h')"
      "set (inorder (interval_tree h')) = set (inorder (interval_tree h)) \<union> nodes_of (buffer_intervals h) i (placement_chunk (i, off, m))"
    and away: "\<And>x. x \<in> set P \<Longrightarrow> placed_apart (buffer_intervals h) x (i, off, m)"
  shows "placed_ok h' zero M (P @ [(i, off, m)])"
proof -
  let ?bis = "buffer_intervals h" and ?al = "alignment h" and ?hi = "int (length P) * (M + alignment h)" and ?x = "(i, off, m)"
  have same: "same_intervals h h'" "buffer_intervals h' = ?bis" "alignment h' = ?al"
    using h'(1) by (simp_all add: committed_def same_intervals_def)
  have hs: "heap_size (heap_result h') = max (heap_size (heap_result h)) (off + m)" using h'(1) by (simp add: committed_def)
  have cm: "map_of (chunk_map (heap_result h')) b = (case map_of (chunk_map (heap_result h)) b of Some d \<Rightarrow> Some d
      | None \<Rightarrow> if b \<in> group ?bis (bi_buffer i) then Some (placement_chunk ?x) else None)" for b
    using h'(1) unfolding committed_def group_root [OF i] by blast
  have grp: "map_of (chunk_map (heap_result h')) b = Some (placement_chunk ?x)" if "b \<in> group ?bis (bi_buffer i)" for b
    using cm [of b] group_unassigned [OF P T i new that] that by simp
  have len: "int (length (P @ [?x])) * (M + ?al) = ?hi + (M + ?al)" by (simp add: algebra_simps)
  show ?thesis
    unfolding placed_ok_def same len
  proof (intro conjI)
    show "tree_ok (interval_tree h')" by (rule h'(2))
    show "set (inorder (interval_tree h')) = (\<Union>x\<in>set (P @ [?x]). nodes_of ?bis (fst x) (placement_chunk x))"
      using h'(3) P by (auto simp: placed_ok_def)
    show "distinct (map (\<lambda>x. bi_buffer (fst x)) (P @ [?x]))" using P new by (auto simp: placed_ok_def)
    show "\<forall>b. b \<in> dom (map_of (chunk_map (heap_result h'))) \<longleftrightarrow> zero b \<or> (\<exists>x\<in>set (P @ [?x]). b \<in> group ?bis (bi_buffer (fst x)))"
    proof
      fix b
      have "b \<in> dom (map_of (chunk_map (heap_result h'))) \<longleftrightarrow> b \<in> dom (map_of (chunk_map (heap_result h))) \<or> b \<in> group ?bis (bi_buffer i)"
        using cm [of b] by (auto split: option.splits)
      then show "b \<in> dom (map_of (chunk_map (heap_result h'))) \<longleftrightarrow> zero b \<or> (\<exists>x\<in>set (P @ [?x]). b \<in> group ?bis (bi_buffer (fst x)))"
        using P unfolding placed_ok_def by auto
    qed
    show "\<forall>x\<in>set (P @ [?x]). \<forall>y\<in>set (P @ [?x]). bi_buffer (fst x) \<noteq> bi_buffer (fst y) \<longrightarrow> placed_apart ?bis x y"
      using P away placed_apart_sym unfolding placed_ok_def by auto
    show "\<forall>x\<in>set (P @ [?x]). root_of ?bis (fst x) \<and> is_group_size ?bis (fst x) (snd (snd x)) \<and> 0 \<le> fst (snd x) \<and> ?al dvd fst (snd x) \<and>
        Chunk_end (placement_chunk x) \<le> heap_size (heap_result h') \<and> Chunk_end (placement_chunk x) + ?al \<le> ?hi + (M + ?al) \<and>
        (\<forall>b\<in>group ?bis (bi_buffer (fst x)). map_of (chunk_map (heap_result h')) b = Some (placement_chunk x))"
    proof
      fix x assume "x \<in> set (P @ [?x])"
      then consider (old) "x \<in> set P" | (new) "x = ?x" by auto
      then show "root_of ?bis (fst x) \<and> is_group_size ?bis (fst x) (snd (snd x)) \<and> 0 \<le> fst (snd x) \<and> ?al dvd fst (snd x) \<and>
        Chunk_end (placement_chunk x) \<le> heap_size (heap_result h') \<and> Chunk_end (placement_chunk x) + ?al \<le> ?hi + (M + ?al) \<and>
        (\<forall>b\<in>group ?bis (bi_buffer (fst x)). map_of (chunk_map (heap_result h')) b = Some (placement_chunk x))"
      proof cases
        case old
        have x: "root_of ?bis (fst x)" "is_group_size ?bis (fst x) (snd (snd x))" "0 \<le> fst (snd x)" "?al dvd fst (snd x)"
            "Chunk_end (placement_chunk x) \<le> heap_size (heap_result h)" "Chunk_end (placement_chunk x) + ?al \<le> ?hi"
            "\<forall>b\<in>group ?bis (bi_buffer (fst x)). map_of (chunk_map (heap_result h)) b = Some (placement_chunk x)"
          using P old unfolding placed_ok_def by blast+
        have "0 \<le> M + ?al" using group_size_bounds(1,2) [OF i m, of M] T by (simp add: table_ok_def)
        then show ?thesis using x hs cm by auto
      next
        case new
        then show ?thesis using i m off hs grp by auto
      qed
    qed
  qed
qed

lemma place_found:
  assumes P: "placed_ok h zero M P" and T: "table_ok h zero M" and i: "root_of (buffer_intervals h) i"
    and new: "\<forall>x\<in>set P. bi_buffer (fst x) \<noteq> bi_buffer i"
    and room: "(int (length P) + 1) * (M + alignment h) \<le> kint64max"
  shows "\<exists>off m h'. FindChunkCandidate h i (- 1) = Inr (FromOffsetSize off (bi_size i)) \<and> is_group_size (buffer_intervals h) i m \<and>
    off \<le> int (length P) * (M + alignment h) \<and> CommitChunkAndInterval h i (FromOffsetSize off (bi_size i)) = Inr h' \<and> same_intervals h h' \<and>
    heap_size (heap_result h') = max (heap_size (heap_result h)) (off + m) \<and> placed_ok h' zero M (P @ [(i, off, m)])"
proof -
  let ?bis = "buffer_intervals h" and ?al = "alignment h" and ?hi = "int (length P) * (M + alignment h)"
  note T' = T [unfolded table_ok_def]
  have known: "colocations_known ?bis i" using i T' sharing_ok_known unfolding root_of_def by blast
  obtain m where m: "is_group_size ?bis i m" using GetMaxColocationSize_ok [OF known] by blast
  have mb: "0 < m" "m \<le> M" "0 < bi_size i" using group_size_bounds [OF i m, of M] T' by blast+
  have hi: "0 \<le> ?hi" "?hi + (M + ?al) \<le> kint64max" using mb T' room by (simp_all add: algebra_simps)
  have tree: "tree_ok (interval_tree h)" using P by (simp add: placed_ok_def)
  have "placeable_in h i m ?hi"
    unfolding placeable_in_def using placed_ok_room [OF P] T' known tree m mb hi by (intro conjI) auto
  from FindChunkCandidate_ok [OF this] obtain c where c: "FindChunkCandidate h i (- 1) = Inr (FromOffsetSize (fst c) (bi_size i))"
      "fst c + m \<le> snd c" "?al dvd fst c" "0 \<le> fst c" "fst c \<le> ?hi"
      "\<forall>n\<in>in_the_way h i. apart c (offset (snd (snd n))) (Chunk_end (snd (snd n)))" by blast
  let ?x = "(i, fst c, m)"
  obtain h' where h': "CommitChunkAndInterval h i (FromOffsetSize (fst c) (bi_size i)) = Inr h'" "committed h i (placement_chunk ?x) h'"
      "tree_ok (interval_tree h')" "set (inorder (interval_tree h')) = set (inorder (interval_tree h)) \<union> nodes_of ?bis i (placement_chunk ?x)"
    using CommitChunkAndInterval_ok [OF known m tree, of "fst c"] by auto
  have "fst c + m + ?al \<le> ?hi + (M + ?al)" using c(5) mb(2) by simp
  then have "placed_ok h' zero M (P @ [?x])"
    using placed_ok_extend [OF P T i new m c(4,3) _ h'(2-4) found_apart [OF P _ c(2,6)]] by simp
  moreover have "same_intervals h h'" "heap_size (heap_result h') = max (heap_size (heap_result h)) (fst c + m)"
    using h'(2) by (simp_all add: committed_def)
  ultimately show ?thesis using c(1,5) m h'(1) by blast
qed

lemma place_step:
  assumes "placed_ok h zero M P" "table_ok h zero M" "root_of (buffer_intervals h) i" "need_allocation i"
    "\<forall>x\<in>set P. bi_buffer (fst x) \<noteq> bi_buffer i" "(int (length P) + 1) * (M + alignment h) \<le> kint64max"
  shows "\<exists>h' x. place_interval h i = Inr h' \<and> same_intervals h h' \<and> fst x = i \<and> placed_ok h' zero M (P @ [x])"
proof -
  obtain off m h' where "FindChunkCandidate h i (- 1) = Inr (FromOffsetSize off (bi_size i))"
      "CommitChunkAndInterval h i (FromOffsetSize off (bi_size i)) = Inr h'" "same_intervals h h'" "placed_ok h' zero M (P @ [(i, off, m)])"
    using place_found [OF assms(1-3,5,6)] by blast
  then show ?thesis using assms(4) by (fastforce simp: place_interval_def)
qed

lemma foldE_place:
  assumes "placed_ok h zero M P" "table_ok h zero M" "\<forall>i\<in>set js. need_allocation i \<longrightarrow> root_of (buffer_intervals h) i"
    "distinct (map bi_buffer js)" "\<forall>x\<in>set P. \<forall>i\<in>set js. bi_buffer (fst x) \<noteq> bi_buffer i"
    "int (length P + length js) * (M + alignment h) \<le> kint64max" "0 \<le> M"
  shows "\<exists>h' P'. foldE place_interval h js = Inr h' \<and> same_intervals h h' \<and> placed_ok h' zero M P' \<and>
    set (map fst P') = set (map fst P) \<union> {i \<in> set js. need_allocation i}"
  using assms(1-6)
proof (induction js arbitrary: h P)
  case (Cons i js)
  have al: "0 < alignment h" using Cons.prems(2) by (simp add: table_ok_def)
  show ?case
  proof (cases "need_allocation i")
    case False
    have "int (length P + length js) * (M + alignment h) \<le> int (length P + length (i # js)) * (M + alignment h)"
      using al assms(7) by (intro mult_right_mono) auto
    then obtain h' P' where "foldE place_interval h js = Inr h'" "same_intervals h h'" "placed_ok h' zero M P'"
        "set (map fst P') = set (map fst P) \<union> {i \<in> set js. need_allocation i}"
      using Cons.IH [OF Cons.prems(1,2)] Cons.prems(3-6) by auto
    moreover have "place_interval h i = Inr h" using False by (simp add: place_interval_def)
    moreover have "{k \<in> set (i # js). need_allocation k} = {k \<in> set js. need_allocation k}" using False by auto
    ultimately show ?thesis by auto
  next
    case True
    have "(int (length P) + 1) * (M + alignment h) \<le> int (length P + length (i # js)) * (M + alignment h)"
      using al assms(7) by (intro mult_right_mono) auto
    then have "(int (length P) + 1) * (M + alignment h) \<le> kint64max" using Cons.prems(6) by linarith
    moreover have "root_of (buffer_intervals h) i" "\<forall>x\<in>set P. bi_buffer (fst x) \<noteq> bi_buffer i" using Cons.prems(3,5) True by auto
    ultimately obtain h1 x where h1: "place_interval h i = Inr h1" "same_intervals h h1" "fst x = i" "placed_ok h1 zero M (P @ [x])"
      using place_step [OF Cons.prems(1,2)] True by blast
    have s: "buffer_intervals h1 = buffer_intervals h" "alignment h1 = alignment h" using h1(2) by (simp_all add: same_intervals_def)
    have rest: "\<forall>i\<in>set js. need_allocation i \<longrightarrow> root_of (buffer_intervals h1) i" "distinct (map bi_buffer js)"
        "int (length (P @ [x]) + length js) * (M + alignment h1) \<le> kint64max" using Cons.prems(3,4,6) s by auto
    have "\<forall>k\<in>set js. bi_buffer i \<noteq> bi_buffer k" using Cons.prems(4) by force
    then have "\<forall>y\<in>set (P @ [x]). \<forall>k\<in>set js. bi_buffer (fst y) \<noteq> bi_buffer k" using Cons.prems(5) h1(3) by auto
    then obtain h' P' where "foldE place_interval h1 js = Inr h'" "same_intervals h1 h'" "placed_ok h' zero M P'"
        "set (map fst P') = set (map fst (P @ [x])) \<union> {i \<in> set js. need_allocation i}"
      using Cons.IH [OF h1(4) table_ok_same [OF Cons.prems(2) h1(2)] rest(1,2) _ rest(3)] by blast
    moreover have "{k \<in> set (i # js). need_allocation k} = insert i {k \<in> set js. need_allocation k}" using True by auto
    ultimately show ?thesis using h1 by (auto simp: same_intervals_def)
  qed
qed auto

lemma insert_by_mset: "mset (insert_by lt x xs) = add_mset x (mset xs)"
  by (induction xs) auto

lemma c_sort_mset: "mset (c_sort lt xs) = mset xs"
  unfolding c_sort_def by (induction xs) (auto simp: insert_by_mset)

definition same_interval :: "BufferInterval \<Rightarrow> BufferInterval \<Rightarrow> bool" where
  "same_interval j i \<longleftrightarrow> bi_buffer i = bi_buffer j \<and> bi_size i = bi_size j \<and> bi_start i = bi_start j \<and> bi_end i = bi_end j \<and>
     colocations i = colocations j \<and> need_allocation i = need_allocation j"

lemma with_colocation_times_ok:
  assumes "colocations_known (buffer_intervals h) j"
  shows "\<exists>i. with_colocation_times h j = Inr i \<and> same_interval j i"
proof -
  obtain cs js where "GetTransitiveColocations h j = Inr cs" "mapE (map_at (buffer_intervals h)) cs = Inr js"
    using colocated_intervals [OF assms] by metis
  then show ?thesis by (simp add: with_colocation_times_def same_interval_def)
qed

lemma GetSortedBufferIntervals_ok:
  assumes "sharing_ok (buffer_intervals h)"
  shows "\<exists>js. GetSortedBufferIntervals h = Inr js \<and> distinct (map bi_buffer js) \<and> length js = length (buffer_intervals h) \<and>
    (\<forall>i\<in>set js. \<exists>j. map_of (buffer_intervals h) (bi_buffer i) = Some j \<and> same_interval j i) \<and>
    (\<forall>b j. map_of (buffer_intervals h) b = Some j \<longrightarrow> (\<exists>i\<in>set js. same_interval j i))"
proof -
  let ?bis = "buffer_intervals h"
  have d: "distinct (map fst ?bis)" "\<forall>x\<in>set ?bis. bi_buffer (snd x) = fst x" using assms by (auto simp: sharing_ok_def)
  have look: "map_of ?bis (bi_buffer (snd x)) = Some (snd x)" if "x \<in> set ?bis" for x
    using d that by (metis map_of_is_SomeI prod.collapse)
  have "\<exists>i. with_colocation_times h (snd x) = Inr i \<and> same_interval (snd x) i" if "x \<in> set ?bis" for x
    using with_colocation_times_ok sharing_ok_known [OF assms look [OF that]] by blast
  then obtain g where g: "\<And>x. x \<in> set ?bis \<Longrightarrow> with_colocation_times h (snd x) = Inr (g x) \<and> same_interval (snd x) (g x)" by metis
  have "mapE (with_colocation_times h) (map snd ?bis) = Inr (map g ?bis)"
    unfolding mapE_eq_Inr using g by (auto simp: list_all2_conv_all_nth)
  then have e: "GetSortedBufferIntervals h = Inr (c_sort (buffer_interval_compare h) (map g ?bis))"
    by (simp add: GetSortedBufferIntervals_def)
  have ms: "mset (c_sort (buffer_interval_compare h) (map g ?bis)) = mset (map g ?bis)" by (rule c_sort_mset)
  then have set: "set (c_sort (buffer_interval_compare h) (map g ?bis)) = g ` set ?bis" by (metis mset_eq_setD list.set_map)
  have "map bi_buffer (map g ?bis) = map fst ?bis" using g d(2) by (auto simp: same_interval_def)
  then have "distinct (map bi_buffer (c_sort (buffer_interval_compare h) (map g ?bis)))"
    using d(1) ms by (metis mset_eq_imp_distinct_iff mset_map)
  moreover have "\<exists>j. map_of ?bis (bi_buffer i) = Some j \<and> same_interval j i" if "i \<in> g ` set ?bis" for i
    using that g look by (auto simp: same_interval_def)
  moreover have "\<exists>i\<in>g ` set ?bis. same_interval j i" if "map_of ?bis b = Some j" for b j
    using g [OF map_of_SomeD [OF that]] map_of_SomeD [OF that] by auto
  moreover have "length (c_sort (buffer_interval_compare h) (map g ?bis)) = length ?bis" using ms by (metis length_map size_mset)
  ultimately show ?thesis using e set by auto
qed

section \<open>The result of \<open>Finish\<close>\<close>

definition live_at :: "BufferInterval \<Rightarrow> int \<Rightarrow> bool" where
  "live_at i t \<longleftrightarrow> bi_start i \<le> t \<and> t \<le> bi_end i"

text \<open>A plan: every buffer has an aligned chunk of its size within the heap, and buffers of different groups that are live at the same time have disjoint chunks.\<close>

definition valid_plan :: "int \<Rightarrow> (buffer \<times> BufferInterval) list \<Rightarrow> (buffer \<times> Chunk) list \<Rightarrow> int \<Rightarrow> bool" where
  "valid_plan al bis cm limit \<longleftrightarrow>
     (\<forall>b i. map_of bis b = Some i \<longrightarrow> (\<exists>c. map_of cm b = Some c \<and> 0 \<le> offset c \<and> al dvd offset c \<and> bi_size i \<le> chunk_size c \<and>
        Chunk_end c \<le> limit)) \<and>
     (\<forall>r b b'. b \<in> group bis r \<longrightarrow> b' \<in> group bis r \<longrightarrow> map_of cm b = map_of cm b') \<and>
     (\<forall>b b' i i' c c' t. map_of bis b = Some i \<longrightarrow> map_of bis b' = Some i' \<longrightarrow> live_at i t \<longrightarrow> live_at i' t \<longrightarrow>
        map_of cm b = Some c \<longrightarrow> map_of cm b' = Some c' \<longrightarrow> (\<exists>r. b \<in> group bis r \<and> b' \<in> group bis r) \<or> chunks_apart c c')"

definition heap_ready :: "BestFitHeap \<Rightarrow> int \<Rightarrow> bool" where
  "heap_ready h M \<longleftrightarrow> table_ok h (\<lambda>b. b \<in> dom (map_of (chunk_map (heap_result h)))) M \<and>
     (\<forall>x\<in>set (buffer_intervals h). 0 \<le> bi_start (snd x)) \<and> interval_tree h = Nullptr"

lemma member_interval:
  assumes "sharing_ok bis" "root_of bis i" "map_of bis b = Some j" "b \<in> group bis (bi_buffer i)"
  shows "\<exists>k\<in>insert i (members bis i). bi_start k = bi_start j \<and> bi_end k = bi_end j \<and> bi_size k = bi_size j"
  using assms group_root [OF assms(2)] by (auto simp: members_def root_of_def)

text \<open>When every group has been placed, each buffer lies in the group of one placement.\<close>

lemma placed_covers:
  assumes "sharing_ok bis" "\<forall>x\<in>set bis. 0 \<le> bi_start (snd x)" "map_of bis b = Some j"
    "\<forall>r i. map_of bis r = Some i \<longrightarrow> need_allocation i \<longrightarrow> (\<exists>x\<in>set P. bi_buffer (fst x) = r)"
  shows "\<exists>x\<in>set P. b \<in> group bis (bi_buffer (fst x))"
  using group_covers [OF assms(1,3,2)] assms(4) by blast

lemma placed_member:
  assumes "placed_ok h zero M P" "sharing_ok (buffer_intervals h)" "x \<in> set P" "map_of (buffer_intervals h) b = Some j"
    "b \<in> group (buffer_intervals h) (bi_buffer (fst x))"
  shows "map_of (chunk_map (heap_result h)) b = Some (placement_chunk x)" "0 \<le> fst (snd x)" "alignment h dvd fst (snd x)"
    "bi_size j \<le> snd (snd x)" "Chunk_end (placement_chunk x) \<le> heap_size (heap_result h)"
    "(bi_start j, bi_end j, placement_chunk x) \<in> nodes_of (buffer_intervals h) (fst x) (placement_chunk x)"
proof -
  have x: "root_of (buffer_intervals h) (fst x)" "is_group_size (buffer_intervals h) (fst x) (snd (snd x))"
    and fit: "0 \<le> fst (snd x)" "alignment h dvd fst (snd x)" "Chunk_end (placement_chunk x) \<le> heap_size (heap_result h)"
    and cm: "\<forall>b\<in>group (buffer_intervals h) (bi_buffer (fst x)). map_of (chunk_map (heap_result h)) b = Some (placement_chunk x)"
    using assms(1,3) unfolding placed_ok_def by blast+
  show "map_of (chunk_map (heap_result h)) b = Some (placement_chunk x)" using cm assms(5) by blast
  show "0 \<le> fst (snd x)" "alignment h dvd fst (snd x)" "Chunk_end (placement_chunk x) \<le> heap_size (heap_result h)" by (rule fit)+
  obtain k where k: "k \<in> insert (fst x) (members (buffer_intervals h) (fst x))" "bi_start k = bi_start j" "bi_end k = bi_end j"
      "bi_size k = bi_size j"
    using member_interval [OF assms(2) x(1) assms(4,5)] by blast
  show "bi_size j \<le> snd (snd x)" using x(2) k unfolding is_group_size_def by metis
  show "(bi_start j, bi_end j, placement_chunk x) \<in> nodes_of (buffer_intervals h) (fst x) (placement_chunk x)"
    unfolding nodes_of_def using k by (intro image_eqI [of _ _ k]) simp_all
qed

lemma placed_valid:
  assumes P: "placed_ok h zero M P" and sh: "sharing_ok (buffer_intervals h)" and start: "\<forall>x\<in>set (buffer_intervals h). 0 \<le> bi_start (snd x)"
    and all: "\<forall>r i. map_of (buffer_intervals h) r = Some i \<longrightarrow> need_allocation i \<longrightarrow> (\<exists>x\<in>set P. bi_buffer (fst x) = r)"
  shows "valid_plan (alignment h) (buffer_intervals h) (chunk_map (heap_result h)) (heap_size (heap_result h))"
  unfolding valid_plan_def
proof (intro conjI allI impI)
  let ?bis = "buffer_intervals h" and ?cm = "chunk_map (heap_result h)"
  note covers = placed_covers [OF sh start _ all]
  show "\<exists>c. map_of ?cm b = Some c \<and> 0 \<le> offset c \<and> alignment h dvd offset c \<and> bi_size i \<le> chunk_size c \<and>
      Chunk_end c \<le> heap_size (heap_result h)" if b: "map_of ?bis b = Some i" for b i
  proof -
    obtain x where "x \<in> set P" "b \<in> group ?bis (bi_buffer (fst x))" using covers [OF b] by blast
    from placed_member [OF P sh this(1) b this(2)] show ?thesis by (simp add: FromOffsetSize_def)
  qed
  show "map_of ?cm b = map_of ?cm b'" if b: "b \<in> group ?bis r" "b' \<in> group ?bis r" for r b b'
  proof (cases "map_of ?bis r")
    case None
    have "c = r" if "c \<in> group ?bis r" for c
      using that None by (auto simp: group_def shares_def elim: converse_rtranclE)
    then show ?thesis using b by blast
  next
    case (Some i)
    then obtain x where x: "x \<in> set P" "r \<in> group ?bis (bi_buffer (fst x))" using covers by blast
    then have "b \<in> group ?bis (bi_buffer (fst x))" "b' \<in> group ?bis (bi_buffer (fst x))" using b by (auto simp: group_def)
    then show ?thesis using P x(1) unfolding placed_ok_def by (metis (no_types, lifting))
  qed
  show "(\<exists>r. b \<in> group ?bis r \<and> b' \<in> group ?bis r) \<or> chunks_apart c c'"
    if b: "map_of ?bis b = Some i" "map_of ?bis b' = Some i'" and t: "live_at i t" "live_at i' t"
      and c: "map_of ?cm b = Some c" "map_of ?cm b' = Some c'" for b b' i i' c c' t
  proof -
    obtain x y where x: "x \<in> set P" "b \<in> group ?bis (bi_buffer (fst x))" and y: "y \<in> set P" "b' \<in> group ?bis (bi_buffer (fst y))"
      using covers b by meson
    note mx = placed_member [OF P sh x(1) b(1) x(2)] and my = placed_member [OF P sh y(1) b(2) y(2)]
    show ?thesis
    proof (cases "bi_buffer (fst x) = bi_buffer (fst y)")
      case False
      then have "placed_apart ?bis x y" using P x(1) y(1) unfolding placed_ok_def by blast
      moreover have "time_overlap (bi_start i, bi_end i, placement_chunk x) (bi_start i', bi_end i', placement_chunk y)"
        using t by (simp add: time_overlap_def live_at_def)
      ultimately show ?thesis using mx(1,6) my(1,6) c unfolding placed_apart_def by auto
    qed (use x y in metis)
  qed
qed

lemma Finish_valid:
  assumes "heap_ready h M" "int (length (buffer_intervals h)) * (M + alignment h) \<le> kint64max" "0 \<le> M"
  shows "\<exists>res h'. Finish h = Inr (res, h') \<and> heap_results res = [heap_result h'] \<and> total_heap_size res = heap_size (heap_result h') \<and>
    valid_plan (alignment h) (buffer_intervals h) (chunk_map (heap_result h')) (total_heap_size res)"
proof -
  let ?bis = "buffer_intervals h" and ?zero = "\<lambda>b. b \<in> dom (map_of (chunk_map (heap_result h)))"
  have T: "table_ok h ?zero M" and start: "\<forall>x\<in>set ?bis. 0 \<le> bi_start (snd x)" and tree: "interval_tree h = Nullptr"
    using assms(1) by (simp_all add: heap_ready_def)
  have sh: "sharing_ok ?bis" using T by (simp add: table_ok_def)
  obtain js where js: "GetSortedBufferIntervals h = Inr js" "distinct (map bi_buffer js)" "length js = length ?bis"
      "\<forall>i\<in>set js. \<exists>j. map_of ?bis (bi_buffer i) = Some j \<and> same_interval j i"
      "\<forall>b j. map_of ?bis b = Some j \<longrightarrow> (\<exists>i\<in>set js. same_interval j i)"
    using GetSortedBufferIntervals_ok [OF sh] by blast
  have roots: "\<forall>i\<in>set js. need_allocation i \<longrightarrow> root_of ?bis i" using js(4) by (fastforce simp: root_of_def same_interval_def)
  have "placed_ok h ?zero M []" using tree by (simp add: placed_ok_def)
  then obtain h' P where h': "foldE place_interval h js = Inr h'" "same_intervals h h'" "placed_ok h' ?zero M P"
      "set (map fst P) = {i \<in> set js. need_allocation i}"
    using foldE_place [OF _ T roots js(2), of "[]"] js(3) assms(2,3) by auto
  have bis: "buffer_intervals h' = ?bis" "alignment h' = alignment h" using h'(2) by (simp_all add: same_intervals_def)
  have all: "\<exists>x\<in>set P. bi_buffer (fst x) = r" if r: "map_of ?bis r = Some j" "need_allocation j" for r j
  proof -
    obtain i where i: "i \<in> set js" "same_interval j i" using js(5) r(1) by blast
    then have "i \<in> set (map fst P)" using h'(4) r(2) by (simp add: same_interval_def)
    moreover have "bi_buffer j = r" using sh map_of_SomeD [OF r(1)] by (auto simp: sharing_ok_def)
    ultimately show ?thesis using i(2) by (auto simp: same_interval_def)
  qed
  have "valid_plan (alignment h) ?bis (chunk_map (heap_result h')) (heap_size (heap_result h'))"
    using placed_valid [OF h'(3)] sh start all bis by simp
  then show ?thesis using js(1) h'(1) by (simp add: Finish_def)
qed

section \<open>The calls\<close>

text \<open>
  The buffers a sequence of calls introduces, with their sizes, and the invariant of the heap under the calls: the table
  holds the buffers of non-zero size, the chunk map those of size 0, and every interval starts in the past.
\<close>

fun introduced :: "RecordedCall \<Rightarrow> (buffer \<times> int) list" where
  "introduced (kAlloc b s) = [(b, s)]"
| "introduced (kShareWith b w s) = [(b, s)]"
| "introduced (kFree b s) = []"

definition introductions :: "RecordedCall list \<Rightarrow> (buffer \<times> int) list" where
  "introductions calls = concat (map introduced calls)"

definition recorded :: "(buffer \<times> BufferInterval) list \<Rightarrow> buffer \<Rightarrow> int \<Rightarrow> bool" where
  "recorded bis b s \<longleftrightarrow> (\<exists>i. map_of bis b = Some i \<and> bi_size i = s)"

text \<open>No buffer is freed at the time another is allocated: every call takes one unit of time.\<close>

definition ends_apart :: "(buffer \<times> BufferInterval) list \<Rightarrow> int \<Rightarrow> bool" where
  "ends_apart bis t \<longleftrightarrow> (\<forall>x\<in>set bis. bi_end (snd x) < t \<and> (\<forall>y\<in>set bis. bi_end (snd x) \<noteq> bi_start (snd y)))"

definition calls_inv :: "RecordedCall list \<Rightarrow> BestFitHeap \<Rightarrow> bool" where
  "calls_inv calls h \<longleftrightarrow> sharing_ok (buffer_intervals h) \<and> interval_tree h = Nullptr \<and> 0 \<le> current_time h \<and>
     (\<forall>x\<in>set (buffer_intervals h). 0 \<le> bi_start (snd x) \<and> bi_start (snd x) < current_time h) \<and>
     ends_apart (buffer_intervals h) (current_time h) \<and> length (buffer_intervals h) \<le> length (introductions calls) \<and>
     (\<forall>b s. recorded (buffer_intervals h) b s \<longleftrightarrow> s \<noteq> 0 \<and> (b, s) \<in> set (introductions calls)) \<and>
     (\<forall>b. b \<in> dom (map_of (chunk_map (heap_result h))) \<longleftrightarrow> (b, 0) \<in> set (introductions calls))"

lemma map_of_map_set: "map_of (map_set k v m) = (if k \<in> dom (map_of m) then (map_of m)(k \<mapsto> v) else map_of m)"
proof
  show "map_of (map_set k v m) x = (if k \<in> dom (map_of m) then (map_of m)(k \<mapsto> v) else map_of m) x" for x
    by (induction m) (auto simp: map_set_def)
qed

lemma map_fst_map_set [simp]: "map fst (map_set k v m) = map fst m"
  by (induction m) (auto simp: map_set_def)

lemma length_map_set [simp]: "length (map_set k v m) = length m"
  by (simp add: map_set_def)

lemma set_map_set: "x \<in> set (map_set k v m) \<Longrightarrow> x \<in> set m \<or> x = (k, v)"
  by (auto simp: map_set_def)

lemma shares_not_known: "sharing_closed bis \<Longrightarrow> map_of bis b = None \<Longrightarrow> (a, b) \<notin> shares bis \<and> (b, a) \<notin> shares bis"
  using share_known by fastforce

lemma sharing_closed_iff: "sharing_closed bis \<longleftrightarrow> (\<forall>a b. (a, b) \<in> shares bis \<longrightarrow> b \<in> dom (map_of bis))"
  unfolding sharing_closed_def shares_def ran_def by blast

lemma sharing_ok_later:
  assumes "sharing_ok bis" "(a, c) \<in> shares bis"
    "\<exists>k0. map_of bis a = Some k0 \<and> bi_start k0 = bi_start k" "\<exists>k0. map_of bis c = Some k0 \<and> bi_start k0 = bi_start k' \<and> need_allocation k0 = need_allocation k'"
  shows "\<not> need_allocation k' \<and> bi_start k < bi_start k'"
  using assms unfolding sharing_ok_def by metis

lemma sharing_ok_append:
  assumes "sharing_ok bis" "map_of bis b = None" "bi_buffer i = b" "colocations i = []" "need_allocation i"
  shows "sharing_ok (bis @ [(b, i)])"
proof -
  have m: "map_of (bis @ [(b, i)]) = (map_of bis)(b \<mapsto> i)" using assms(2) by (auto simp: map_add_def split: option.splits)
  have sh: "shares (bis @ [(b, i)]) = shares bis" unfolding shares_def m using assms(2,4) by (auto split: if_splits)
  have cl: "sharing_closed (bis @ [(b, i)])" using assms(1) unfolding sharing_ok_def sharing_closed_iff sh m by simp
  have fresh: "(a, b) \<notin> shares bis" "(b, a) \<notin> shares bis" for a using shares_not_known assms(1,2) unfolding sharing_ok_def by blast+
  have b: "b \<notin> fst ` set bis" using assms(2) by (simp add: map_of_eq_None_iff)
  have ids: "distinct (map fst (bis @ [(b, i)]))" "\<forall>x\<in>set (bis @ [(b, i)]). bi_buffer (snd x) = fst x"
    using assms(1,3) b by (auto simp: sharing_ok_def)
  have order: "\<not> need_allocation k' \<and> bi_start k < bi_start k'"
    if k: "(a, c) \<in> shares bis" "((map_of bis)(b \<mapsto> i)) a = Some k" "((map_of bis)(b \<mapsto> i)) c = Some k'" for a c k k'
  proof -
    have "a \<noteq> b" "c \<noteq> b" using k(1) fresh by auto
    then show ?thesis using k(2,3) by (intro sharing_ok_later [OF assms(1) k(1)]) simp_all
  qed
  have parent: "\<exists>a. (a, c) \<in> shares bis" if "((map_of bis)(b \<mapsto> i)) c = Some k" "\<not> need_allocation k" for c k
    using that assms(1,5) unfolding sharing_ok_def by (metis fun_upd_apply option.inject)
  have "\<forall>a a' b. (a, b) \<in> shares bis \<longrightarrow> (a', b) \<in> shares bis \<longrightarrow> a = a'" using assms(1) unfolding sharing_ok_def by blast
  then show ?thesis unfolding sharing_ok_def sh m using ids cl order parent by blast
qed

lemma sharing_ok_share:
  assumes "sharing_ok bis" "map_of bis b = None" "map_of bis w = Some i" "bi_buffer j = b" "colocations j = []" "\<not> need_allocation j"
    "bi_start i < bi_start j"
  shows "sharing_ok (map_set w (i\<lparr>colocations := colocations i @ [b]\<rparr>) bis @ [(b, j)])"
proof -
  let ?i = "i\<lparr>colocations := colocations i @ [b]\<rparr>" let ?new = "map_set w ?i bis @ [(b, j)]"
  have bw: "b \<noteq> w" using assms(2,3) by auto
  have m: "map_of ?new = (map_of bis)(w \<mapsto> ?i, b \<mapsto> j)"
    using assms(2,3) bw by (auto simp: map_of_map_set map_add_def split: option.splits)
  have sh: "shares ?new = insert (w, b) (shares bis)" unfolding shares_def m using assms(2,3,5) bw by (auto simp: fun_upd_def split: if_splits)
  have cl: "sharing_closed ?new" using assms(1) unfolding sharing_ok_def sharing_closed_iff sh m by auto
  have fresh: "(a, b) \<notin> shares bis" "(b, a) \<notin> shares bis" for a using shares_not_known assms(1,2) unfolding sharing_ok_def by blast+
  have b: "b \<notin> fst ` set bis" using assms(2) by (simp add: map_of_eq_None_iff)
  have ids: "\<forall>x\<in>set ?new. bi_buffer (snd x) = fst x" "bi_buffer i = w"
    using assms(1,3,4) by (auto simp: sharing_ok_def dest!: set_map_set map_of_SomeD)
  have d: "distinct (map fst ?new)" using assms(1) b by (simp add: sharing_ok_def flip: set_map)
  have order: "\<not> need_allocation k' \<and> bi_start k < bi_start k'"
    if k: "(a, c) \<in> shares ?new" "map_of ?new a = Some k" "map_of ?new c = Some k'" for a c k k'
  proof (cases "(a, c) = (w, b)")
    case True
    then show ?thesis using k(2,3) assms(6,7) bw unfolding m by auto
  next
    case False
    then have ac: "(a, c) \<in> shares bis" "a \<noteq> b" "c \<noteq> b" using k(1) fresh unfolding sh by auto
    then show ?thesis using k(2,3) assms(3) unfolding m by (intro sharing_ok_later [OF assms(1) ac(1)]) (auto split: if_splits)
  qed
  have single: "a = a'" if "(a, c) \<in> shares ?new" "(a', c) \<in> shares ?new" for a a' c
    using that assms(1) fresh unfolding sh sharing_ok_def by blast
  have parents: "\<exists>a. (a, c) \<in> shares bis" if "map_of bis c = Some k" "\<not> need_allocation k" for c k
    using that assms(1) unfolding sharing_ok_def by blast
  have parent: "\<exists>a. (a, c) \<in> shares ?new" if k: "map_of ?new c = Some k" "\<not> need_allocation k" for c k
  proof (cases "c = b")
    case False
    then have "\<exists>k0. map_of bis c = Some k0 \<and> \<not> need_allocation k0" using k assms(3) unfolding m by (auto split: if_splits)
    then show ?thesis using parents unfolding sh by blast
  qed (auto simp: sh)
  show ?thesis unfolding sharing_ok_def using d ids(1) cl order single parent by blast
qed

lemma sharing_ok_end:
  assumes "sharing_ok bis" "map_of bis b = Some i"
  shows "sharing_ok (map_set b (i\<lparr>bi_end := t\<rparr>) bis)"
proof -
  let ?new = "map_set b (i\<lparr>bi_end := t\<rparr>) bis"
  have m: "map_of ?new = (map_of bis)(b \<mapsto> i\<lparr>bi_end := t\<rparr>)" using assms(2) by (auto simp: map_of_map_set)
  have sh: "shares ?new = shares bis" unfolding shares_def m using assms(2) by (auto split: if_splits)
  have cl: "sharing_closed ?new" using assms(1) unfolding sharing_ok_def sharing_closed_iff sh m by simp
  have ids: "\<forall>x\<in>set ?new. bi_buffer (snd x) = fst x"
    using assms by (auto simp: sharing_ok_def dest!: set_map_set map_of_SomeD)
  have order: "\<not> need_allocation k' \<and> bi_start k < bi_start k'"
    if k: "(a, c) \<in> shares bis" "map_of ?new a = Some k" "map_of ?new c = Some k'" for a c k k'
    using k(2,3) assms(2) unfolding m by (intro sharing_ok_later [OF assms(1) k(1)]) (auto split: if_splits)
  have parent: "\<exists>a. (a, c) \<in> shares bis" if "map_of ?new c = Some k" "\<not> need_allocation k" for c k
    using that assms unfolding m sharing_ok_def by (cases "c = b") auto
  have "\<forall>a a' b. (a, b) \<in> shares bis \<longrightarrow> (a', b) \<in> shares bis \<longrightarrow> a = a'" "distinct (map fst ?new)"
    using assms(1) by (auto simp: sharing_ok_def)
  then show ?thesis unfolding sharing_ok_def sh using ids cl order parent by blast
qed

lemma introductions_simps [simp]:
  "introductions [] = []" "introductions (cs @ [c]) = introductions cs @ introduced c" "introductions (c # cs) = introduced c @ introductions cs"
  by (simp_all add: introductions_def)

lemma recorded_append: "map_of bis b = None \<Longrightarrow> recorded (bis @ [(b, i)]) c s \<longleftrightarrow> recorded bis c s \<or> c = b \<and> s = bi_size i"
  by (auto simp: recorded_def map_add_def split: option.splits)

lemma recorded_map_set: "map_of bis w = Some i \<Longrightarrow> bi_size i' = bi_size i \<Longrightarrow> recorded (map_set w i' bis) c s \<longleftrightarrow> recorded bis c s"
  by (auto simp: recorded_def map_of_map_set dom_def)

lemma starts_map_set:
  assumes "\<forall>x\<in>set bis. 0 \<le> bi_start (snd x) \<and> bi_start (snd x) < t" "map_of bis w = Some i" "bi_start i' = bi_start i"
  shows "\<forall>x\<in>set (map_set w i' bis). 0 \<le> bi_start (snd x) \<and> bi_start (snd x) < t"
proof -
  have "0 \<le> bi_start i \<and> bi_start i < t" using assms(1) map_of_SomeD [OF assms(2)] by fastforce
  then show ?thesis using assms(1,3) by (auto dest!: set_map_set)
qed

lemma ends_apart_append:
  assumes "ends_apart bis t" "bi_end i = - 1" "bi_start i = t" "0 \<le> t" "\<forall>x\<in>set bis. 0 \<le> bi_start (snd x)"
  shows "ends_apart (bis @ [(b, i)]) (t + 1)"
  using assms by (fastforce simp: ends_apart_def)

lemma ends_apart_map_set:
  assumes "ends_apart bis t" "map_of bis w = Some i" "bi_start i' = bi_start i" "bi_end i' = bi_end i"
  shows "ends_apart (map_set w i' bis) t"
proof -
  have w: "(w, i) \<in> set bis" by (rule map_of_SomeD [OF assms(2)])
  then have "\<exists>y\<in>set bis. bi_start (snd x) = bi_start (snd y) \<and> bi_end (snd x) = bi_end (snd y)" if "x \<in> set (map_set w i' bis)" for x
    using set_map_set [OF that] assms(3,4) by force
  then show ?thesis using assms(1) unfolding ends_apart_def by metis
qed

lemma ends_apart_free:
  assumes "ends_apart bis t" "map_of bis w = Some i" "\<forall>x\<in>set bis. bi_start (snd x) < t"
  shows "ends_apart (map_set w (i\<lparr>bi_end := t\<rparr>) bis) (t + 1)"
proof -
  have w: "(w, i) \<in> set bis" by (rule map_of_SomeD [OF assms(2)])
  then have old: "\<exists>y\<in>set bis. bi_start (snd x) = bi_start (snd y) \<and> (bi_end (snd x) = bi_end (snd y) \<or> bi_end (snd x) = t)"
    if "x \<in> set (map_set w (i\<lparr>bi_end := t\<rparr>) bis)" for x
    using set_map_set [OF that] by force
  show ?thesis unfolding ends_apart_def
  proof (intro ballI conjI)
    fix x y assume x: "x \<in> set (map_set w (i\<lparr>bi_end := t\<rparr>) bis)" and y: "y \<in> set (map_set w (i\<lparr>bi_end := t\<rparr>) bis)"
    obtain u v where u: "u \<in> set bis" "bi_end (snd x) = bi_end (snd u) \<or> bi_end (snd x) = t"
        and v: "v \<in> set bis" "bi_start (snd y) = bi_start (snd v)" using old [OF x] old [OF y] by blast
    have e: "bi_end (snd u) < t" "bi_end (snd u) \<noteq> bi_start (snd v)" using assms(1) u(1) v(1) by (auto simp: ends_apart_def)
    have "bi_start (snd v) < t" using assms(3) v(1) by blast
    then show "bi_end (snd x) < t + 1" "bi_end (snd x) \<noteq> bi_start (snd y)" using u(2) v(2) e by auto
  qed
qed

lemma add_interval_Inr:
  "add_interval i h = Inr h' \<longleftrightarrow> map_of (buffer_intervals h) (bi_buffer i) = None \<and>
     h' = h\<lparr>buffer_intervals := buffer_intervals h @ [(bi_buffer i, i)], current_time := current_time h + 1\<rparr>"
  by (auto simp: add_interval_def emplace_def split: option.splits)

lemma calls_inv_zero:
  assumes "calls_inv cs h" "introduced c = [(b, 0)]"
  shows "calls_inv (cs @ [c]) (AddToChunkMap b (FromOffsetSize 0 0) h)"
proof -
  have "map_of (chunk_map (heap_result (AddToChunkMap b (FromOffsetSize 0 0) h))) =
      (if b \<in> dom (map_of (chunk_map (heap_result h))) then map_of (chunk_map (heap_result h))
       else (map_of (chunk_map (heap_result h)))(b \<mapsto> FromOffsetSize 0 0))"
    by (simp add: AddToChunkMap_def map_of_emplace)
  then have cm: "dom (map_of (chunk_map (heap_result (AddToChunkMap b (FromOffsetSize 0 0) h)))) =
      insert b (dom (map_of (chunk_map (heap_result h))))" by (auto split: if_splits)
  have "buffer_intervals (AddToChunkMap b (FromOffsetSize 0 0) h) = buffer_intervals h"
    "interval_tree (AddToChunkMap b (FromOffsetSize 0 0) h) = interval_tree h"
    "current_time (AddToChunkMap b (FromOffsetSize 0 0) h) = current_time h" by (simp_all add: AddToChunkMap_def)
  then show ?thesis using assms unfolding calls_inv_def cm by auto
qed

lemma calls_inv_add:
  assumes "calls_inv cs h" "introduced c = [(b, s)]" "s \<noteq> 0" "map_of bis b = None" "bi_size i = s" "bi_start i = current_time h"
    "sharing_ok (bis @ [(b, i)])" "\<forall>x\<in>set bis. 0 \<le> bi_start (snd x) \<and> bi_start (snd x) < current_time h"
    "length bis = length (buffer_intervals h)" "ends_apart bis (current_time h)" "bi_end i = - 1" "\<And>c t. recorded bis c t \<longleftrightarrow> recorded (buffer_intervals h) c t"
  shows "calls_inv (cs @ [c]) (h\<lparr>buffer_intervals := bis @ [(b, i)], current_time := current_time h + 1\<rparr>)"
proof -
  have rec: "recorded (bis @ [(b, i)]) d t \<longleftrightarrow> t \<noteq> 0 \<and> (d, t) \<in> set (introductions (cs @ [c]))" for d t
    using assms(1-3,5) recorded_append [OF assms(4)] assms(12) unfolding calls_inv_def by auto
  have "\<forall>x\<in>set (bis @ [(b, i)]). 0 \<le> bi_start (snd x) \<and> bi_start (snd x) < current_time h + 1"
    using assms(1,6,8) by (auto simp: calls_inv_def)
  moreover have "ends_apart (bis @ [(b, i)]) (current_time h + 1)"
    using assms(1,6,8,10,11) by (intro ends_apart_append) (auto simp: calls_inv_def)
  ultimately show ?thesis using assms(1-3,7,9) rec by (simp add: calls_inv_def)
qed

lemma Alloc_inv:
  assumes "calls_inv cs h" "Alloc b s h = Inr h'"
  shows "calls_inv (cs @ [kAlloc b s]) h' \<and> alignment h' = alignment h"
proof (cases "s = 0")
  case True
  then show ?thesis using assms calls_inv_zero [OF assms(1), of "kAlloc b s" b] by (auto simp: Alloc_def AddToChunkMap_def)
next
  case False
  let ?i = "new_interval b s (current_time h) True"
  have h': "map_of (buffer_intervals h) b = None"
      "h' = h\<lparr>buffer_intervals := buffer_intervals h @ [(b, ?i)], current_time := current_time h + 1\<rparr>"
    using assms(2) False by (simp_all add: Alloc_def add_interval_Inr new_interval_def)
  have "sharing_ok (buffer_intervals h @ [(b, ?i)])"
    using sharing_ok_append [of "buffer_intervals h" b ?i] h'(1) assms(1) by (simp add: calls_inv_def new_interval_def)
  then show ?thesis
    using calls_inv_add [OF assms(1), of "kAlloc b s" b s "buffer_intervals h" ?i] assms(1) False h'
    by (simp add: calls_inv_def new_interval_def)
qed

lemma ShareWith_inv:
  assumes "calls_inv cs h" "ShareWith b w s h = Inr h'"
  shows "calls_inv (cs @ [kShareWith b w s]) h' \<and> alignment h' = alignment h"
proof (cases "s = 0")
  case True
  then show ?thesis using assms calls_inv_zero [OF assms(1), of "kShareWith b w s" b] by (auto simp: ShareWith_def AddToChunkMap_def)
next
  case False
  let ?j = "new_interval b s (current_time h) False"
  obtain i where i: "map_of (buffer_intervals h) w = Some i"
    using assms(2) False by (auto simp: ShareWith_def split: option.splits)
  let ?bis = "map_set w (i\<lparr>colocations := colocations i @ [b]\<rparr>) (buffer_intervals h)"
  have h': "map_of ?bis b = None" "h' = h\<lparr>buffer_intervals := ?bis @ [(b, ?j)], current_time := current_time h + 1\<rparr>"
    using assms(2) False i by (simp_all add: ShareWith_def add_interval_Inr new_interval_def)
  have b: "map_of (buffer_intervals h) b = None" using h'(1) i by (auto simp: map_of_map_set dom_def split: if_splits)
  have starts: "\<forall>x\<in>set (buffer_intervals h). 0 \<le> bi_start (snd x) \<and> bi_start (snd x) < current_time h"
    using assms(1) by (simp add: calls_inv_def)
  then have "bi_start i < current_time h" using map_of_SomeD [OF i] by fastforce
  then have "sharing_ok (?bis @ [(b, ?j)])"
    using sharing_ok_share [OF _ b i, of ?j] assms(1) by (simp add: calls_inv_def new_interval_def)
  moreover have "\<forall>x\<in>set ?bis. 0 \<le> bi_start (snd x) \<and> bi_start (snd x) < current_time h"
    by (rule starts_map_set [OF starts i]) simp
  moreover have "ends_apart ?bis (current_time h)" using assms(1) by (intro ends_apart_map_set [OF _ i]) (auto simp: calls_inv_def)
  ultimately show ?thesis
    using calls_inv_add [OF assms(1), of "kShareWith b w s" b s ?bis ?j] False h' recorded_map_set [OF i]
    by (simp add: new_interval_def)
qed

lemma Free_inv:
  assumes "calls_inv cs h" "Free b s h = Inr h'"
  shows "calls_inv (cs @ [kFree b s]) h' \<and> alignment h' = alignment h"
proof (cases "s = 0")
  case True
  then show ?thesis using assms by (simp add: Free_def calls_inv_def)
next
  case False
  obtain i where i: "map_of (buffer_intervals h) b = Some i"
      "h' = h\<lparr>buffer_intervals := map_set b (i\<lparr>bi_end := current_time h\<rparr>) (buffer_intervals h), current_time := current_time h + 1\<rparr>"
    using assms(2) False by (auto simp: Free_def bindE_eq_Inr map_at_Inr split: if_splits)
  have "\<forall>x\<in>set (map_set b (i\<lparr>bi_end := current_time h\<rparr>) (buffer_intervals h)). 0 \<le> bi_start (snd x) \<and> bi_start (snd x) < current_time h"
    using assms(1) by (intro starts_map_set [OF _ i(1)]) (simp_all add: calls_inv_def)
  then have "\<forall>x\<in>set (map_set b (i\<lparr>bi_end := current_time h\<rparr>) (buffer_intervals h)). 0 \<le> bi_start (snd x) \<and> bi_start (snd x) < current_time h + 1"
    by fastforce
  moreover have "ends_apart (map_set b (i\<lparr>bi_end := current_time h\<rparr>) (buffer_intervals h)) (current_time h + 1)"
    using assms(1) by (intro ends_apart_free [OF _ i(1)]) (auto simp: calls_inv_def)
  ultimately show ?thesis
    using assms(1) sharing_ok_end [OF _ i(1), of "current_time h"] recorded_map_set [OF i(1), of "i\<lparr>bi_end := current_time h\<rparr>"] i(2)
    by (simp add: calls_inv_def)
qed

lemma apply_call_inv:
  assumes "calls_inv cs h" "apply_call h c = Inr h'"
  shows "calls_inv (cs @ [c]) h' \<and> alignment h' = alignment h"
  using assms Alloc_inv ShareWith_inv Free_inv by (cases c) auto

lemma apply_calls_inv:
  assumes "calls_inv cs h" "apply_calls h calls = Inr h'"
  shows "calls_inv (cs @ calls) h' \<and> alignment h' = alignment h"
  using assms
proof (induction calls arbitrary: cs h)
  case (Cons c calls)
  then obtain h1 where h1: "apply_call h c = Inr h1" "apply_calls h1 calls = Inr h'"
    by (auto simp: apply_calls_def bindE_eq_Inr)
  have "calls_inv (cs @ [c]) h1 \<and> alignment h1 = alignment h" by (rule apply_call_inv [OF Cons.prems(1) h1(1)])
  then show ?case using Cons.IH [OF _ h1(2), of "cs @ [c]"] by simp
qed (simp add: apply_calls_def)

lemma MakeBestFitHeap_inv: "MakeBestFitHeap al strategy cmp ty = Inr h \<Longrightarrow> calls_inv [] h \<and> alignment h = al \<and> 0 < al"
  by (auto simp: MakeBestFitHeap_def Let_def calls_inv_def empty_result_def sharing_ok_def sharing_closed_def shares_def recorded_def ends_apart_def
      split: if_splits option.splits)

lemma calls_ready:
  assumes "MakeBestFitHeap al strategy cmp ty = Inr h0" "apply_calls h0 calls = Inr h"
    "distinct (map fst (introductions calls))" "\<forall>x\<in>set (introductions calls). 0 \<le> snd x \<and> snd x \<le> M"
  shows "heap_ready h M" "alignment h = al" "length (buffer_intervals h) \<le> length (introductions calls)"
    "\<forall>b s. recorded (buffer_intervals h) b s \<longleftrightarrow> s \<noteq> 0 \<and> (b, s) \<in> set (introductions calls)"
    "ends_apart (buffer_intervals h) (current_time h)"
proof -
  have h0: "calls_inv [] h0" "alignment h0 = al" "0 < al" using MakeBestFitHeap_inv [OF assms(1)] by simp_all
  have inv: "calls_inv calls h" and al: "alignment h = al" using apply_calls_inv [OF h0(1) assms(2)] h0(2) by simp_all
  show "alignment h = al" by (rule al)
  show "length (buffer_intervals h) \<le> length (introductions calls)"
    and rec: "\<forall>b s. recorded (buffer_intervals h) b s \<longleftrightarrow> s \<noteq> 0 \<and> (b, s) \<in> set (introductions calls)"
    and "ends_apart (buffer_intervals h) (current_time h)"
    using inv by (simp_all add: calls_inv_def)
  have d: "distinct (map fst (buffer_intervals h))" using inv by (simp add: calls_inv_def sharing_ok_def)
  have sizes: "0 < bi_size (snd x) \<and> bi_size (snd x) \<le> M" if "x \<in> set (buffer_intervals h)" for x
  proof -
    have "recorded (buffer_intervals h) (fst x) (bi_size (snd x))"
      unfolding recorded_def using map_of_is_SomeI [OF d, of "fst x" "snd x"] that by auto
    then have "bi_size (snd x) \<noteq> 0" "(fst x, bi_size (snd x)) \<in> set (introductions calls)" using rec by blast+
    then show ?thesis using assms(4) by fastforce
  qed
  have zero: "b \<notin> dom (map_of (buffer_intervals h))" if b: "b \<in> dom (map_of (chunk_map (heap_result h)))" for b
  proof
    assume "b \<in> dom (map_of (buffer_intervals h))"
    then obtain s where "recorded (buffer_intervals h) b s" by (auto simp: recorded_def)
    then have "s \<noteq> 0" "(b, s) \<in> set (introductions calls)" "(b, 0) \<in> set (introductions calls)"
      using rec inv b unfolding calls_inv_def by blast+
    then show False using assms(3) eq_key_imp_eq_value by metis
  qed
  show "heap_ready h M" unfolding heap_ready_def table_ok_def
    using inv al h0(3) sizes zero by (simp add: calls_inv_def)
qed

section \<open>The properties of the heap\<close>

text \<open>An aligned place where the group of an interval fits, clear of the chunks in its way.\<close>

definition free_place :: "BestFitHeap \<Rightarrow> BufferInterval \<Rightarrow> int \<Rightarrow> int \<Rightarrow> bool" where
  "free_place h i m a \<longleftrightarrow> alignment h dvd a \<and> 0 \<le> a \<and> a + m \<le> kint64max \<and>
     (\<forall>n\<in>in_the_way h i. apart (a, a + m) (offset (snd (snd n))) (Chunk_end (snd (snd n))))"

lemma places_covered_free:
  assumes "places_covered (alignment h) (bi_size i) ((\<lambda>n. snd (snd n)) ` in_the_way h i) F" "bi_size i \<le> m" "free_place h i m a"
  shows "\<exists>d\<in>set F. fst d \<le> a \<and> a + m \<le> snd d"
  using assms unfolding places_covered_def free_place_def by blast

lemma apart_mono: "apart c x y \<Longrightarrow> fst c + m \<le> snd c \<Longrightarrow> apart (fst c, fst c + m) x y"
  by (auto simp: apart_def)

text \<open>
  C12. The search for a chunk for an unsliced buffer returns, with room for its group below \<open>INT64_MAX\<close>, an aligned offset
  at which the largest buffer of the group fits clear of every chunk in use while a buffer of the group lives; it is a
  best fit: any other such offset lies in a free chunk at least as large as the one chosen.
\<close>

theorem FindChunkCandidate_best_fit:
  assumes "placeable_in h i m hi"
  shows "\<exists>F c. MakeFreeChunks h i m = Inr F \<and> c \<in> set F \<and> FindChunkCandidate h i (- 1) = Inr (FromOffsetSize (fst c) (bi_size i)) \<and>
    free_place h i m (fst c) \<and>
    (\<forall>a. free_place h i m a \<longrightarrow> (\<exists>d\<in>set F. fst d \<le> a \<and> a + m \<le> snd d \<and> snd c - fst c \<le> snd d - fst d))"
proof -
  have i: "bi_size i \<le> m" "hi + m \<le> kint64max" using assms by (simp_all add: placeable_in_def is_group_size_def)
  obtain F c where c: "MakeFreeChunks h i m = Inr F" "c \<in> set F" "FindChunkCandidate h i (- 1) = Inr (FromOffsetSize (fst c) (bi_size i))"
      "fst c + m \<le> snd c" "\<forall>d\<in>set F. fst d + m \<le> snd d \<longrightarrow> snd c - fst c \<le> snd d - fst d"
      "places_covered (alignment h) (bi_size i) ((\<lambda>n. snd (snd n)) ` in_the_way h i) F" "alignment h dvd fst c" "0 \<le> fst c" "fst c \<le> hi"
      "\<forall>n\<in>in_the_way h i. apart c (offset (snd (snd n))) (Chunk_end (snd (snd n)))"
    using FindChunkCandidate_ok [OF assms] by blast
  have "free_place h i m (fst c)" unfolding free_place_def using c(4,7-10) i(2) by (auto intro: apart_mono)
  moreover have "\<exists>d\<in>set F. fst d \<le> a \<and> a + m \<le> snd d \<and> snd c - fst c \<le> snd d - fst d" if a: "free_place h i m a" for a
  proof -
    obtain d where d: "d \<in> set F" "fst d \<le> a" "a + m \<le> snd d" using places_covered_free [OF c(6) i(1) a] by blast
    then have "snd c - fst c \<le> snd d - fst d" using c(5) by simp
    then show ?thesis using d by blast
  qed
  ultimately show ?thesis using c(1-3) by blast
qed

text \<open>
  C2. The heap computes a plan without overlap. After any calls of \<open>Alloc\<close>, \<open>ShareWith\<close> and \<open>Free\<close> that violate no
  \<open>CHECK\<close>, in which every buffer is introduced once and the buffers could be laid out one after the other below
  \<open>INT64_MAX\<close>, \<open>Finish\<close> returns; every buffer of non-zero size has an aligned chunk of at least its size within the
  reported heap size, colocated buffers have the same chunk, and two buffers that are not colocated and whose live
  intervals share a time have disjoint chunks, whatever the packing strategy.
\<close>

theorem Finish_no_overlap:
  assumes "MakeBestFitHeap al strategy cmp ty = Inr h0" "apply_calls h0 calls = Inr h" "distinct (map fst (introductions calls))"
    "\<forall>x\<in>set (introductions calls). 0 \<le> snd x \<and> snd x \<le> M" "int (length (introductions calls)) * (M + al) \<le> kint64max" "0 \<le> M"
  shows "\<exists>res h'. Finish h = Inr (res, h') \<and> heap_results res = [heap_result h'] \<and> total_heap_size res = heap_size (heap_result h') \<and>
    valid_plan al (buffer_intervals h) (chunk_map (heap_result h')) (total_heap_size res) \<and>
    (\<forall>b s. (b, s) \<in> set (introductions calls) \<longrightarrow> s \<noteq> 0 \<longrightarrow> recorded (buffer_intervals h) b s)"
proof -
  note r = calls_ready [OF assms(1-4)]
  have "0 < al" using MakeBestFitHeap_inv [OF assms(1)] by simp
  then have "int (length (buffer_intervals h)) * (M + al) \<le> int (length (introductions calls)) * (M + al)"
    using r(3) assms(6) by (intro mult_right_mono) auto
  then show ?thesis using Finish_valid [OF r(1) _ assms(6)] assms(5) r(2,4) by auto
qed

definition example_calls :: "RecordedCall list" where
  "example_calls = [kAlloc 1 10, kAlloc 2 20, kFree 1 10, kAlloc 3 7, kShareWith 4 2 25, kFree 2 20, kFree 3 7, kAlloc 5 5,
     kFree 4 25, kFree 5 5, kAlloc 6 0]"

definition example_heap :: BestFitHeap where
  "example_heap = projr (MakeBestFitHeap 4 kSpatial None kAll)"

theorem Finish_no_overlap_witness:
  "\<exists>h res h'. apply_calls example_heap example_calls = Inr h \<and> Finish h = Inr (res, h') \<and> total_heap_size res = 38 \<and>
     valid_plan 4 (buffer_intervals h) (chunk_map (heap_result h')) 38 \<and> recorded (buffer_intervals h) 4 25"
proof -
  let ?h = "projr (apply_calls example_heap example_calls)"
  have h0: "MakeBestFitHeap 4 kSpatial None kAll = Inr example_heap" by (simp add: example_heap_def MakeBestFitHeap_def)
  have "\<not> isl (apply_calls example_heap example_calls)" by code_simp
  then have h: "apply_calls example_heap example_calls = Inr ?h" by (simp add: sum.expand)
  have size: "map_sum id (\<lambda>x. total_heap_size (fst x)) (Finish ?h) = Inr 38" by code_simp
  have "\<exists>res h'. Finish ?h = Inr (res, h') \<and> heap_results res = [heap_result h'] \<and> total_heap_size res = heap_size (heap_result h') \<and>
      valid_plan 4 (buffer_intervals ?h) (chunk_map (heap_result h')) (total_heap_size res) \<and>
      (\<forall>b s. (b, s) \<in> set (introductions example_calls) \<longrightarrow> s \<noteq> 0 \<longrightarrow> recorded (buffer_intervals ?h) b s)"
    by (rule Finish_no_overlap [OF h0 h, of 25]) (simp_all add: example_calls_def kint64max_def)
  then show ?thesis using h size by (auto simp: example_calls_def)
qed

definition example_tree :: BufferIntervalTreeNode where
  "example_tree = Add 0 9 (FromOffsetSize 0 10) (Add 0 9 (FromOffsetSize 40 10) (Add 0 9 (FromOffsetSize 20 12) Nullptr))"

theorem FindChunkCandidate_best_fit_witness:
  "FindChunkCandidate (example_heap\<lparr>interval_tree := example_tree\<rparr>) ((new_interval 1 6 3 True)\<lparr>bi_end := 5\<rparr>) (- 1) =
     Inr (FromOffsetSize 12 6) \<and>
   free_place (example_heap\<lparr>interval_tree := example_tree\<rparr>) ((new_interval 1 6 3 True)\<lparr>bi_end := 5\<rparr>) 6 12"
proof -
  let ?h = "example_heap\<lparr>interval_tree := example_tree\<rparr>" and ?i = "(new_interval 1 6 3 True)\<lparr>bi_end := 5\<rparr>"
  have e: "FindChunkCandidate ?h ?i (- 1) = Inr (FromOffsetSize 12 6)" by code_simp
  have heap: "alignment ?h = 4" "buffer_intervals ?h = []" "interval_tree ?h = example_tree" by (simp_all add: example_heap_def MakeBestFitHeap_def)
  have i: "colocations ?i = []" "bi_size ?i = 6" by (simp_all add: new_interval_def)
  have tree: "tree_ok example_tree" unfolding example_tree_def by (intro Add_ok) (simp only: tree_ok.simps)
  have nodes: "set (inorder example_tree) = {(0, 9, FromOffsetSize 0 10), (0, 9, FromOffsetSize 40 10), (0, 9, FromOffsetSize 20 12)}"
    by (auto simp: example_tree_def Add_set)
  have "members [] ?i = {}" by (simp add: members_def)
  then have "placeable_in ?h ?i 6 54" unfolding placeable_in_def heap i
    using tree nodes i by (simp add: colocations_known_def sharing_closed_def is_group_size_def kint64max_def)
  from FindChunkCandidate_best_fit [OF this]
  obtain c :: "int \<times> int" where "FindChunkCandidate ?h ?i (- 1) = Inr (FromOffsetSize (fst c) (bi_size ?i))" "free_place ?h ?i 6 (fst c)" by blast
  then show ?thesis using e by (simp add: FromOffsetSize_def)
qed

text \<open>
  The comment on \<open>MakeFreeChunks\<close> says that a chunk that cannot hold the largest colocated buffer is not returned; the
  argument with this size is ignored.
\<close>

lemma MakeFreeChunks_ignores_colocation_size:
  "\<exists>F. MakeFreeChunks (example_heap\<lparr>interval_tree := example_tree\<rparr>) ((new_interval 1 6 3 True)\<lparr>bi_end := 5\<rparr>) 1000 = Inr F \<and>
     (12, 20) \<in> set F"
proof -
  have "MakeFreeChunks (example_heap\<lparr>interval_tree := example_tree\<rparr>) ((new_interval 1 6 3 True)\<lparr>bi_end := 5\<rparr>) 1000 =
      Inr [(52, kint64max), (32, 40), (12, 20)]" by code_simp
  then show ?thesis by simp
qed

end
