(* ===== verification/Spec2Isabelle.thy ===== *)
theory Spec2Isabelle
  imports OverflowUtil Permutation PrimitiveUtil Shape ShapeProto ShapeEqual LayoutUtil IndexUtil TiledIndex ShapeUtil ShapeUtilDims Util
    HloOpcode ShapeInference ShapeInferenceDims WindowUtil ShapeInferenceReduce OrderedSet FreeChunks BufferIntervalTree SlicedAllocationFinder
    SliceTimePermutations BestFitHeap
begin

text \<open>
  A verification library for the core of XLA, the compiler for linear algebra under \<open>src/xla\<close>.

  \<^bold>\<open>The program.\<close> XLA compiles graphs of array operations. Every value of a graph has a \<^emph>\<open>shape\<close>: an element type,
  dimension sizes, some of them dynamic, and a \<^emph>\<open>layout\<close> that orders the dimensions in memory and may tile them.
  Every pass computes with shapes: shape inference gives the shape of each operation's result, index utilities map
  positions to addresses, and the heap simulator places the buffers of a program in memory by their size and the
  time they are live. The library models these parts, from the integers they are built of up to the best-fit heap that
  assigns offsets to buffers.

  \<^bold>\<open>Conventions.\<close> An \<open>absl::StatusOr<T>\<close> is a value of \<open>error + 'a\<close> (\<open>Prelude\<close>): \<open>InvalidArgument\<close>, \<open>InternalError\<close> and the
  other codes are the early returns of the source, in their order, and \<open>CheckFailed\<close> is a failed \<open>CHECK\<close>, an access out of
  range or an undefined operation, all of which end the process. Early-returning loops are \<open>for_each\<close>, \<open>foldE\<close> and
  \<open>mapE\<close>. \<open>int64_t\<close> values are integers; where the code detects overflow the detection is modelled on 64-bit words
  (\<open>OverflowUtil\<close>), where it relies on a narrowing conversion the conversion is written out (\<open>wrap8\<close>, \<open>wrap32\<close>, \<open>wrap64\<close>), and
  where a sum may leave the range without detection \<open>signed64\<close> stops. Classes are records or datatypes, member functions
  take the object as an argument and return it updated. Loops are structural recursion, or functions with a
  termination proof; no fuel is used. All definitions of operations are executable.

  \<^bold>\<open>Parameters.\<close> The floating-point types are native or belong to the package ml_dtypes, which is not part of
  the repository: what is read of them (\<open>sizeof\<close>, digits, exponents) is the record \<open>native_limits\<close>, with
  \<open>ieee_limits\<close> as the documented instance. The alignment callback of the free chunks manager is an argument.

  \<^bold>\<open>Integers and lists.\<close>
  \<^item> \<open>Prelude\<close>: status values, combinators, the 64-bit range, lemmas on lists.
  \<^item> \<open>OverflowUtil\<close> (\<open>xla/overflow_util.h\<close>): checked multiplication and addition; the portable and builtin bodies agree.
  \<^item> \<open>MathUtil\<close> (\<open>xla/tsl/lib/math/math_util.h\<close>): division that truncates, rounding division, gcd, powers; the rounded
    quotients are exact for all signs.
  \<^item> \<open>Permutation\<close> (\<open>xla/permutation_util.{h,cc}\<close>): permutations as vectors of positions; recognition, inversion and
    application are correct and undo each other.
  \<^item> \<open>Util\<close> (\<open>xla/util.{h,cc}\<close>): \<open>CommonFactors\<close>, \<open>ConvertDimensionNumbers\<close>, mixed radix digits, packing of small integers;
    the factor loop ends and groups equal products, the conversion partitions, packing round-trips.
  \<^item> \<open>MixedRadix\<close>: positional number systems with a radix per position, and two locales: \<open>linearisation\<close>, an injective
    map from indices to offsets with a bound, and \<open>dense_linearisation\<close>, onto all offsets. The interpretations are in \<open>IndexUtil\<close>
    and \<open>TiledIndex\<close>.
  \<^item> \<open>OrderedSet\<close>: ordered containers with a comparator as sorted lists, iterators as positions, and the locale
    \<open>comparator\<close> of strict weak orderings.

  \<^bold>\<open>Shapes and layouts.\<close>
  \<^item> \<open>PrimitiveUtil\<close> (\<open>xla/primitive_util.{h,cc}\<close>, \<open>xla/types.h\<close>): element types, their classes, widths, names and casts.
  \<^item> \<open>Shape\<close> (\<open>xla/shape.{h,cc}\<close>, \<open>xla/layout.{h,cc}\<close>): the objects and all their mutators, the steps \<open>shape_step\<close> and the
    reachable shapes; every reachable shape is well formed (\<open>shape_inv\<close>), deletion of dimensions keeps layouts permutations.
  \<^item> \<open>ShapeProto\<close> (\<open>ToProto\<close>, \<open>FromProto\<close>): writing and reading back; reading any message never stops the process.
  \<^item> \<open>ShapeEqual\<close> (\<open>Shape::Equal\<close>, \<open>Layout::Equal\<close>): the configurable comparisons.
  \<^item> \<open>LayoutUtil\<close> (\<open>xla/layout_util.{h,cc}\<close>): construction, validation, copying of layouts; validation accepts exactly the
    layouts that can be laid over the array.
  \<^item> \<open>IndexUtil\<close> (\<open>xla/index_util.{h,cc}\<close>): linear and multidimensional indices are in bijection; successor of an index.
  \<^item> \<open>TiledIndex\<close> (the tiled linearisations of \<open>xla/layout_util.cc\<close>): nested tilings are injective, in bounds and inverted.
  \<^item> \<open>ShapeUtil\<close>, \<open>ShapeUtilDims\<close> (\<open>xla/shape_util.{h,cc}\<close>): factories with validation, sizes, comparisons, subshapes, and
    insertion, deletion and permutation of dimensions; sizes of validated shapes are exact and fit in 64 bits,
    permuting dimensions moves no data.

  \<^bold>\<open>Operations.\<close>
  \<^item> \<open>HloOpcode\<close> (\<open>xla/hlo/ir/hlo_opcode.{h,cc}\<close>): opcodes with names and arities.
  \<^item> \<open>ShapeInference\<close>, \<open>ShapeInferenceDims\<close>, \<open>ShapeInferenceReduce\<close> (\<open>xla/service/shape_inference.cc\<close>), \<open>WindowUtil\<close>
    (\<open>xla/window_util.{h,cc}\<close>): one definition per \<open>Infer...Shape\<close>. Elementwise operations are well typed and cover their
    operands; slices, concatenations and windows have exactly the sizes they denote; transposition and gathering are undone
    by their inverses.

  \<^bold>\<open>The heap.\<close>
  \<^item> \<open>FreeChunks\<close> (\<open>xla/service/heap_simulator/free_chunks_manager.{h,cc}\<close>): two indexes over the free chunks with lazy
    removal. The manager refines a set of free addresses (\<open>free_space\<close>), the search is best fit, and the locale
    \<open>free_space_manager\<close> proves for every manager with this contract that live ranges never overlap and that freed
    space is merged back to the whole; it is interpreted on the manager itself.
  \<^item> \<open>BufferIntervalTree\<close> (\<open>xla/service/heap_simulator/heap_simulator.{h,cc}\<close>): the interval tree of assigned chunks. It
    refines a multiset of intervals, and its iterative traversals agree with a fold over that multiset in order.
  \<^item> \<open>SlicedAllocationFinder\<close> (the class of that name in \<open>heap_simulator.{h,cc}\<close>): for an allocation made in slices at
    successive times, the free space of every slice time is merged into roots cut into pieces by the time since which they
    are free. The pieces describe exactly the free space, and the search finds a place whenever an aligned
    offset and a permutation of the slice times fit, each slice in space that is free from its time on.
  \<^item> \<open>SliceTimePermutations\<close> (the iterators over slice times and \<open>allocation_block.{h,cc}\<close>): the iterators end, repeat no class of
    equivalent permutations, and keep the sizes that start at each time when repacking; the full iterator misses no class.
  \<^item> \<open>BestFitHeap\<close> (\<open>GlobalDecreasingSizeBestFitHeap\<close>): intervals recorded by \<open>Alloc\<close>, \<open>ShareWith\<close> and \<open>Free\<close>, the free chunks
    around them (\<open>MakeFreeChunks\<close>), the search (\<open>FindChunkCandidate\<close>), \<open>CommitChunkAndInterval\<close> and \<open>Finish\<close>. The search is a best fit
    for the largest buffer of a group of colocated ones, and \<open>Finish\<close> returns a plan in which buffers that are live at the same
    time and not colocated never overlap, for every packing strategy. The bound on the number and sizes of the buffers
    in these statements keeps all offsets below \<open>INT64_MAX\<close>. A buffer that was never freed has the end time -1, as in the code,
    and is not live in the sense of the plan.

  \<^bold>\<open>Not modelled.\<close> Printing and parsing of text, literals and everything that computes with floating-point values, the
  pointer graph of \<open>xla/hlo/ir\<close> with the parser, verifier, analyses and passes that rewrite it, and the backends, runtimes and
  bindings, which call compilers, drivers and operating systems. Of shape inference, batch normalisation, convolution,
  ragged dot, gather and scatter are left; of the heap simulator, the heaps with a size limit and the
  simulation of a module; of \<open>shape_util\<close>, the decomposition of bitcasts and the parallel iteration over indices.
\<close>

end
